(* ===== verification/Prelude.thy ===== *)
theory Prelude
  imports
    Complex_Main
    "HOL-Library.Word"
    "HOL-Library.AList"
    "HOL-Library.Signed_Division"
    "HOL-Library.Monad_Syntax"
begin

text \<open>
  Shared vocabulary of the development: the Go scalar types, \<^verbatim>\<open>time.Duration\<close> and
  \<^verbatim>\<open>time.Time\<close> arithmetic, big-endian byte strings, Go maps as association lists, bounded
  channels, and the generic lemmas the component theories rest on.

  Conventions. A fixed-size array \<^verbatim>\<open>[32]byte\<close> is a \<open>256 word\<close> and \<^verbatim>\<open>[16]byte\<close> a \<open>128 word\<close>,
  read big-endian; \<^verbatim>\<open>uint64\<close>, \<^verbatim>\<open>uint32\<close>, \<^verbatim>\<open>uint16\<close>, \<^verbatim>\<open>byte\<close> are words of their width;
  \<^verbatim>\<open>int\<close> counters are \<open>nat\<close> where they only count up and \<open>int\<close> otherwise; a
  \<^verbatim>\<open>time.Duration\<close> is an \<open>int\<close> kept in the signed 64-bit range by \<open>wrap64\<close>; a
  \<^verbatim>\<open>time.Time\<close> is an \<open>int\<close>, nanoseconds since Go's zero time. A run-time panic is \<open>None\<close>.
\<close>

unbundle bit_operations_syntax

type_synonym byte = "8 word"
type_synonym u16 = "16 word"
type_synonym u32 = "32 word"
type_synonym u64 = "64 word"
type_synonym id16 = "128 word"
type_synonym id32 = "256 word"
type_synonym dur = int
type_synonym gtime = int
type_synonym ip = id16

named_theorems wf_intros \<open>well-formedness of the states operations return\<close>
named_theorems go_map \<open>lookups in updated Go maps\<close>
named_theorems wire_simps \<open>reading back what an encoder wrote\<close>

lemma unat_lt2p: "unat (x :: 'a::len word) < 2 ^ LENGTH('a)"
  by (rule unsigned_less)

section \<open>Signed 64-bit integers and time\<close>

definition wrap64 :: "int \<Rightarrow> int" where
  "wrap64 x = signed_take_bit 63 x"

definition max_dur :: dur where
  "max_dur = 2 ^ 63 - 1"

definition min_dur :: dur where
  "min_dur = - (2 ^ 63)"

lemma wrap64_id [simp]: "min_dur \<le> x \<Longrightarrow> x \<le> max_dur \<Longrightarrow> wrap64 x = x"
  by (simp add: wrap64_def min_dur_def max_dur_def signed_take_bit_int_eq_self)

lemma wrap64_bounds: "min_dur \<le> wrap64 x \<and> wrap64 x \<le> max_dur"
proof -
  have "- (2 ^ 63) \<le> signed_take_bit 63 x" and "signed_take_bit 63 x < 2 ^ 63"
    using signed_take_bit_int_greater_eq_minus_exp [of 63 x] signed_take_bit_int_less_exp [of 63 x]
    by simp_all
  then show ?thesis
    by (simp add: wrap64_def min_dur_def max_dur_def)
qed

text \<open>\<^verbatim>\<open>Time.Sub\<close> saturates at the ends of the Duration range.\<close>

definition time_sub :: "gtime \<Rightarrow> gtime \<Rightarrow> dur" where
  "time_sub a b = max min_dur (min max_dur (a - b))"

lemma time_sub_bounds: "min_dur \<le> time_sub a b" "time_sub a b \<le> max_dur"
  by (simp_all add: time_sub_def min_dur_def max_dur_def)

lemma time_sub_exact: "min_dur \<le> a - b \<Longrightarrow> a - b \<le> max_dur \<Longrightarrow> time_sub a b = a - b"
  by (simp add: time_sub_def)

lemma time_sub_nonneg: "b \<le> a \<Longrightarrow> 0 \<le> time_sub a b"
  by (simp add: time_sub_def max_dur_def)

definition millisecond :: dur where
  "millisecond = 1000000"

definition second :: dur where
  "second = 1000000000"

text \<open>
  \<^verbatim>\<open>rand.Int64N n\<close> panics when \<^verbatim>\<open>n <= 0\<close> and otherwise returns some value of \<open>[0, n)\<close>; the
  draw is an arbitrary integer supplied by the caller.
\<close>

definition int64N :: "int \<Rightarrow> int \<Rightarrow> int option" where
  "int64N draw n = (if n \<le> 0 then None else Some (draw mod n))"

lemma int64N_Some: "int64N d n = Some r \<Longrightarrow> 0 \<le> r \<and> r < n"
  by (auto simp: int64N_def split: if_splits)

lemma int64N_pos [simp]: "0 < n \<Longrightarrow> int64N d n = Some (d mod n)"
  by (simp add: int64N_def)

lemma int64N_nonpos [simp]: "n \<le> 0 \<Longrightarrow> int64N d n = None"
  by (simp add: int64N_def)

text \<open>Full jitter over \<open>[b/2, b]\<close>, the shape both backoff computations share.\<close>

lemma jitter_bounds:
  fixes b r :: int
  assumes "0 \<le> b" and "0 \<le> r" and "r < b div 2 + 1"
  shows "b div 2 \<le> b div 2 + r" and "b div 2 + r \<le> b"
  using assms by linarith+

lemma sdiv_nonneg: "0 \<le> (a::int) \<Longrightarrow> 0 < b \<Longrightarrow> a sdiv b = a div b"
  by (simp add: signed_divide_int_def sgn_if)

section \<open>Big-endian byte strings\<close>

primrec be_bytes :: "nat \<Rightarrow> nat \<Rightarrow> byte list" where
  "be_bytes 0 v = []"
| "be_bytes (Suc k) v = of_nat (v div 256 ^ k) # be_bytes k v"

definition be_val :: "byte list \<Rightarrow> nat" where
  "be_val bs = foldl (\<lambda>a b. a * 256 + unat b) 0 bs"

lemma length_be_bytes [simp]: "length (be_bytes k v) = k"
  by (induction k) simp_all

lemma be_foldl: "foldl (\<lambda>a b. a * 256 + unat (b::byte)) a bs = a * 256 ^ length bs + be_val bs"
proof (induction bs arbitrary: a)
  case Nil
  then show ?case by (simp add: be_val_def)
next
  case (Cons b bs)
  have "be_val (b # bs) = unat b * 256 ^ length bs + be_val bs"
    using Cons.IH [of "unat b"] by (simp add: be_val_def)
  then show ?case using Cons.IH [of "a * 256 + unat b"] by (simp add: algebra_simps)
qed

lemma be_val_Nil [simp]: "be_val [] = 0"
  by (simp add: be_val_def)

lemma be_val_Cons: "be_val (b # bs) = unat b * 256 ^ length bs + be_val bs"
  using be_foldl [of "unat b" bs] by (simp add: be_val_def)

lemma be_val_be_bytes: "be_val (be_bytes k v) = v mod 256 ^ k"
proof (induction k)
  case 0
  then show ?case by simp
next
  case (Suc k)
  have u: "unat (of_nat (v div 256 ^ k) :: byte) = v div 256 ^ k mod 256"
    by (simp add: unat_of_nat)
  have "v mod (256 ^ k * 256) = 256 ^ k * (v div 256 ^ k mod 256) + v mod 256 ^ k"
    by (rule mod_mult2_eq)
  then show ?case using Suc u by (simp add: be_val_Cons mult.commute)
qed

lemma be_val_bound: "be_val bs < 256 ^ length bs"
proof (induction bs)
  case Nil
  then show ?case by simp
next
  case (Cons b bs)
  have "unat b < 256" using unat_lt2p [of b] by simp
  then have "unat b * 256 ^ length bs + 256 ^ length bs \<le> 256 * 256 ^ length bs"
    by (metis add.commute mult_Suc mult_le_mono1 Suc_leI)
  then show ?case using Cons.IH unfolding be_val_Cons length_Cons power_Suc by linarith
qed

text \<open>\<^verbatim>\<open>binary.BigEndian.PutUintN\<close> and \<^verbatim>\<open>UintN\<close> at the widths the wire formats use.\<close>

definition be16 :: "u16 \<Rightarrow> byte list" where
  "be16 v = be_bytes 2 (unat v)"

definition be32 :: "u32 \<Rightarrow> byte list" where
  "be32 v = be_bytes 4 (unat v)"

definition be64 :: "u64 \<Rightarrow> byte list" where
  "be64 v = be_bytes 8 (unat v)"

definition id16_bytes :: "id16 \<Rightarrow> byte list" where
  "id16_bytes v = be_bytes 16 (unat v)"

definition id32_bytes :: "id32 \<Rightarrow> byte list" where
  "id32_bytes v = be_bytes 32 (unat v)"

definition word_of_bytes :: "byte list \<Rightarrow> 'a::len word" where
  "word_of_bytes bs = of_nat (be_val bs)"

lemma length_be [simp]:
  "length (be16 a) = 2" "length (be32 b) = 4" "length (be64 c) = 8"
  "length (id16_bytes d) = 16" "length (id32_bytes e) = 32"
  by (simp_all add: be16_def be32_def be64_def id16_bytes_def id32_bytes_def)

lemma word_of_be_bytes:
  fixes v :: "'a::len word"
  assumes "LENGTH('a) = 8 * k"
  shows "word_of_bytes (be_bytes k (unat v)) = v"
proof -
  have "(256::nat) ^ k = 2 ^ LENGTH('a)"
    by (simp add: assms power_mult)
  then have "unat v mod 256 ^ k = unat v"
    using unat_lt2p [of v] by simp
  then show ?thesis
    by (simp add: word_of_bytes_def be_val_be_bytes)
qed

lemma word_of_be [wire_simps]:
  "word_of_bytes (be16 a) = a" "word_of_bytes (be32 b) = b" "word_of_bytes (be64 c) = c"
  "word_of_bytes (id16_bytes d) = d" "word_of_bytes (id32_bytes e) = e"
  by (simp_all add: be16_def be32_def be64_def id16_bytes_def id32_bytes_def word_of_be_bytes)

lemma id16_bytes_inject: "id16_bytes a = id16_bytes b \<longleftrightarrow> a = b"
  by (metis word_of_be(4))

lemma id32_bytes_inject: "id32_bytes a = id32_bytes b \<longleftrightarrow> a = b"
  by (metis word_of_be(5))

section \<open>Slices of byte buffers\<close>

definition sub_bytes :: "nat \<Rightarrow> nat \<Rightarrow> 'a list \<Rightarrow> 'a list" where
  "sub_bytes lo hi bs = take (hi - lo) (drop lo bs)"

definition put_at :: "nat \<Rightarrow> 'a list \<Rightarrow> 'a list \<Rightarrow> 'a list" where
  "put_at off xs bs = take off bs @ xs @ drop (off + length xs) bs"

lemma length_put_at [simp]: "off + length xs \<le> length bs \<Longrightarrow> length (put_at off xs bs) = length bs"
  by (simp add: put_at_def)

lemma length_sub_bytes [simp]: "hi \<le> length bs \<Longrightarrow> length (sub_bytes lo hi bs) = hi - lo"
  by (simp add: sub_bytes_def)

lemma nth_put_at:
  assumes "off + length xs \<le> length bs" and "j < length bs"
  shows "put_at off xs bs ! j = (if off \<le> j \<and> j < off + length xs then xs ! (j - off) else bs ! j)"
  using assms by (auto simp: put_at_def nth_append nth_drop)

lemma nth_sub_bytes: "lo + j < hi \<Longrightarrow> hi \<le> length bs \<Longrightarrow> sub_bytes lo hi bs ! j = bs ! (lo + j)"
  by (simp add: sub_bytes_def)

text \<open>
  Consecutive writes at ascending offsets turn a buffer into the concatenation of the fields and
  its untouched tail; reads then walk the concatenation. Every rule consumes one field, so both
  normalisations are linear in the number of fields.
\<close>

lemma put_at_0 [wire_simps]: "put_at 0 xs bs = xs @ drop (length xs) bs"
  by (simp add: put_at_def)

lemma put_at_append [wire_simps]:
  "length ys \<le> off \<Longrightarrow> put_at off xs (ys @ bs) = ys @ put_at (off - length ys) xs bs"
  by (simp add: put_at_def)

lemma put_at_Cons [wire_simps]: "0 < off \<Longrightarrow> put_at off xs (y # bs) = y # put_at (off - 1) xs bs"
  by (cases off) (simp_all add: put_at_def)

lemma sub_bytes_hd [wire_simps]: "hi = length ys \<Longrightarrow> sub_bytes 0 hi (ys @ bs) = ys"
  by (simp add: sub_bytes_def)

lemma sub_bytes_append [wire_simps]:
  "length ys \<le> lo \<Longrightarrow> sub_bytes lo hi (ys @ bs) = sub_bytes (lo - length ys) (hi - length ys) bs"
  by (simp add: sub_bytes_def)

lemma sub_bytes_Cons [wire_simps]:
  "0 < lo \<Longrightarrow> sub_bytes lo hi (y # bs) = sub_bytes (lo - 1) (hi - 1) bs"
  by (cases lo; cases hi) (simp_all add: sub_bytes_def)

lemma nth_append_ge [wire_simps]: "length ys \<le> j \<Longrightarrow> (ys @ bs) ! j = bs ! (j - length ys)"
  by (simp add: nth_append)

lemma nth_Cons_ge [wire_simps]: "0 < j \<Longrightarrow> (y # bs) ! j = bs ! (j - 1)"
  by simp

section \<open>Go maps as association lists\<close>

text \<open>
  A Go map is an association list with distinct keys. Iteration is in list order; Go's own
  order is unspecified, and since a theorem about every list is a theorem about every order,
  nothing proved here depends on one.
\<close>

abbreviation map_put :: "'k \<Rightarrow> 'v \<Rightarrow> ('k \<times> 'v) list \<Rightarrow> ('k \<times> 'v) list" where
  "map_put k v m \<equiv> AList.update k v m"

abbreviation map_del :: "'k \<Rightarrow> ('k \<times> 'v) list \<Rightarrow> ('k \<times> 'v) list" where
  "map_del k m \<equiv> AList.delete k m"

abbreviation map_keys :: "('k \<times> 'v) list \<Rightarrow> 'k list" where
  "map_keys m \<equiv> map fst m"

abbreviation wf_map :: "('k \<times> 'v) list \<Rightarrow> bool" where
  "wf_map m \<equiv> distinct (map_keys m)"

lemma map_of_put [simp, go_map]: "map_of (map_put k v m) = (map_of m)(k \<mapsto> v)"
  by (rule AList.update_conv')

lemma map_of_del [simp, go_map]: "map_of (map_del k m) = (map_of m)(k := None)"
  by (rule AList.delete_conv')

lemma wf_map_put [simp, wf_intros]: "wf_map m \<Longrightarrow> wf_map (map_put k v m)"
  by (rule AList.distinct_update)

lemma wf_map_del [simp, wf_intros]: "wf_map m \<Longrightarrow> wf_map (map_del k m)"
  by (rule AList.distinct_delete)

lemma keys_put [simp]: "fst ` set (map_put k v m) = insert k (fst ` set m)"
  by (simp add: AList.dom_update)

lemma keys_del [simp]: "fst ` set (map_del k m) = fst ` set m - {k}"
  by (auto simp: AList.delete_eq)

lemma length_put: "length (map_put k v m) = (if k \<in> fst ` set m then length m else Suc (length m))"
  by (induction m) auto

lemma set_put_subset: "set (map_put k v m) \<subseteq> insert (k, v) (set m)"
  by (induction m) auto

lemma set_del_subset: "set (map_del k m) \<subseteq> set m"
  by (auto simp: AList.delete_eq)

lemma length_del_le: "length (map_del k m) \<le> length m"
  by (rule AList.length_delete_le)

lemma map_del_absent: "k \<notin> fst ` set m \<Longrightarrow> map_del k m = m"
  by (induction m) auto

lemma map_del_put: "map_del k (map_put k v m) = map_del k m"
  by (induction m) auto

lemma length_del: "wf_map m \<Longrightarrow> k \<in> fst ` set m \<Longrightarrow> Suc (length (map_del k m)) = length m"
  by (induction m) (auto simp: map_del_absent)

lemma map_of_None_iff: "map_of m k = None \<longleftrightarrow> k \<notin> fst ` set m"
  by (rule map_of_eq_None_iff)

lemma map_of_in_keys: "map_of m k = Some v \<Longrightarrow> k \<in> fst ` set m"
  by (metis map_of_None_iff option.distinct(1))

lemma map_put_absent: "k \<notin> fst ` set m \<Longrightarrow> map_put k v m = m @ [(k, v)]"
  by (induction m) auto

lemma map_of_filter:
  "wf_map m \<Longrightarrow> map_of (filter P m) k =
     (case map_of m k of None \<Rightarrow> None | Some v \<Rightarrow> if P (k, v) then Some v else None)"
proof (induction m)
  case (Cons a m)
  then have "map_of m (fst a) = None" by (simp add: map_of_eq_None_iff)
  then show ?case using Cons by (cases a) (auto split: option.splits)
qed simp

lemma wf_map_filter [simp, wf_intros]: "wf_map m \<Longrightarrow> wf_map (filter P m)"
  by (rule distinct_map_filter)

lemma map_of_map_val: "map_of (map (\<lambda>(k, v). (k, f v)) m) k = map_option f (map_of m k)"
  by (induction m) auto

section \<open>Ranges of sequence numbers\<close>

text \<open>The loop \<^verbatim>\<open>for m := a; m < b; m++\<close> over a \<^verbatim>\<open>uint64\<close>.\<close>

function word_range :: "u64 \<Rightarrow> u64 \<Rightarrow> u64 list" where
  "word_range a b = (if a < b then a # word_range (a + 1) b else [])"
  by pat_completeness auto

lemma word_succ_unat:
  fixes a b :: u64
  assumes "a < b"
  shows "unat (a + 1) = unat a + 1"
proof -
  have "unat a + 1 < 2 ^ 64"
    using assms unat_lt2p [of b] by (simp add: word_less_nat_alt)
  then show ?thesis by (simp add: unat_word_ariths)
qed

termination word_range
  by (relation "measure (\<lambda>(a, b). unat b - unat a)") (auto simp: word_succ_unat word_less_nat_alt)

declare word_range.simps [simp del]

lemma word_range_empty [simp]: "\<not> a < b \<Longrightarrow> word_range a b = []"
  by (simp add: word_range.simps)

lemma word_range_Cons: "a < b \<Longrightarrow> word_range a b = a # word_range (a + 1) b"
  by (simp add: word_range.simps)

lemma set_word_range [simp]: "set (word_range a b) = {a..<b}"
proof (induction a b rule: word_range.induct)
  case (1 a b)
  show ?case
  proof (cases "a < b")
    case True
    then have s: "unat (a + 1) = unat a + 1" by (rule word_succ_unat)
    have "{a..<b} = insert a {a + 1..<b}"
      using True s by (auto simp: word_less_nat_alt word_le_nat_alt word_unat_eq_iff)
    then show ?thesis using "1.IH" True by (simp add: word_range_Cons)
  next
    case False
    then show ?thesis by auto
  qed
qed

lemma distinct_word_range [simp]: "distinct (word_range a b)"
proof (induction a b rule: word_range.induct)
  case (1 a b)
  show ?case
  proof (cases "a < b")
    case True
    then have "unat (a + 1) = unat a + 1" by (rule word_succ_unat)
    then have "a \<notin> {a + 1..<b}" by (auto simp: word_le_nat_alt)
    then show ?thesis using "1.IH" True by (simp add: word_range_Cons)
  next
    case False
    then show ?thesis by simp
  qed
qed

lemma length_word_range [simp]: "length (word_range a b) = unat b - unat a"
proof (induction a b rule: word_range.induct)
  case (1 a b)
  show ?case
  proof (cases "a < b")
    case True
    then have "unat (a + 1) = unat a + 1" by (rule word_succ_unat)
    then show ?thesis using "1.IH" True by (simp add: word_range_Cons word_less_nat_alt)
  next
    case False
    then show ?thesis by (simp add: word_less_nat_alt)
  qed
qed

section \<open>Invariants of transition systems\<close>

inductive reach :: "('s \<Rightarrow> bool) \<Rightarrow> ('s \<Rightarrow> 's \<Rightarrow> bool) \<Rightarrow> 's \<Rightarrow> bool"
  for init step where
  reach_init: "init s \<Longrightarrow> reach init step s"
| reach_step: "reach init step s \<Longrightarrow> step s t \<Longrightarrow> reach init step t"

text \<open>What a component promises of its steps, and what its reachable states get from it.\<close>

locale step_invariant =
  fixes init :: "'s \<Rightarrow> bool" and step :: "'s \<Rightarrow> 's \<Rightarrow> bool" and inv :: "'s \<Rightarrow> bool"
  assumes inv_init: "init s \<Longrightarrow> inv s"
    and inv_step: "inv s \<Longrightarrow> step s t \<Longrightarrow> inv t"
begin

lemma reach_inv: "reach init step s \<Longrightarrow> inv s"
  by (induction rule: reach.induct) (auto intro: inv_init inv_step)

lemma reach_inv_weaken: "reach init step s \<Longrightarrow> (\<And>s. inv s \<Longrightarrow> P s) \<Longrightarrow> P s"
  by (blast intro: reach_inv)

end

section \<open>Runs of operations and functional refinement\<close>

text \<open>A sequence of calls, threaded through the state, with the answers they gave.\<close>

primrec run :: "('i \<Rightarrow> 's \<Rightarrow> 'o \<times> 's) \<Rightarrow> 'i list \<Rightarrow> 's \<Rightarrow> 'o list \<times> 's" where
  "run f [] s = ([], s)"
| "run f (i # is) s = (let (b, s1) = f i s; (bs, s2) = run f is s1 in (b # bs, s2))"

lemma run_snd_inv: "(\<And>i s. P s \<Longrightarrow> P (snd (f i s))) \<Longrightarrow> P s \<Longrightarrow> P (snd (run f is s))"
  by (induction "is" arbitrary: s) (simp_all add: split_beta)

lemma run_append: "snd (run f (xs @ ys) s) = snd (run f ys (snd (run f xs s)))"
  by (induction xs arbitrary: s) (simp_all add: split_beta)

lemma length_run [simp]: "length (fst (run f is s)) = length is"
  by (induction "is" arbitrary: s) (simp_all add: split_beta)

text \<open>
  A detailed operation that, under its invariant, answers what an abstract operation answers and
  commutes with the abstraction function does so over every sequence of calls.
\<close>

locale functional_refinement =
  fixes cstep :: "'i \<Rightarrow> 's \<Rightarrow> 'o \<times> 's" and astep :: "'i \<Rightarrow> 'a \<Rightarrow> 'o \<times> 'a"
    and abs_of :: "'s \<Rightarrow> 'a" and inv :: "'s \<Rightarrow> bool"
  assumes step_refines: "inv s \<Longrightarrow> astep i (abs_of s) = map_prod id abs_of (cstep i s)"
    and step_inv: "inv s \<Longrightarrow> inv (snd (cstep i s))"
begin

lemma run_inv: "inv s \<Longrightarrow> inv (snd (run cstep is s))"
  by (rule run_snd_inv [where P = inv]) (rule step_inv)

lemma run_refines: "inv s \<Longrightarrow> run astep is (abs_of s) = map_prod id abs_of (run cstep is s)"
  by (induction "is" arbitrary: s) (auto simp: step_refines step_inv split_beta)

end

end
