(* ===== verification/Nack_Wire.thy ===== *)
theory Nack_Wire
  imports Prelude
begin

text \<open>
  The NACK request and the MISS/ACK/THROTTLED response datagrams of \<^verbatim>\<open>nack/wire.go\<close>: encoders
  that write into a caller's buffer (panicking when it is too short) and decoders that reject
  with the sentinel errors.
\<close>

definition NACKSize :: nat where "NACKSize = 64"
definition ResponseSize :: nat where "ResponseSize = 16"
definition MsgTypeNACK :: byte where "MsgTypeNACK = 0x10"
definition MsgTypeMISS :: byte where "MsgTypeMISS = 0x11"
definition MsgTypeACK :: byte where "MsgTypeACK = 0x12"
definition MsgTypeTHROTTLED :: byte where "MsgTypeTHROTTLED = 0x13"
definition nackMagic :: u32 where "nackMagic = 0xE3E1F3E8"
definition nackProtoVer :: u16 where "nackProtoVer = 0x02BF"

lemmas wire_consts = NACKSize_def ResponseSize_def MsgTypeNACK_def MsgTypeMISS_def MsgTypeACK_def
  MsgTypeTHROTTLED_def nackMagic_def nackProtoVer_def

datatype wire_error = ErrBadNACK | ErrBadResponse

record NACK =
  nk_MsgType :: byte
  nk_HashKey :: u64
  nk_StartSeq :: u64
  nk_EndSeq :: u64
  nk_SubtreeID :: id32

record Response =
  rs_MsgType :: byte
  rs_Flags :: byte
  rs_SeqNum :: u64

text \<open>The magic, version and type bytes both datagrams start with.\<close>

definition put_head :: "byte \<Rightarrow> byte \<Rightarrow> byte list \<Rightarrow> byte list" where
  "put_head mt flags buf =
     put_at 7 [flags] (put_at 6 [mt] (put_at 4 (be16 nackProtoVer) (put_at 0 (be32 nackMagic) buf)))"

definition Encode :: "NACK \<Rightarrow> byte list \<Rightarrow> byte list option" where
  "Encode n buf =
     (if length buf < NACKSize then None
      else Some (put_at 32 (id32_bytes (nk_SubtreeID n))
                (put_at 24 (be64 (nk_EndSeq n))
                (put_at 16 (be64 (nk_StartSeq n))
                (put_at 8 (be64 (nk_HashKey n))
                (put_head (nk_MsgType n) 0 buf))))))"

definition Decode :: "byte list \<Rightarrow> wire_error + NACK" where
  "Decode buf =
     (if length buf < NACKSize then Inl ErrBadNACK
      else if word_of_bytes (sub_bytes 0 4 buf) \<noteq> nackMagic then Inl ErrBadNACK
      else let mt = buf ! 6 in
        if mt \<noteq> MsgTypeNACK then Inl ErrBadNACK
        else Inr \<lparr>nk_MsgType = mt,
                  nk_HashKey = word_of_bytes (sub_bytes 8 16 buf),
                  nk_StartSeq = word_of_bytes (sub_bytes 16 24 buf),
                  nk_EndSeq = word_of_bytes (sub_bytes 24 32 buf),
                  nk_SubtreeID = word_of_bytes (sub_bytes 32 64 buf)\<rparr>)"

definition EncodeResponse :: "Response \<Rightarrow> byte list \<Rightarrow> byte list option" where
  "EncodeResponse r buf =
     (if length buf < ResponseSize then None
      else Some (put_at 8 (be64 (rs_SeqNum r)) (put_head (rs_MsgType r) (rs_Flags r) buf)))"

definition DecodeResponse :: "byte list \<Rightarrow> wire_error + Response" where
  "DecodeResponse buf =
     (if length buf < ResponseSize then Inl ErrBadResponse
      else if word_of_bytes (sub_bytes 0 4 buf) \<noteq> nackMagic then Inl ErrBadResponse
      else let mt = buf ! 6 in
        if mt \<noteq> MsgTypeMISS \<and> mt \<noteq> MsgTypeACK \<and> mt \<noteq> MsgTypeTHROTTLED then Inl ErrBadResponse
        else Inr \<lparr>rs_MsgType = mt, rs_Flags = buf ! 7,
                  rs_SeqNum = word_of_bytes (sub_bytes 8 16 buf)\<rparr>)"

section \<open>Round trips\<close>

lemma Encode_form:
  "64 \<le> length buf \<Longrightarrow> Encode n buf = Some (be32 nackMagic @ be16 nackProtoVer @ nk_MsgType n # 0 #
     be64 (nk_HashKey n) @ be64 (nk_StartSeq n) @ be64 (nk_EndSeq n) @ id32_bytes (nk_SubtreeID n) @
     drop 64 buf)"
  by (simp add: Encode_def NACKSize_def put_head_def wire_simps)

lemma EncodeResponse_form:
  "16 \<le> length buf \<Longrightarrow> EncodeResponse r buf = Some (be32 nackMagic @ be16 nackProtoVer @
     rs_MsgType r # rs_Flags r # be64 (rs_SeqNum r) @ drop 16 buf)"
  by (simp add: EncodeResponse_def ResponseSize_def put_head_def wire_simps)

lemma Encode_Some: "Encode n buf = Some out \<Longrightarrow> 64 \<le> length buf"
  by (simp add: Encode_def NACKSize_def split: if_splits)

lemma Encode_length: "Encode n buf = Some out \<Longrightarrow> length out = length buf"
  using Encode_form [OF Encode_Some, of n buf out] Encode_Some [of n buf out] by fastforce

lemma Decode_Encode_gen:
  assumes "Encode n buf = Some out"
  shows "Decode out = (if nk_MsgType n = MsgTypeNACK then Inr n else Inl ErrBadNACK)"
proof -
  have "out = be32 nackMagic @ be16 nackProtoVer @ nk_MsgType n # 0 #
     be64 (nk_HashKey n) @ be64 (nk_StartSeq n) @ be64 (nk_EndSeq n) @ id32_bytes (nk_SubtreeID n) @
     drop 64 buf"
    using assms Encode_form [OF Encode_Some [OF assms]] by simp
  then show ?thesis by (simp add: Decode_def wire_simps NACKSize_def Let_def)
qed

text \<open>The four kinds of datagram are told apart by the type byte alone.\<close>

lemma msg_types_distinct:
  "MsgTypeNACK \<noteq> MsgTypeMISS" "MsgTypeNACK \<noteq> MsgTypeACK" "MsgTypeNACK \<noteq> MsgTypeTHROTTLED"
  "MsgTypeMISS \<noteq> MsgTypeACK" "MsgTypeMISS \<noteq> MsgTypeTHROTTLED" "MsgTypeACK \<noteq> MsgTypeTHROTTLED"
  by (simp_all add: wire_consts)

lemma DecodeResponse_type:
  "DecodeResponse buf = Inr r \<Longrightarrow> rs_MsgType r \<in> {MsgTypeMISS, MsgTypeACK, MsgTypeTHROTTLED}"
  by (auto simp: DecodeResponse_def Let_def split: if_splits)


end
