(* ===== verification/Advert.thy ===== *)
theory Advert
  imports Prelude
begin

text \<open>
  The BRC-126 ADVERT beacon of \<^verbatim>\<open>discovery/advert.go\<close>: the 56-byte encoder, and the decoder with
  its four rejections (short, wrong magic, wrong type, unset address).
\<close>

definition ADVERTSize :: nat where "ADVERTSize = 56"
definition MsgTypeADVERT :: byte where "MsgTypeADVERT = 0x20"
definition advertMagic :: u32 where "advertMagic = 0xE3E1F3E8"
definition advertProtoVer :: u16 where "advertProtoVer = 0x02BF"
definition FlagHasParent :: u16 where "FlagHasParent = 0x0002"
definition FlagDraining :: u16 where "FlagDraining = 0x0004"
definition FlagUnicastRetransmit :: u16 where "FlagUnicastRetransmit = 0x0008"
definition FlagMulticastRetransmit :: u16 where "FlagMulticastRetransmit = 0x0010"

datatype advert_error = ErrBadADVERT | ErrBadADVERT_zero_addr

record ADVERT =
  ad_Scope :: byte
  ad_NACKAddr :: ip
  ad_NACKPort :: u16
  ad_Tier :: byte
  ad_Preference :: byte
  ad_BeaconInterval :: u16
  ad_Flags :: u16
  ad_InstanceID :: u32

definition EncodeADVERT :: "ADVERT \<Rightarrow> byte list \<Rightarrow> byte list option" where
  "EncodeADVERT a buf =
     (if length buf < ADVERTSize then None
      else Some (put_at 40 (replicate 16 0)
                (put_at 36 (be32 0)
                (put_at 32 (be32 (ad_InstanceID a))
                (put_at 30 (be16 (ad_Flags a))
                (put_at 28 (be16 (ad_BeaconInterval a))
                (put_at 27 [ad_Preference a]
                (put_at 26 [ad_Tier a]
                (put_at 24 (be16 (ad_NACKPort a))
                (put_at 8 (id16_bytes (ad_NACKAddr a))
                (put_at 7 [ad_Scope a]
                (put_at 6 [MsgTypeADVERT]
                (put_at 4 (be16 advertProtoVer)
                (put_at 0 (be32 advertMagic) buf))))))))))))))"

definition DecodeADVERT :: "byte list \<Rightarrow> advert_error + ADVERT" where
  "DecodeADVERT buf =
     (if length buf < ADVERTSize then Inl ErrBadADVERT
      else if word_of_bytes (sub_bytes 0 4 buf) \<noteq> advertMagic then Inl ErrBadADVERT
      else if buf ! 6 \<noteq> MsgTypeADVERT then Inl ErrBadADVERT
      else let nackAddr = sub_bytes 8 24 buf in
        if list_all (\<lambda>b. b = 0) nackAddr then Inl ErrBadADVERT_zero_addr
        else Inr \<lparr>ad_Scope = buf ! 7,
                  ad_NACKAddr = word_of_bytes nackAddr,
                  ad_NACKPort = word_of_bytes (sub_bytes 24 26 buf),
                  ad_Tier = buf ! 26,
                  ad_Preference = buf ! 27,
                  ad_BeaconInterval = word_of_bytes (sub_bytes 28 30 buf),
                  ad_Flags = word_of_bytes (sub_bytes 30 32 buf),
                  ad_InstanceID = word_of_bytes (sub_bytes 32 36 buf)\<rparr>)"

lemma be_val_zero_iff: "be_val bs = 0 \<longleftrightarrow> list_all (\<lambda>b. b = 0) bs"
  by (induction bs) (auto simp: be_val_Cons unat_eq_zero)

lemma id16_bytes_zero_iff: "list_all (\<lambda>b. b = 0) (id16_bytes a) \<longleftrightarrow> a = 0"
proof -
  have "be_val (id16_bytes a) = unat a"
    using unat_lt2p [of a] by (simp add: id16_bytes_def be_val_be_bytes)
  then show ?thesis by (metis be_val_zero_iff unat_eq_zero)
qed

lemma EncodeADVERT_form:
  "56 \<le> length buf \<Longrightarrow> EncodeADVERT a buf = Some (be32 advertMagic @ be16 advertProtoVer @
     MsgTypeADVERT # ad_Scope a # id16_bytes (ad_NACKAddr a) @ be16 (ad_NACKPort a) @ ad_Tier a #
     ad_Preference a # be16 (ad_BeaconInterval a) @ be16 (ad_Flags a) @ be32 (ad_InstanceID a) @
     be32 0 @ replicate 16 0 @ drop 56 buf)"
  by (simp add: EncodeADVERT_def ADVERTSize_def wire_simps)

text \<open>
  An ADVERT encoded into a buffer of at least 56 bytes decodes to the same ADVERT unless its
  NACK address is the unspecified address, which the decoder rejects; no byte of the buffer's
  previous contents can leak into the decoded record.
\<close>

theorem advert_roundtrip:
  "if length buf < 56 then EncodeADVERT a buf = None
   else \<exists>out. EncodeADVERT a buf = Some out \<and> length out = length buf \<and>
        DecodeADVERT out = (if ad_NACKAddr a = 0 then Inl ErrBadADVERT_zero_addr else Inr a)"
proof (cases "length buf < 56")
  case True
  then show ?thesis by (simp add: EncodeADVERT_def ADVERTSize_def)
next
  case False
  then show ?thesis
    by (simp add: EncodeADVERT_form DecodeADVERT_def ADVERTSize_def wire_simps id16_bytes_zero_iff Let_def, arith)
qed

end
