(* ===== verification/Endpoints.thy ===== *)
theory Endpoints
  imports Advert "HOL-Library.Multiset"
begin

text \<open>
  The retry-endpoint registry of \<^verbatim>\<open>discovery/registry.go\<close>: beacon entries keyed by instance id,
  the static seed list, and the cached sorted snapshot. \<^verbatim>\<open>sort.Slice\<close> is not stable and Go map
  iteration has no order, so \<open>Snapshot\<close> takes a list of draws that selects, through \<open>shuffle\<close>,
  any order of equal elements; \<open>sort_slice_complete\<close> shows that no outcome is left out.
\<close>

section \<open>Text forms of addresses\<close>

function digits :: "int \<Rightarrow> int \<Rightarrow> string" where
  "digits b n =
     (if b < 2 \<or> n < b then [''0123456789abcdef'' ! nat n]
      else digits b (n div b) @ [''0123456789abcdef'' ! nat (n mod b)])"
  by pat_completeness auto

termination digits
  by (relation "measure (nat \<circ> snd)") (auto simp: int_div_less_self)

declare digits.simps [simp del]

definition decimal :: "int \<Rightarrow> string" where
  "decimal n = digits 10 n"

definition ip_hextet :: "ip \<Rightarrow> nat \<Rightarrow> int" where
  "ip_hextet a i = uint a div 2 ^ (16 * (7 - i)) mod 2 ^ 16"

definition ip_octet :: "ip \<Rightarrow> nat \<Rightarrow> int" where
  "ip_octet a i = uint a div 2 ^ (8 * (15 - i)) mod 2 ^ 8"

text \<open>Length of the run of zero groups starting at group \<open>i\<close>.\<close>

fun zero_run :: "int list \<Rightarrow> nat" where
  "zero_run (h # hs) = (if h = 0 then Suc (zero_run hs) else 0)"
| "zero_run [] = 0"

text \<open>The first longest run of at least two zero groups, as \<open>(start, end)\<close>; \<open>(255, 255)\<close> if none.\<close>

definition zero_span :: "int list \<Rightarrow> nat \<times> nat" where
  "zero_span hs = foldl (\<lambda>(s, e) i. let l = zero_run (drop i hs) in
       if l \<ge> 2 \<and> l > e - s then (i, i + l) else (s, e)) (255, 255) [0..<length hs]"

primrec hextets_text :: "int list \<Rightarrow> nat \<times> nat \<Rightarrow> nat \<Rightarrow> string" where
  "hextets_text [] z i = []"
| "hextets_text (h # hs) z i =
     (if i = fst z then ''::'' @ hextets_text hs z (Suc i)
      else if fst z < i \<and> i < snd z then hextets_text hs z (Suc i)
      else (if 0 < i \<and> i \<noteq> snd z then '':'' else []) @ digits 16 h @ hextets_text hs z (Suc i))"

text \<open>\<^verbatim>\<open>net.IP.String\<close>: dotted decimal for an IPv4-mapped address, RFC 5952 text otherwise.\<close>

definition ip_string :: "ip \<Rightarrow> string" where
  "ip_string a =
     (if uint a div 2 ^ 32 = 0xFFFF
      then decimal (ip_octet a 12) @ ''.'' @ decimal (ip_octet a 13) @ ''.'' @
           decimal (ip_octet a 14) @ ''.'' @ decimal (ip_octet a 15)
      else let hs = map (ip_hextet a) [0..<8] in hextets_text hs (zero_span hs) 0)"

section \<open>Sorting with unspecified ties\<close>

fun shuffle :: "nat list \<Rightarrow> 'a list \<Rightarrow> 'a list" where
  "shuffle (d # ds) (x # xs) =
     (let ys = x # xs; i = d mod length ys in
      ys ! i # shuffle ds (take i ys @ drop (Suc i) ys))"
| "shuffle ds xs = xs"

definition sort_slice :: "nat list \<Rightarrow> ('a \<Rightarrow> nat) \<Rightarrow> 'a list \<Rightarrow> 'a list" where
  "sort_slice ds key xs = sort_key key (shuffle ds xs)"

section \<open>The registry\<close>

record EndpointEntry =
  ep_Addr :: string
  ep_Tier :: byte
  ep_Preference :: byte
  ep_Flags :: u16
  ep_Expires :: gtime
  ep_InstanceID :: u32
  ep_SupportsUnicast :: bool

record Registry =
  rg_entries :: "(u32 \<times> EndpointEntry) list"
  rg_seeds :: "EndpointEntry list"
  rg_snapshot :: "EndpointEntry list option"
  rg_dirty :: bool

definition NewRegistry :: Registry where
  "NewRegistry = \<lparr>rg_entries = [], rg_seeds = [], rg_snapshot = None, rg_dirty = False\<rparr>"

definition Upsert :: "gtime \<Rightarrow> ADVERT \<Rightarrow> Registry \<Rightarrow> Registry" where
  "Upsert now a r =
     (let addr = ''['' @ ip_string (ad_NACKAddr a) @ '']:'' @ decimal (uint (ad_NACKPort a));
          ttl = wrap64 (wrap64 (uint (ad_BeaconInterval a) * 3) * second);
          uni = (ad_Flags a AND FlagUnicastRetransmit \<noteq> 0);
          e = (case map_of (rg_entries r) (ad_InstanceID a) of
                 Some entry \<Rightarrow> entry\<lparr>ep_Addr := addr, ep_Tier := ad_Tier a,
                   ep_Preference := ad_Preference a, ep_Flags := ad_Flags a,
                   ep_Expires := now + ttl, ep_SupportsUnicast := uni\<rparr>
               | None \<Rightarrow> \<lparr>ep_Addr = addr, ep_Tier = ad_Tier a, ep_Preference = ad_Preference a,
                   ep_Flags = ad_Flags a, ep_Expires = now + ttl,
                   ep_InstanceID = ad_InstanceID a, ep_SupportsUnicast = uni\<rparr>)
      in r\<lparr>rg_entries := map_put (ad_InstanceID a) e (rg_entries r), rg_dirty := True\<rparr>)"

definition Evict :: "gtime \<Rightarrow> Registry \<Rightarrow> Registry" where
  "Evict now r =
     (let expired = (\<lambda>p. now > ep_Expires (snd p)) in
      r\<lparr>rg_entries := filter (\<lambda>p. \<not> expired p) (rg_entries r),
        rg_dirty := rg_dirty r \<or> list_ex expired (rg_entries r)\<rparr>)"

text \<open>\<^verbatim>\<open>time.Date(9999, 1, 1, \<dots>)\<close>: 3651694 days after Go's zero time.\<close>

definition never :: gtime where
  "never = 3651694 * 86400 * second"

definition seed_entry :: "nat \<Rightarrow> string \<Rightarrow> EndpointEntry" where
  "seed_entry i addr =
     \<lparr>ep_Addr = addr, ep_Tier = 0xFF, ep_Preference = of_nat (255 - i), ep_Flags = 0,
      ep_Expires = never, ep_InstanceID = of_nat (0xFFFFF000 + i), ep_SupportsUnicast = False\<rparr>"

definition Seed :: "string list \<Rightarrow> Registry \<Rightarrow> Registry" where
  "Seed addrs r =
     r\<lparr>rg_seeds := map (\<lambda>(i, addr). seed_entry i addr) (List.enumerate 0 addrs), rg_dirty := True\<rparr>"

definition ep_less :: "EndpointEntry \<Rightarrow> EndpointEntry \<Rightarrow> bool" where
  "ep_less a b =
     (if ep_Tier a \<noteq> ep_Tier b then ep_Tier a < ep_Tier b else ep_Preference a > ep_Preference b)"

definition ep_key :: "EndpointEntry \<Rightarrow> nat" where
  "ep_key e = unat (ep_Tier e) * 256 + (255 - unat (ep_Preference e))"

definition merged :: "Registry \<Rightarrow> EndpointEntry list" where
  "merged r =
     (let beacons = map snd (rg_entries r); seen = map ep_Addr beacons in
      beacons @ filter (\<lambda>s. ep_Addr s \<notin> set seen) (rg_seeds r))"

definition Snapshot :: "nat list \<Rightarrow> Registry \<Rightarrow> Registry \<times> EndpointEntry list" where
  "Snapshot ds r =
     (let r' = (if rg_dirty r \<or> rg_snapshot r = None
                then r\<lparr>rg_snapshot := Some (sort_slice ds ep_key (merged r)), rg_dirty := False\<rparr>
                else r)
      in (r', case rg_snapshot r' of None \<Rightarrow> [] | Some s \<Rightarrow> s))"

definition Len :: "Registry \<Rightarrow> nat" where
  "Len r = length (rg_entries r) + length (rg_seeds r)"

inductive registry_step :: "Registry \<Rightarrow> Registry \<Rightarrow> bool" where
  step_upsert: "registry_step r (Upsert now a r)"
| step_evict: "registry_step r (Evict now r)"
| step_seed: "registry_step r (Seed addrs r)"
| step_snapshot: "registry_step r (fst (Snapshot ds r))"

section \<open>Sorting lemmas\<close>

lemma mset_shuffle [simp]: "mset (shuffle ds xs) = mset xs"
proof (induction ds xs rule: shuffle.induct)
  case (1 d ds x xs)
  define ys where "ys = x # xs"
  define i where "i = d mod length ys"
  have i: "i < length ys" by (simp add: i_def ys_def)
  have "mset ys = mset (take i ys @ ys ! i # drop (Suc i) ys)"
    using id_take_nth_drop [OF i] by simp
  moreover have "shuffle (d # ds) (x # xs) = ys ! i # shuffle ds (take i ys @ drop (Suc i) ys)"
    by (simp add: ys_def i_def Let_def)
  ultimately show ?case
    using "1.IH" [OF ys_def i_def] by (simp flip: ys_def)
qed simp_all

lemma shuffle_complete: "mset ys = mset xs \<Longrightarrow> \<exists>ds. shuffle ds xs = ys"
proof (induction ys arbitrary: xs)
  case Nil
  then show ?case by (metis mset.simps(1) mset_zero_iff shuffle.simps(2) shuffle.simps(3))
next
  case (Cons y ys)
  then have "y \<in> set xs" by (metis list.set_intros(1) mset_eq_setD)
  then obtain i where i: "i < length xs" "xs ! i = y" by (auto simp: in_set_conv_nth)
  have "mset xs = mset (take i xs @ xs ! i # drop (Suc i) xs)"
    using id_take_nth_drop [OF i(1)] by simp
  then have "mset ys = mset (take i xs @ drop (Suc i) xs)" using Cons.prems i(2) by simp
  then obtain ds where "shuffle ds (take i xs @ drop (Suc i) xs) = ys" using Cons.IH by blast
  then have "shuffle (i # ds) xs = y # ys" using i by (cases xs) (auto simp: Let_def)
  then show ?case by blast
qed

lemma mset_sort_slice [simp]: "mset (sort_slice ds key xs) = mset xs"
  by (simp add: sort_slice_def)

lemma sorted_sort_slice [simp]: "sorted (map key (sort_slice ds key xs))"
  by (simp add: sort_slice_def)

lemma sort_slice_complete:
  assumes "mset ys = mset xs" and "sorted (map key ys)"
  shows "\<exists>ds. sort_slice ds key xs = ys"
  using shuffle_complete [OF assms(1)] sort_key_id_if_sorted [OF assms(2)]
  by (metis sort_slice_def)

lemma ep_less_key: "ep_less a b \<longleftrightarrow> ep_key a < ep_key b"
proof -
  have "unat (ep_Preference a) < 256" "unat (ep_Preference b) < 256"
    using unat_lt2p [of "ep_Preference a"] unat_lt2p [of "ep_Preference b"] by simp_all
  then show ?thesis
    by (cases "unat (ep_Tier a)" "unat (ep_Tier b)" rule: linorder_cases)
       (auto simp: ep_less_def ep_key_def word_less_nat_alt word_unat_eq_iff)
qed

lemma sorted_ep_less: "sorted (map ep_key xs) \<longleftrightarrow> sorted_wrt (\<lambda>a b. \<not> ep_less b a) xs"
  by (simp add: sorted_map ep_less_key not_less)

section \<open>Cache coherence\<close>

definition fresh_snapshot :: "Registry \<Rightarrow> EndpointEntry list \<Rightarrow> bool" where
  "fresh_snapshot r s \<longleftrightarrow> mset s = mset (merged r) \<and> sorted (map ep_key s)"

definition registry_ok :: "Registry \<Rightarrow> bool" where
  "registry_ok r \<longleftrightarrow> wf_map (rg_entries r) \<and>
     list_all (\<lambda>(id, e). ep_InstanceID e = id) (rg_entries r) \<and>
     (\<not> rg_dirty r \<longrightarrow> (case rg_snapshot r of None \<Rightarrow> True | Some s \<Rightarrow> fresh_snapshot r s))"

lemma registry_ok_Upsert [wf_intros]: "registry_ok r \<Longrightarrow> registry_ok (Upsert now a r)"
proof -
  assume ok: "registry_ok r"
  have "ep_InstanceID e = id" if "(id, e) \<in> set (rg_entries (Upsert now a r))" for id e
  proof -
    let ?m = "rg_entries r"
    have old: "\<And>id e. (id, e) \<in> set ?m \<Longrightarrow> ep_InstanceID e = id"
      using ok by (auto simp: registry_ok_def list_all_iff)
    show ?thesis
      using that old subsetD [OF set_put_subset that [unfolded Upsert_def Let_def, simplified]]
      by (auto split: option.splits dest: map_of_SomeD)
  qed
  then show ?thesis
    using ok by (auto simp: registry_ok_def list_all_iff Upsert_def Let_def)
qed

lemma Evict_sel:
  "rg_entries (Evict now r) = filter (\<lambda>p. \<not> now > ep_Expires (snd p)) (rg_entries r)"
  "rg_snapshot (Evict now r) = rg_snapshot r"
  "rg_dirty (Evict now r) \<longleftrightarrow> rg_dirty r \<or> list_ex (\<lambda>p. now > ep_Expires (snd p)) (rg_entries r)"
  by (simp_all add: Evict_def Let_def)

lemma registry_ok_Evict [wf_intros]: "registry_ok r \<Longrightarrow> registry_ok (Evict now r)"
proof -
  assume ok: "registry_ok r"
  have same: "merged (Evict now r) = merged r" if "\<not> list_ex (\<lambda>p. now > ep_Expires (snd p)) (rg_entries r)"
  proof -
    have "filter (\<lambda>p. \<not> now > ep_Expires (snd p)) (rg_entries r) = rg_entries r"
      using that by (auto simp: list_ex_iff intro: filter_True)
    then show ?thesis by (simp add: merged_def Evict_def Let_def)
  qed
  have "wf_map (rg_entries (Evict now r))"
    using ok by (simp add: Evict_def registry_ok_def distinct_map_filter)
  then show ?thesis
    using ok same unfolding registry_ok_def fresh_snapshot_def
    by (auto simp: list_all_iff Evict_sel split: option.splits)
qed

lemma registry_ok_Seed [wf_intros]: "registry_ok r \<Longrightarrow> registry_ok (Seed addrs r)"
  by (simp add: registry_ok_def Seed_def)

lemma merged_cong: "rg_entries r = rg_entries r' \<Longrightarrow> rg_seeds r = rg_seeds r' \<Longrightarrow> merged r = merged r'"
  by (simp add: merged_def)

lemma Snapshot_frame:
  "rg_entries (fst (Snapshot ds r)) = rg_entries r" "rg_seeds (fst (Snapshot ds r)) = rg_seeds r"
  by (simp_all add: Snapshot_def Let_def)

lemma Snapshot_fresh:
  assumes "registry_ok r"
  shows "fresh_snapshot r (snd (Snapshot ds r))"
    and "rg_snapshot (fst (Snapshot ds r)) = Some (snd (Snapshot ds r))"
    and "\<not> rg_dirty (fst (Snapshot ds r))"
  using assms by (auto simp: Snapshot_def registry_ok_def fresh_snapshot_def)

lemma registry_ok_Snapshot [wf_intros]: "registry_ok r \<Longrightarrow> registry_ok (fst (Snapshot ds r))"
  using Snapshot_fresh [of r ds] merged_cong [OF Snapshot_frame, of ds r]
  by (simp add: registry_ok_def [of "fst (Snapshot ds r)"] Snapshot_frame fresh_snapshot_def)
     (simp add: registry_ok_def)

lemma registry_ok_NewRegistry: "registry_ok NewRegistry"
  by (simp add: registry_ok_def NewRegistry_def)

abbreviation registry_reachable :: "Registry \<Rightarrow> bool" where
  "registry_reachable \<equiv> reach (\<lambda>r. r = NewRegistry) registry_step"

interpretation registry_inv: step_invariant "\<lambda>r. r = NewRegistry" registry_step registry_ok
  by unfold_locales
     (auto simp: registry_ok_NewRegistry elim!: registry_step.cases intro: wf_intros)

text \<open>
  C37. In every registry reachable by beacons, evictions, re-seeding and earlier snapshots,
  \<^verbatim>\<open>Snapshot\<close> returns every beacon entry, and exactly those seeds whose address no beacon entry
  carries, with multiplicity; no element is out of order for the comparator of the source
  (tier ascending, preference descending); the call changes neither entries nor seeds, and a
  later call with no mutation in between returns the same slice whatever order the sort is free
  to choose.
\<close>

theorem endpoint_snapshot_correct:
  assumes "registry_reachable r" and "Snapshot ds r = (r', s)"
  shows "mset s = mset (map snd (rg_entries r)) +
           filter_mset (\<lambda>x. ep_Addr x \<notin> ep_Addr ` snd ` set (rg_entries r)) (mset (rg_seeds r)) \<and>
         sorted_wrt (\<lambda>a b. \<not> ep_less b a) s \<and>
         rg_entries r' = rg_entries r \<and> rg_seeds r' = rg_seeds r \<and> Snapshot ds' r' = (r', s)"
proof -
  have ok: "registry_ok r" by (rule registry_inv.reach_inv [OF assms(1)])
  have f: "fresh_snapshot r s" "rg_snapshot r' = Some s" "\<not> rg_dirty r'"
    using Snapshot_fresh [OF ok, of ds] assms(2) by simp_all
  have m: "mset s = mset (map snd (rg_entries r)) +
           filter_mset (\<lambda>x. ep_Addr x \<notin> ep_Addr ` snd ` set (rg_entries r)) (mset (rg_seeds r))"
    using f(1) by (simp add: fresh_snapshot_def merged_def mset_filter image_comp)
  have "sorted_wrt (\<lambda>a b. \<not> ep_less b a) s"
    using f(1) by (simp add: fresh_snapshot_def sorted_ep_less)
  then show ?thesis
    using f m Snapshot_frame [of ds r] assms(2) by (auto simp: Snapshot_def)
qed

definition demo_advert :: ADVERT where
  "demo_advert = \<lparr>ad_Scope = 5, ad_NACKAddr = 0xfd000000000000000000000000000001, ad_NACKPort = 9300,
     ad_Tier = 1, ad_Preference = 10, ad_BeaconInterval = 60, ad_Flags = 0x18, ad_InstanceID = 7\<rparr>"

definition demo_registry :: Registry where
  "demo_registry = Upsert 0 demo_advert (Seed [''[fd00::2]:9300'', ''[fd00::1]:9300''] NewRegistry)"

lemma demo_registry_reachable: "registry_reachable demo_registry"
  unfolding demo_registry_def
  by (rule reach_step [rotated], rule step_upsert, rule reach_step [rotated], rule step_seed,
      rule reach_init, rule refl)

theorem endpoint_snapshot_correct_witness:
  "registry_reachable demo_registry \<and>
   map ep_Addr (snd (Snapshot [1] demo_registry)) = [''[fd00::1]:9300'', ''[fd00::2]:9300''] \<and>
   sorted_wrt (\<lambda>a b. \<not> ep_less b a) (snd (Snapshot [1] demo_registry))"
proof (intro conjI)
  show "registry_reachable demo_registry" by (rule demo_registry_reachable)
  show "map ep_Addr (snd (Snapshot [1] demo_registry)) = [''[fd00::1]:9300'', ''[fd00::2]:9300'']"
    by (simp add: demo_registry_def demo_advert_def Snapshot_def Upsert_def Seed_def NewRegistry_def
        merged_def sort_slice_def Let_def ip_string_def ip_hextet_def decimal_def digits.simps
        zero_span_def upt_rec seed_entry_def ep_key_def second_def FlagUnicastRetransmit_def)
  show "sorted_wrt (\<lambda>a b. \<not> ep_less b a) (snd (Snapshot [1] demo_registry))"
    using endpoint_snapshot_correct [OF demo_registry_reachable, of "[1]" "fst (Snapshot [1] demo_registry)"
        "snd (Snapshot [1] demo_registry)"] by simp
qed

section \<open>Seed order\<close>

lemma seed_entry_key: "i \<le> 255 \<Longrightarrow> ep_key (seed_entry i addr) = 255 * 256 + i"
proof -
  assume "i \<le> 255"
  then have "unat (of_nat (255 - i) :: byte) = 255 - i" by (simp only: unat_of_nat) simp
  then show ?thesis using \<open>i \<le> 255\<close> by (simp add: ep_key_def seed_entry_def del: of_nat_diff)
qed

lemma sort_key_perm_distinct:
  assumes "sorted (map key ys)" and "distinct (map key ys)" and "mset zs = mset ys"
  shows "sort_key key zs = ys"
proof (rule sort_key_inj_key_eq)
  show "inj_on key (set zs)" using assms(2) mset_eq_setD [OF assms(3)] by (simp add: distinct_map)
qed (use assms in simp_all)

lemma Seed_Snapshot_order:
  assumes "rg_entries r = []" and "length addrs \<le> 256"
  shows "map ep_Addr (snd (Snapshot ds (Seed addrs r))) = addrs"
proof -
  let ?seeds = "map (\<lambda>(i, addr). seed_entry i addr) (List.enumerate 0 addrs)"
  have keys: "map ep_key ?seeds = map (\<lambda>i. 255 * 256 + i) [0..<length addrs]"
    using assms(2) by (auto intro!: nth_equalityI simp: nth_enumerate_eq seed_entry_key)
  have "sort_slice ds ep_key ?seeds = ?seeds"
    unfolding sort_slice_def
  proof (rule sort_key_perm_distinct)
    show "sorted (map ep_key ?seeds)" unfolding keys by (simp add: sorted_iff_nth_mono)
    show "distinct (map ep_key ?seeds)" unfolding keys by (simp add: distinct_map)
  qed simp
  moreover have "map ep_Addr ?seeds = addrs"
    by (auto intro!: nth_equalityI simp: nth_enumerate_eq seed_entry_def)
  ultimately show ?thesis
    using assms(1) by (simp add: Snapshot_def Seed_def merged_def Let_def)
qed

end
