(* ===== verification/Dedup.thy ===== *)
theory Dedup
  imports Prelude
begin

text \<open>
  The egress duplicate suppressor of \<^verbatim>\<open>dedup/dedup.go\<close>: a map of expiries plus a ring of inserted
  keys. The ring is shown to be a bounded queue; with expiry disabled the set refines a FIFO of
  the last \<open>capacity\<close> distinct keys, and with expiry enabled every duplicate of a key that was
  absent when inserted is caught for the whole TTL until \<open>capacity\<close> further insertions.
\<close>

record Key =
  dk_GroupIdx :: u32
  dk_SubtreeID :: id32
  dk_SeqNum :: u64

definition zero_key :: Key where
  "zero_key = \<lparr>dk_GroupIdx = 0, dk_SubtreeID = 0, dk_SeqNum = 0\<rparr>"

record Set =
  ds_capacity :: nat
  ds_ttl :: dur
  ds_entries :: "(Key \<times> int) list"
  ds_ring :: "Key list"
  ds_head :: nat
  ds_count :: nat

definition New_Set :: "int \<Rightarrow> dur \<Rightarrow> Set" where
  "New_Set capacity ttl =
     (if capacity \<le> 0
      then \<lparr>ds_capacity = 0, ds_ttl = 0, ds_entries = [], ds_ring = [], ds_head = 0, ds_count = 0\<rparr>
      else \<lparr>ds_capacity = nat capacity, ds_ttl = ttl, ds_entries = [],
            ds_ring = replicate (nat capacity) zero_key, ds_head = 0, ds_count = 0\<rparr>)"

definition SeenAndAdd :: "int \<Rightarrow> Key \<Rightarrow> Set \<Rightarrow> bool \<times> Set" where
  "SeenAndAdd now key s =
     (if ds_capacity s = 0 then (False, s)
      else let expiry = (if ds_ttl s > 0 then wrap64 (now + ds_ttl s) else now);
               hit = (case map_of (ds_entries s) key of
                        None \<Rightarrow> False
                      | Some ex \<Rightarrow> ds_ttl s \<le> 0 \<or> ex \<ge> now)
        in if hit then (True, s\<lparr>ds_entries := map_put key expiry (ds_entries s)\<rparr>)
           else let s1 = (if ds_count s = ds_capacity s
                          then s\<lparr>ds_entries := map_del (ds_ring s ! ds_head s) (ds_entries s)\<rparr>
                          else s\<lparr>ds_count := ds_count s + 1\<rparr>)
                in (False, s1\<lparr>ds_ring := (ds_ring s1)[ds_head s1 := key],
                              ds_head := (ds_head s1 + 1) mod ds_capacity s1,
                              ds_entries := map_put key expiry (ds_entries s1)\<rparr>))"

definition Len_Set :: "Set \<Rightarrow> nat" where
  "Len_Set s = ds_count s"

abbreviation seen_call :: "int \<times> Key \<Rightarrow> Set \<Rightarrow> bool \<times> Set" where
  "seen_call c \<equiv> SeenAndAdd (fst c) (snd c)"

section \<open>The ring is a bounded queue\<close>

text \<open>The populated slots, oldest insertion first.\<close>

definition ring_order :: "Set \<Rightarrow> Key list" where
  "ring_order s =
     (if ds_count s < ds_capacity s then take (ds_count s) (ds_ring s)
      else drop (ds_head s) (ds_ring s) @ take (ds_head s) (ds_ring s))"

definition dset_ok :: "Set \<Rightarrow> bool" where
  "dset_ok s \<longleftrightarrow> length (ds_ring s) = ds_capacity s \<and> ds_count s \<le> ds_capacity s \<and>
     (0 < ds_capacity s \<longrightarrow> ds_head s < ds_capacity s) \<and>
     (ds_count s < ds_capacity s \<longrightarrow> ds_head s = ds_count s) \<and>
     wf_map (ds_entries s) \<and> fst ` set (ds_entries s) \<subseteq> set (ring_order s)"

definition hit :: "int \<Rightarrow> Key \<Rightarrow> Set \<Rightarrow> bool" where
  "hit now key s \<longleftrightarrow> 0 < ds_capacity s \<and>
     (\<exists>ex. map_of (ds_entries s) key = Some ex \<and> (ds_ttl s \<le> 0 \<or> now \<le> ex))"

definition expiry_at :: "int \<Rightarrow> Set \<Rightarrow> int" where
  "expiry_at now s = (if ds_ttl s > 0 then wrap64 (now + ds_ttl s) else now)"

definition push :: "nat \<Rightarrow> 'a \<Rightarrow> 'a list \<Rightarrow> 'a list" where
  "push cap k q = (if length q = cap then tl q else q) @ [k]"

lemma length_ring_order [simp]: "dset_ok s \<Longrightarrow> length (ring_order s) = ds_count s"
  by (auto simp: dset_ok_def ring_order_def)

lemma SeenAndAdd_hit:
  "hit now key s \<Longrightarrow>
   SeenAndAdd now key s = (True, s\<lparr>ds_entries := map_put key (expiry_at now s) (ds_entries s)\<rparr>)"
  by (auto simp: hit_def SeenAndAdd_def expiry_at_def Let_def)

lemma SeenAndAdd_fst [simp]: "fst (SeenAndAdd now key s) = hit now key s"
  by (auto simp: hit_def SeenAndAdd_def Let_def split: option.splits)

lemma SeenAndAdd_disabled: "ds_capacity s = 0 \<Longrightarrow> SeenAndAdd now key s = (False, s)"
  by (simp add: SeenAndAdd_def)

lemma SeenAndAdd_miss:
  assumes "\<not> hit now key s" and "0 < ds_capacity s"
  shows "SeenAndAdd now key s = (False,
     s\<lparr>ds_count := (if ds_count s = ds_capacity s then ds_count s else ds_count s + 1),
       ds_ring := (ds_ring s)[ds_head s := key],
       ds_head := (ds_head s + 1) mod ds_capacity s,
       ds_entries := map_put key (expiry_at now s)
         (if ds_count s = ds_capacity s then map_del (ds_ring s ! ds_head s) (ds_entries s)
          else ds_entries s)\<rparr>)"
  using assms by (auto simp: hit_def SeenAndAdd_def expiry_at_def Let_def split: option.splits)

lemma SeenAndAdd_params [simp]:
  "ds_capacity (snd (SeenAndAdd now key s)) = ds_capacity s"
  "ds_ttl (snd (SeenAndAdd now key s)) = ds_ttl s"
  by (simp_all add: SeenAndAdd_def Let_def)

lemma ring_order_hit: "hit now key s \<Longrightarrow> ring_order (snd (SeenAndAdd now key s)) = ring_order s"
  by (simp add: SeenAndAdd_hit ring_order_def)

lemma update_last: "length xs = Suc n \<Longrightarrow> xs[n := k] = take n xs @ [k]"
  by (simp add: upd_conv_take_nth_drop)

lemma ring_order_miss:
  assumes ok: "dset_ok s" and miss: "\<not> hit now key s" and cap: "0 < ds_capacity s"
  shows "ring_order (snd (SeenAndAdd now key s)) = push (ds_capacity s) key (ring_order s)"
proof (cases "ds_count s = ds_capacity s")
  case True
  have h: "ds_head s < length (ds_ring s)" and len: "length (ds_ring s) = ds_capacity s"
    using ok cap by (auto simp: dset_ok_def)
  have q: "ring_order s = ds_ring s ! ds_head s # drop (Suc (ds_head s)) (ds_ring s) @ take (ds_head s) (ds_ring s)"
    using True h by (simp add: ring_order_def Cons_nth_drop_Suc)
  show ?thesis
  proof (cases "Suc (ds_head s) < ds_capacity s")
    case True2: True
    then show ?thesis using True h len q miss cap
      by (simp add: SeenAndAdd_miss ring_order_def push_def take_Suc_conv_app_nth)
  next
    case False
    then have "Suc (ds_head s) = ds_capacity s" using h len by simp
    then show ?thesis using True h len q miss cap
      by (simp add: SeenAndAdd_miss ring_order_def push_def update_last)
  qed
next
  case False
  then have "ds_head s = ds_count s" "ds_count s < length (ds_ring s)" "length (ds_ring s) = ds_capacity s"
    "length (ring_order s) = ds_count s"
    using ok by (auto simp: dset_ok_def ring_order_def)
  then show ?thesis using False miss cap
    by (auto simp: SeenAndAdd_miss ring_order_def push_def take_Suc_conv_app_nth less_Suc_eq_le
        not_less le_Suc_eq Suc_le_eq mod_less update_last)
qed

section \<open>Invariant\<close>

lemma set_push: "set (push cap k q) \<subseteq> insert k (set q)"
  by (cases q) (auto simp: push_def)

lemma dset_ok_New [wf_intros]: "dset_ok (New_Set capacity ttl)"
  by (simp add: dset_ok_def New_Set_def)

lemma miss_entries_subset:
  assumes ok: "dset_ok s" and miss: "\<not> hit now key s" and cap: "0 < ds_capacity s"
  shows "fst ` set (ds_entries (snd (SeenAndAdd now key s))) \<subseteq> set (push (ds_capacity s) key (ring_order s))"
proof (cases "ds_count s = ds_capacity s")
  case True
  then have "ring_order s = ds_ring s ! ds_head s # tl (ring_order s)"
    using ok cap by (simp add: ring_order_def dset_ok_def flip: Cons_nth_drop_Suc)
  then have "fst ` set (ds_entries s) \<subseteq> insert (ds_ring s ! ds_head s) (set (tl (ring_order s)))"
    using ok unfolding dset_ok_def by (metis list.simps(15))
  then show ?thesis using True ok miss cap by (auto simp: SeenAndAdd_miss push_def)
next
  case False
  then show ?thesis using ok miss cap by (auto simp: SeenAndAdd_miss push_def dset_ok_def)
qed

lemma dset_ok_SeenAndAdd [wf_intros]:
  assumes "dset_ok s"
  shows "dset_ok (snd (SeenAndAdd now key s))"
proof -
  consider "ds_capacity s = 0" | "hit now key s" | "\<not> hit now key s" "0 < ds_capacity s" by auto
  then show ?thesis
  proof cases
    case 1
    then show ?thesis using assms by (simp add: SeenAndAdd_disabled)
  next
    case 2
    then have "key \<in> fst ` set (ds_entries s)" by (auto simp: hit_def intro: map_of_in_keys)
    then show ?thesis
      using assms 2 ring_order_hit [OF 2] by (auto simp: dset_ok_def SeenAndAdd_hit)
  next
    case 3
    have "wf_map (ds_entries (snd (SeenAndAdd now key s)))"
      using 3 assms by (simp add: SeenAndAdd_miss dset_ok_def)
    moreover have "ds_count s < ds_capacity s \<Longrightarrow> Suc (ds_count s) < ds_capacity s \<or> Suc (ds_count s) = ds_capacity s"
      by auto
    ultimately show ?thesis
      using assms 3 miss_entries_subset [OF assms 3] ring_order_miss [OF assms 3]
      by (auto simp: dset_ok_def SeenAndAdd_miss)
  qed
qed

lemma dset_ok_entries_bound:
  assumes "dset_ok s"
  shows "length (ds_entries s) \<le> ds_count s" and "ds_count s \<le> ds_capacity s"
proof -
  have "length (ds_entries s) = card (fst ` set (ds_entries s))"
    using assms unfolding dset_ok_def by (metis distinct_card length_map list.set_map)
  also have "\<dots> \<le> card (set (ring_order s))"
    using assms by (auto simp: dset_ok_def intro: card_mono)
  finally show "length (ds_entries s) \<le> ds_count s"
    using card_length [of "ring_order s"] assms by simp
qed (use assms in \<open>simp add: dset_ok_def\<close>)

lemma seen_run_ok: "dset_ok s \<Longrightarrow> dset_ok (snd (run seen_call cs s))"
  by (rule run_snd_inv [where P = dset_ok]) (rule dset_ok_SeenAndAdd)

lemma seen_run_params:
  "ds_capacity (snd (run seen_call cs s)) = ds_capacity s \<and> ds_ttl (snd (run seen_call cs s)) = ds_ttl s"
  by (rule run_snd_inv [where P = "\<lambda>t. ds_capacity t = ds_capacity s \<and> ds_ttl t = ds_ttl s"]) simp_all

section \<open>Without expiry: a FIFO of distinct keys\<close>

definition fifo_step :: "nat \<Rightarrow> 'k \<Rightarrow> 'k list \<Rightarrow> bool \<times> 'k list" where
  "fifo_step cap k q = (if k \<in> set q then (True, q) else (False, push cap k q))"

definition fifo_inv :: "nat \<Rightarrow> Set \<Rightarrow> bool" where
  "fifo_inv cap s \<longleftrightarrow> dset_ok s \<and> ds_capacity s = cap \<and> 0 < cap \<and> ds_ttl s \<le> 0 \<and>
     distinct (ring_order s) \<and> set (ring_order s) \<subseteq> fst ` set (ds_entries s)"

lemma fifo_inv_hit: "fifo_inv cap s \<Longrightarrow> hit now k s \<longleftrightarrow> k \<in> set (ring_order s)"
  unfolding fifo_inv_def dset_ok_def hit_def
  by (metis map_of_None_iff map_of_in_keys not_None_eq subset_eq)

lemma fifo_inv_SeenAndAdd: "fifo_inv cap s \<Longrightarrow> fifo_inv cap (snd (SeenAndAdd now k s))"
proof -
  assume inv: "fifo_inv cap s"
  then have ok: "dset_ok s" and cap: "0 < ds_capacity s" by (auto simp: fifo_inv_def)
  show ?thesis
  proof (cases "hit now k s")
    case True
    then show ?thesis using inv dset_ok_SeenAndAdd [OF ok, of now k] ring_order_hit [OF True]
      by (auto simp: fifo_inv_def SeenAndAdd_hit)
  next
    case False
    then have k: "k \<notin> set (ring_order s)" using fifo_inv_hit [OF inv] by blast
    have d: "distinct (push cap k (ring_order s))"
      using k inv by (cases "ring_order s") (auto simp: fifo_inv_def push_def)
    have "set (push cap k (ring_order s)) \<subseteq> fst ` set (ds_entries (snd (SeenAndAdd now k s)))"
    proof (cases "ds_count s = ds_capacity s")
      case True
      then have h: "ring_order s = ds_ring s ! ds_head s # tl (ring_order s)"
        using ok cap by (simp add: ring_order_def dset_ok_def flip: Cons_nth_drop_Suc)
      then have "ds_ring s ! ds_head s \<notin> set (tl (ring_order s))"
        using inv unfolding fifo_inv_def by (metis distinct.simps(2))
      moreover have "set (tl (ring_order s)) \<subseteq> fst ` set (ds_entries s)"
        using inv h unfolding fifo_inv_def by (metis list.set_intros(2) subset_iff)
      ultimately show ?thesis
        using True False inv cap by (auto simp: SeenAndAdd_miss push_def fifo_inv_def)
    next
      case no: False
      then show ?thesis using False inv cap
        by (auto simp: SeenAndAdd_miss push_def fifo_inv_def)
    qed
    then show ?thesis
      using inv d dset_ok_SeenAndAdd [OF ok, of now k] ring_order_miss [OF ok False cap]
      by (auto simp: fifo_inv_def)
  qed
qed

interpretation fifo: functional_refinement
  seen_call "\<lambda>c. fifo_step cap (snd c)" ring_order "fifo_inv cap" for cap
proof
  fix s and c :: "int \<times> Key"
  assume inv: "fifo_inv cap s"
  then have ok: "dset_ok s" and cap: "0 < ds_capacity s" "ds_capacity s = cap" by (auto simp: fifo_inv_def)
  show "fifo_step cap (snd c) (ring_order s) = map_prod id ring_order (seen_call c s)"
    using inv fifo_inv_hit [OF inv, of "fst c" "snd c"] ring_order_hit [of "fst c" "snd c" s]
      ring_order_miss [OF ok _ cap(1), of "fst c" "snd c"] cap
    by (auto simp: fifo_step_def prod_eq_iff)
  show "fifo_inv cap (snd (seen_call c s))" by (rule fifo_inv_SeenAndAdd [OF inv])
qed

lemma fifo_inv_New: "0 < capacity \<Longrightarrow> ttl \<le> 0 \<Longrightarrow> fifo_inv (nat capacity) (New_Set capacity ttl)"
  by (simp add: fifo_inv_def dset_ok_New) (simp add: New_Set_def ring_order_def)

text \<open>
  C38. With expiry disabled, the answers of any sequence of \<^verbatim>\<open>SeenAndAdd\<close> calls on a fresh set of
  capacity \<open>n\<close> are those of a plain FIFO of keys: a call reports a duplicate exactly when its key
  is among the remembered ones, a duplicate does not move its key, and a new key displaces the
  oldest one once \<open>n\<close> are held. The remembered keys at the end are the FIFO's contents.
\<close>

theorem dedup_refines_fifo:
  assumes "0 < capacity" and "ttl \<le> 0"
  shows "map_prod id ring_order (run seen_call cs (New_Set capacity ttl)) =
         run (\<lambda>c. fifo_step (nat capacity) (snd c)) cs []"
proof -
  have "ring_order (New_Set capacity ttl) = []" by (simp add: New_Set_def ring_order_def)
  then show ?thesis using fifo.run_refines [OF fifo_inv_New [OF assms], of cs] by simp
qed

theorem dedup_refines_fifo_witness:
  "fst (run seen_call [(0, zero_key), (5, zero_key\<lparr>dk_SeqNum := 1\<rparr>), (9, zero_key),
        (9, zero_key\<lparr>dk_SeqNum := 2\<rparr>), (10, zero_key)] (New_Set 2 0)) =
     [False, False, True, False, False]"
  using dedup_refines_fifo [of 2 0 "[(0, zero_key), (5, zero_key\<lparr>dk_SeqNum := 1\<rparr>), (9, zero_key),
        (9, zero_key\<lparr>dk_SeqNum := 2\<rparr>), (10, zero_key)]"]
  by (simp add: prod_eq_iff fifo_step_def push_def zero_key_def)

section \<open>With expiry: the duplicate window\<close>

text \<open>
  \<open>holds_key k t j s\<close>: the ring holds \<open>k\<close> once, with at most \<open>j\<close> younger keys, and the map
  remembers it until at least \<open>t\<close>.
\<close>

definition holds_key :: "Key \<Rightarrow> int \<Rightarrow> nat \<Rightarrow> Set \<Rightarrow> bool" where
  "holds_key k t j s \<longleftrightarrow> dset_ok s \<and> 0 < ds_capacity s \<and>
     (\<exists>xs ys. ring_order s = xs @ k # ys \<and> k \<notin> set xs \<union> set ys \<and> length ys \<le> j) \<and>
     (\<exists>ex. map_of (ds_entries s) k = Some ex \<and> t \<le> ex)"

lemma holds_key_hit: "holds_key k t j s \<Longrightarrow> now \<le> t \<Longrightarrow> hit now k s"
  by (auto simp: holds_key_def hit_def)

lemma holds_key_step_hit:
  assumes h: "holds_key k t j s" and hit: "hit now key s" and ttl: "0 < ds_ttl s"
    and t: "t \<le> now + ds_ttl s" and r: "min_dur \<le> now + ds_ttl s" "now + ds_ttl s \<le> max_dur"
  shows "holds_key k t j (snd (SeenAndAdd now key s))"
proof -
  have "expiry_at now s = now + ds_ttl s" using ttl r by (simp add: expiry_at_def)
  then show ?thesis
    using h t dset_ok_SeenAndAdd [of s now key] ring_order_hit [OF hit]
    by (auto simp: holds_key_def SeenAndAdd_hit [OF hit])
qed

lemma push_keeps:
  assumes "length (xs @ k # ys) \<le> cap" and "Suc (length ys) < cap" and "n \<noteq> k" and "k \<notin> set xs \<union> set ys"
  shows "\<exists>xs' ys'. push cap n (xs @ k # ys) = xs' @ k # ys' \<and> k \<notin> set xs' \<union> set ys' \<and>
           length ys' \<le> Suc (length ys)"
proof (cases xs)
  case Nil
  then show ?thesis using assms by (intro exI [of _ "[]"] exI [of _ "ys @ [n]"]) (simp add: push_def)
next
  case (Cons x xs')
  then show ?thesis using assms
    by (intro exI [of _ "if length (xs @ k # ys) = cap then xs' else xs"] exI [of _ "ys @ [n]"])
       (simp add: push_def)
qed

lemma holds_key_step_miss:
  assumes h: "holds_key k t j s" and miss: "\<not> hit now key s" and j: "Suc j < ds_capacity s"
    and now: "now \<le> t"
  shows "holds_key k t (Suc j) (snd (SeenAndAdd now key s))"
proof -
  from h have ok: "dset_ok s" and cap: "0 < ds_capacity s" by (auto simp: holds_key_def)
  from h obtain xs ys where q: "ring_order s = xs @ k # ys" "k \<notin> set xs \<union> set ys" "length ys \<le> j"
    by (auto simp: holds_key_def)
  have ne: "key \<noteq> k" using miss holds_key_hit [OF h now] by blast
  have "length (ring_order s) \<le> ds_capacity s" using ok by (simp add: dset_ok_def)
  then obtain xs' ys' where q': "push (ds_capacity s) key (ring_order s) = xs' @ k # ys'"
    "k \<notin> set xs' \<union> set ys'" "length ys' \<le> Suc (length ys)"
    using push_keeps [of xs k ys "ds_capacity s" key] q j ne by auto
  have "ds_ring s ! ds_head s \<noteq> k" if full: "ds_count s = ds_capacity s"
  proof -
    have "hd (ring_order s) = ds_ring s ! ds_head s" and "length (ring_order s) = ds_capacity s"
      using ok cap full by (simp_all add: ring_order_def dset_ok_def hd_drop_conv_nth)
    then show ?thesis using q j by (cases xs) auto
  qed
  then have "\<exists>ex. map_of (ds_entries (snd (SeenAndAdd now key s))) k = Some ex \<and> t \<le> ex"
    using h ne by (auto simp: SeenAndAdd_miss [OF miss cap] holds_key_def)
  moreover have "length ys' \<le> Suc j" using q(3) q'(3) by simp
  ultimately show ?thesis
    using dset_ok_SeenAndAdd [OF ok, of now key] ring_order_miss [OF ok miss cap] q' cap
    unfolding holds_key_def by (metis SeenAndAdd_params(1))
qed

definition calls_within :: "int \<Rightarrow> int \<Rightarrow> (int \<times> Key) list \<Rightarrow> bool" where
  "calls_within now ttl cs \<longleftrightarrow> list_all (\<lambda>c. now \<le> fst c \<and> fst c \<le> now + ttl \<and> fst c + ttl \<le> max_dur) cs"

lemma holds_key_run:
  assumes "holds_key k (now + ds_ttl s) j s" and "calls_within now (ds_ttl s) cs"
    and "0 < ds_ttl s" and "min_dur \<le> now"
    and "j + length (filter Not (fst (run seen_call cs s))) < ds_capacity s"
  shows "\<exists>j'. holds_key k (now + ds_ttl s) j' (snd (run seen_call cs s))"
  using assms
proof (induction cs arbitrary: s j)
  case Nil
  then show ?case by auto
next
  case (Cons c cs)
  let ?s1 = "snd (seen_call c s)"
  have c: "now \<le> fst c" "fst c \<le> now + ds_ttl s" "fst c + ds_ttl s \<le> max_dur"
    and cs: "calls_within now (ds_ttl ?s1) cs"
    using Cons.prems(2) by (auto simp: calls_within_def)
  obtain j' where "holds_key k (now + ds_ttl ?s1) j' ?s1"
    "j' + length (filter Not (fst (run seen_call cs ?s1))) < ds_capacity ?s1"
  proof (cases "hit (fst c) (snd c) s")
    case True
    then show ?thesis
      using that holds_key_step_hit [OF Cons.prems(1) True] Cons.prems c by (auto simp: split_beta)
  next
    case False
    then show ?thesis
      using that [of "Suc j"] holds_key_step_miss [OF Cons.prems(1) False] Cons.prems c
      by (auto simp: split_beta)
  qed
  then show ?case using Cons.IH [of ?s1 j'] cs Cons.prems(3,4) by (simp add: split_beta)
qed

lemma seen_window:
  assumes "s = snd (run seen_call cs0 (New_Set capacity ttl))" and "0 < capacity" and "0 < ttl"
    and "key \<notin> set (ring_order s)" and "min_dur \<le> now" and "now + ttl \<le> max_dur"
    and "s1 = snd (SeenAndAdd now key s)"
    and "calls_within now ttl cs" and "s2 = snd (run seen_call cs s1)"
    and "length (filter Not (fst (run seen_call cs s1))) < nat capacity" and "later \<le> now + ttl"
  shows "\<not> fst (SeenAndAdd now key s) \<and> fst (SeenAndAdd later key s2)"
proof -
  have ok: "dset_ok s" unfolding assms(1) by (rule seen_run_ok [OF dset_ok_New])
  have par: "ds_capacity s = nat capacity" "ds_ttl s = ttl" "0 < ds_capacity s"
    using seen_run_params [of cs0 "New_Set capacity ttl"] assms(1,2) by (auto simp: New_Set_def)
  have miss: "\<not> hit now key s"
    using assms(4) ok by (auto simp: hit_def dset_ok_def dest: map_of_in_keys)
  note s1 = assms(7)
  have ex: "expiry_at now s = now + ttl" using assms(3,5,6) par by (simp add: expiry_at_def)
  obtain xs where "ring_order s1 = xs @ [key]" "key \<notin> set xs"
    using ring_order_miss [OF ok miss par(3)] assms(4) unfolding s1 push_def
    by (cases "ring_order s") (auto split: if_splits)
  moreover have "map_of (ds_entries s1) key = Some (now + ttl)"
    unfolding s1 by (simp add: SeenAndAdd_miss [OF miss par(3)] ex)
  ultimately have "holds_key key (now + ds_ttl s1) 0 s1"
    using dset_ok_SeenAndAdd [OF ok, of now key] par by (auto simp: holds_key_def s1)
  then obtain j where "holds_key key (now + ttl) j s2"
    using holds_key_run [of key now s1 0 cs] assms par s1 by auto
  then show ?thesis using holds_key_hit [of key "now + ttl" j s2 later] assms(11) miss by simp
qed

text \<open>
  A key that is not in the ring when it is inserted at time \<open>now\<close> is reported as a duplicate
  by every later call up to and including \<open>now + ttl\<close>, as long as fewer than \<open>capacity\<close> other
  keys were newly inserted in between, whatever the calls in between were and however often they
  repeated the key itself.
\<close>

theorem dedup_window:
  assumes "s = snd (run seen_call cs0 (New_Set capacity ttl))" and "0 < capacity" and "0 < ttl"
    and "key \<notin> set (ring_order s)" and "min_dur \<le> now" and "now + ttl \<le> max_dur"
    and "s1 = snd (SeenAndAdd now key s)"
    and "calls_within now ttl cs" and "s2 = snd (run seen_call cs s1)"
    and "length (filter Not (fst (run seen_call cs s1))) < nat capacity" and "later \<le> now + ttl"
  shows "\<not> fst (SeenAndAdd now key s) \<and> fst (SeenAndAdd later key s2)"
  by (rule seen_window [OF assms])

theorem dedup_window_witness:
  "fst (SeenAndAdd 150 zero_key (snd (run seen_call [(120, zero_key\<lparr>dk_SeqNum := 1\<rparr>)]
     (snd (SeenAndAdd 100 zero_key (New_Set 2 50))))))"
proof (rule dedup_window [THEN conjunct2])
  show "New_Set 2 50 = snd (run seen_call [] (New_Set 2 50))" by simp
  show "length (filter Not (fst (run seen_call [(120, zero_key\<lparr>dk_SeqNum := 1\<rparr>)]
     (snd (SeenAndAdd 100 zero_key (New_Set 2 50)))))) < nat 2" by code_simp
  show "calls_within 100 50 [(120, zero_key\<lparr>dk_SeqNum := 1\<rparr>)]"
    by (simp add: calls_within_def max_dur_def)
qed (simp_all add: New_Set_def ring_order_def min_dur_def max_dur_def)


end
