(* ===== verification/Subtree_Registry.thy ===== *)
theory Subtree_Registry
  imports Prelude
begin

text \<open>
  The BRC-127 subtree-group registry of \<^verbatim>\<open>subtreegroup/registry.go\<close>: time-bounded membership of
  32-byte subtree ids in the subscribed 16-byte groups. Writing into a missing inner map is a
  panic; the invariant rules it out, and a history semantics says what \<^verbatim>\<open>Contains\<close> answers.
\<close>

record GroupRegistry =
  gr_subscribed :: "id16 list"
  gr_entries :: "(id16 \<times> (id32 \<times> gtime) list) list"
  gr_defaultTTL :: dur

definition New_Groups :: "id16 list \<Rightarrow> dur \<Rightarrow> GroupRegistry" where
  "New_Groups groups ttl =
     foldl (\<lambda>r g. r\<lparr>gr_subscribed := List.insert g (gr_subscribed r),
                     gr_entries := map_put g [] (gr_entries r)\<rparr>)
       \<lparr>gr_subscribed = [], gr_entries = [], gr_defaultTTL = ttl\<rparr> groups"

definition Add :: "gtime \<Rightarrow> id16 \<Rightarrow> id32 \<Rightarrow> dur \<Rightarrow> GroupRegistry \<Rightarrow> GroupRegistry option" where
  "Add now groupID subtreeID ttl r =
     (if groupID \<notin> set (gr_subscribed r) then Some r
      else let ttl = (if ttl \<le> 0 then gr_defaultTTL r else ttl); expiry = now + ttl
        in case map_of (gr_entries r) groupID of
             None \<Rightarrow> None
           | Some subs \<Rightarrow>
               Some (r\<lparr>gr_entries := map_put groupID (map_put subtreeID expiry subs) (gr_entries r)\<rparr>))"

definition Remove :: "id16 \<Rightarrow> id32 \<Rightarrow> GroupRegistry \<Rightarrow> GroupRegistry" where
  "Remove groupID subtreeID r =
     (if groupID \<notin> set (gr_subscribed r) then r
      else case map_of (gr_entries r) groupID of
             None \<Rightarrow> r
           | Some subs \<Rightarrow> r\<lparr>gr_entries := map_put groupID (map_del subtreeID subs) (gr_entries r)\<rparr>)"

definition Contains :: "gtime \<Rightarrow> id32 \<Rightarrow> GroupRegistry \<Rightarrow> bool" where
  "Contains now subtreeID r =
     list_ex (\<lambda>(g, subs). case map_of subs subtreeID of None \<Rightarrow> False | Some expiry \<Rightarrow> now < expiry)
       (gr_entries r)"

definition Evict_Groups :: "gtime \<Rightarrow> GroupRegistry \<Rightarrow> nat \<times> GroupRegistry" where
  "Evict_Groups now r =
     (sum_list (map (\<lambda>(g, subs). length (filter (\<lambda>(s, expiry). now > expiry) subs)) (gr_entries r)),
      r\<lparr>gr_entries := map (\<lambda>(g, subs). (g, filter (\<lambda>(s, expiry). \<not> now > expiry) subs)) (gr_entries r)\<rparr>)"

definition Len_Groups :: "GroupRegistry \<Rightarrow> nat" where
  "Len_Groups r = sum_list (map (\<lambda>(g, subs). length subs) (gr_entries r))"

text \<open>A history of calls, and running it; \<open>None\<close> is a panic.\<close>

datatype group_op = OpAdd gtime id16 id32 dur | OpRemove id16 id32 | OpEvict gtime

fun group_step :: "group_op \<Rightarrow> GroupRegistry \<Rightarrow> GroupRegistry option" where
  "group_step (OpAdd now g s ttl) r = Add now g s ttl r"
| "group_step (OpRemove g s) r = Some (Remove g s r)"
| "group_step (OpEvict now) r = Some (snd (Evict_Groups now r))"

primrec group_run :: "group_op list \<Rightarrow> GroupRegistry \<Rightarrow> GroupRegistry option" where
  "group_run [] r = Some r"
| "group_run (o1 # ops) r = do { r1 \<leftarrow> group_step o1 r; group_run ops r1 }"

section \<open>Invariant and lookups\<close>

definition groups_ok :: "GroupRegistry \<Rightarrow> bool" where
  "groups_ok r \<longleftrightarrow> wf_map (gr_entries r) \<and> fst ` set (gr_entries r) = set (gr_subscribed r) \<and>
     list_all (\<lambda>(g, subs). wf_map subs) (gr_entries r)"

text \<open>The stored expiry of a pair, as a partial function.\<close>

definition expiry_of :: "GroupRegistry \<Rightarrow> id16 \<Rightarrow> id32 \<Rightarrow> gtime option" where
  "expiry_of r g s = Option.bind (map_of (gr_entries r) g) (\<lambda>subs. map_of subs s)"

lemma New_Groups_sel:
  "gr_defaultTTL (New_Groups gs ttl) = ttl"
  "set (gr_subscribed (New_Groups gs ttl)) = set gs"
  "groups_ok (New_Groups gs ttl)" "expiry_of (New_Groups gs ttl) g s = None"
  unfolding New_Groups_def
  by (induction gs rule: rev_induct)
     (auto simp: groups_ok_def expiry_of_def list_all_iff dest!: subsetD [OF set_put_subset] split: bind_splits)

lemma groups_okD:
  assumes "groups_ok r"
  shows "wf_map (gr_entries r)" "g \<in> set (gr_subscribed r) \<Longrightarrow> \<exists>subs. map_of (gr_entries r) g = Some subs \<and> wf_map subs"
    "expiry_of r g s = Some e \<Longrightarrow> g \<in> set (gr_subscribed r)"
proof -
  show wf: "wf_map (gr_entries r)" using assms by (simp add: groups_ok_def)
  show "\<exists>subs. map_of (gr_entries r) g = Some subs \<and> wf_map subs" if "g \<in> set (gr_subscribed r)"
  proof -
    have "g \<in> fst ` set (gr_entries r)" using that assms by (simp add: groups_ok_def)
    then obtain subs where "map_of (gr_entries r) g = Some subs"
      by (metis map_of_None_iff not_None_eq)
    then show ?thesis using assms by (auto simp: groups_ok_def list_all_iff dest: map_of_SomeD)
  qed
  show "g \<in> set (gr_subscribed r)" if "expiry_of r g s = Some e"
    using that assms map_of_in_keys [of "gr_entries r" g]
    by (auto simp: groups_ok_def expiry_of_def bind_eq_Some_conv simp del: map_of_eq_Some_iff)
qed

lemma Contains_iff:
  assumes "groups_ok r"
  shows "Contains now s r \<longleftrightarrow> (\<exists>g e. expiry_of r g s = Some e \<and> now < e)"
proof -
  have "\<And>g subs. (g, subs) \<in> set (gr_entries r) \<longleftrightarrow> map_of (gr_entries r) g = Some subs"
    using groups_okD(1) [OF assms] by (simp add: map_of_eq_Some_iff)
  then show ?thesis
    by (fastforce simp: Contains_def list_ex_iff expiry_of_def bind_eq_Some_conv split: option.splits)
qed

lemma Add_total: "groups_ok r \<Longrightarrow> \<exists>r'. Add now g s ttl r = Some r'"
  by (auto simp: Add_def dest!: groups_okD(2))

lemma groups_ok_put:
  assumes "groups_ok r" and "g \<in> set (gr_subscribed r)" and "wf_map subs"
  shows "groups_ok (r\<lparr>gr_entries := map_put g subs (gr_entries r)\<rparr>)"
  using assms by (auto simp: groups_ok_def list_all_iff dest!: subsetD [OF set_put_subset])

lemma Add_spec:
  assumes "groups_ok r" and "Add now g s ttl r = Some r'"
  shows "groups_ok r' \<and> gr_subscribed r' = gr_subscribed r \<and> gr_defaultTTL r' = gr_defaultTTL r \<and>
    expiry_of r' g' s' = (if g' = g \<and> s' = s \<and> g \<in> set (gr_subscribed r)
      then Some (now + (if ttl \<le> 0 then gr_defaultTTL r else ttl)) else expiry_of r g' s')"
proof (cases "g \<in> set (gr_subscribed r)")
  case True
  then obtain subs where "map_of (gr_entries r) g = Some subs" "wf_map subs"
    using groups_okD(2) [OF assms(1)] by blast
  then show ?thesis
    using assms True groups_ok_put [OF assms(1) True wf_map_put]
    by (auto simp: Add_def expiry_of_def Let_def)
next
  case False
  then show ?thesis using assms by (simp add: Add_def)
qed

lemma Remove_spec:
  assumes "groups_ok r"
  shows "groups_ok (Remove g s r) \<and> gr_subscribed (Remove g s r) = gr_subscribed r \<and>
    gr_defaultTTL (Remove g s r) = gr_defaultTTL r \<and>
    expiry_of (Remove g s r) g' s' = (if g' = g \<and> s' = s then None else expiry_of r g' s')"
proof (cases "g \<in> set (gr_subscribed r)")
  case True
  then obtain subs where "map_of (gr_entries r) g = Some subs" "wf_map subs"
    using groups_okD(2) [OF assms(1)] by blast
  then show ?thesis
    using True groups_ok_put [OF assms(1) True wf_map_del]
    by (auto simp: Remove_def expiry_of_def)
next
  case False
  then show ?thesis using assms groups_okD(3) [OF assms, of g s]
    by (cases "expiry_of r g s") (auto simp: Remove_def)
qed

lemma Evict_spec:
  assumes "groups_ok r"
  shows "groups_ok (snd (Evict_Groups now r)) \<and>
    gr_subscribed (snd (Evict_Groups now r)) = gr_subscribed r \<and>
    gr_defaultTTL (snd (Evict_Groups now r)) = gr_defaultTTL r \<and>
    expiry_of (snd (Evict_Groups now r)) g s =
      (case expiry_of r g s of None \<Rightarrow> None | Some e \<Rightarrow> if now > e then None else Some e)"
proof -
  let ?f = "filter (\<lambda>(s, e). \<not> now > e)"
  have keys: "map fst (map (\<lambda>(g, subs). (g, ?f subs)) (gr_entries r)) = map fst (gr_entries r)"
    by (simp add: split_beta comp_def)
  have "expiry_of (snd (Evict_Groups now r)) g s = Option.bind (map_of (gr_entries r) g) (\<lambda>subs. map_of (?f subs) s)"
    by (simp add: expiry_of_def Evict_Groups_def map_of_map_val bind_map_option comp_def)
  moreover have "map_of (?f subs) s = (case map_of subs s of None \<Rightarrow> None | Some e \<Rightarrow> if now > e then None else Some e)"
    if "map_of (gr_entries r) g = Some subs" for subs
    using that assms by (auto simp: map_of_filter groups_ok_def list_all_iff dest!: map_of_SomeD split: option.splits)
  ultimately have "expiry_of (snd (Evict_Groups now r)) g s =
      (case expiry_of r g s of None \<Rightarrow> None | Some e \<Rightarrow> if now > e then None else Some e)"
    by (auto simp: expiry_of_def split: bind_splits option.splits)
  moreover have "groups_ok (snd (Evict_Groups now r))"
    using assms unfolding groups_ok_def Evict_Groups_def snd_conv
    by (force simp: list_all_iff split_beta comp_def image_comp)
  ultimately show ?thesis by (simp add: Evict_Groups_def)
qed

section \<open>History semantics\<close>

text \<open>What the last add or removal of a pair left behind, with evictions ignored.\<close>

fun told :: "dur \<Rightarrow> id16 \<Rightarrow> id32 \<Rightarrow> group_op \<Rightarrow> gtime option \<Rightarrow> gtime option" where
  "told d g s (OpAdd now g' s' ttl) e =
     (if g' = g \<and> s' = s then Some (now + (if ttl \<le> 0 then d else ttl)) else e)"
| "told d g s (OpRemove g' s') e = (if g' = g \<and> s' = s then None else e)"
| "told d g s (OpEvict now) e = e"

fun evicts_by :: "gtime \<Rightarrow> group_op \<Rightarrow> bool" where
  "evicts_by now (OpEvict t) \<longleftrightarrow> t \<le> now"
| "evicts_by now _ \<longleftrightarrow> True"

text \<open>
  \<open>tracks now r h\<close>: the registry and the history \<open>h\<close> agree on every pair of a subscribed group
  that is live at \<open>now\<close>; they may differ on pairs that expired before.
\<close>

definition tracks :: "gtime \<Rightarrow> GroupRegistry \<Rightarrow> (id16 \<Rightarrow> id32 \<Rightarrow> gtime option) \<Rightarrow> bool" where
  "tracks now r h \<longleftrightarrow> groups_ok r \<and> (\<forall>g\<in>set (gr_subscribed r). \<forall>s e. now < e \<longrightarrow>
     (expiry_of r g s = Some e \<longleftrightarrow> h g s = Some e)) "

lemma tracks_step:
  assumes t: "tracks now r h" and e: "evicts_by now o1"
  shows "\<exists>r'. group_step o1 r = Some r' \<and> gr_subscribed r' = gr_subscribed r \<and>
    gr_defaultTTL r' = gr_defaultTTL r \<and> tracks now r' (\<lambda>g s. told (gr_defaultTTL r) g s o1 (h g s))"
proof -
  have ok: "groups_ok r" using t by (simp add: tracks_def)
  show ?thesis
  proof (cases o1)
    case (OpAdd t0 g s ttl)
    then obtain r' where r': "Add t0 g s ttl r = Some r'" using Add_total [OF ok] by blast
    then show ?thesis using OpAdd Add_spec [OF ok r'] t by (auto simp: tracks_def)
  next
    case (OpRemove g s)
    then show ?thesis using Remove_spec [OF ok] t by (auto simp: tracks_def)
  next
    case (OpEvict t0)
    then have t0: "t0 \<le> now" using e by simp
    have "expiry_of (snd (Evict_Groups t0 r)) g s = Some e \<longleftrightarrow> expiry_of r g s = Some e" if "now < e" for g s e
      using Evict_spec [OF ok, of t0 g s] t0 that by (auto split: option.splits)
    then show ?thesis using OpEvict Evict_spec [OF ok, of t0] t by (simp add: tracks_def)
  qed
qed

lemma tracks_run:
  assumes "tracks now r h" and "list_all (evicts_by now) ops"
  shows "\<exists>r'. group_run ops r = Some r' \<and> gr_subscribed r' = gr_subscribed r \<and>
     tracks now r' (\<lambda>g s. fold (told (gr_defaultTTL r) g s) ops (h g s))"
  using assms
proof (induction ops arbitrary: r h)
  case (Cons o1 ops)
  then obtain r1 where r1: "group_step o1 r = Some r1" "gr_subscribed r1 = gr_subscribed r"
    "gr_defaultTTL r1 = gr_defaultTTL r" "tracks now r1 (\<lambda>g s. told (gr_defaultTTL r) g s o1 (h g s))"
    using tracks_step [of now r h o1] by auto
  then show ?case using Cons.IH [OF r1(4)] Cons.prems(2) by simp
qed simp

lemma contains_history:
  assumes "list_all (evicts_by now) ops"
  shows "\<exists>r. group_run ops (New_Groups gs d) = Some r \<and>
    Contains now s r = list_ex (\<lambda>g. case fold (told d g s) ops None of None \<Rightarrow> False | Some e \<Rightarrow> now < e) gs"
proof -
  have "tracks now (New_Groups gs d) (\<lambda>g s. None)" by (simp add: tracks_def New_Groups_sel)
  from tracks_run [OF this assms] obtain r where r: "group_run ops (New_Groups gs d) = Some r"
    "set (gr_subscribed r) = set gs" "tracks now r (\<lambda>g s. fold (told d g s) ops None)"
    by (auto simp: New_Groups_sel)
  then have ok: "groups_ok r" by (simp add: tracks_def)
  have "Contains now s r \<longleftrightarrow> (\<exists>g\<in>set gs. \<exists>e. fold (told d g s) ops None = Some e \<and> now < e)"
    using r(2,3) groups_okD(3) [OF ok] unfolding Contains_iff [OF ok] tracks_def by metis
  then show ?thesis using r(1) by (auto simp: list_ex_iff split: option.splits)
qed

text \<open>
  No sequence of \<^verbatim>\<open>Add\<close>, \<^verbatim>\<open>Remove\<close> and \<^verbatim>\<open>Evict\<close> calls on a registry for the groups \<open>gs\<close>
  panics, and afterwards \<^verbatim>\<open>Contains\<close> answers, at any time no earlier than the evictions, exactly
  whether some subscribed group's last word on the subtree was an announcement still within its
  TTL (the default TTL when it carried none). Evictions and announcements for other groups are
  never visible.
\<close>

theorem subtree_contains_history:
  assumes "list_all (evicts_by now) ops"
  shows "\<exists>r. group_run ops (New_Groups gs d) = Some r \<and>
    Contains now s r = list_ex (\<lambda>g. case fold (told d g s) ops None of None \<Rightarrow> False | Some e \<Rightarrow> now < e) gs"
  by (rule contains_history [OF assms])

theorem subtree_contains_history_witness:
  "\<exists>r. group_run [OpAdd 0 1 10 0, OpAdd 0 2 11 500, OpAdd 5 1 12 20, OpEvict 20, OpRemove 1 10]
         (New_Groups [1] 100) = Some r \<and> \<not> Contains 20 10 r \<and> \<not> Contains 20 11 r \<and> Contains 20 12 r"
  using subtree_contains_history [of 20 "[OpAdd 0 1 10 0, OpAdd 0 2 11 500, OpAdd 5 1 12 20, OpEvict 20, OpRemove 1 10]" "[1]" 100 10]
    subtree_contains_history [of 20 "[OpAdd 0 1 10 0, OpAdd 0 2 11 500, OpAdd 5 1 12 20, OpEvict 20, OpRemove 1 10]" "[1]" 100 11]
    subtree_contains_history [of 20 "[OpAdd 0 1 10 0, OpAdd 0 2 11 500, OpAdd 5 1 12 20, OpEvict 20, OpRemove 1 10]" "[1]" 100 12]
  by auto

text \<open>
  \<^verbatim>\<open>Evict\<close> reports exactly how many pairs it dropped.
\<close>

lemma Evict_count: "Len_Groups r = fst (Evict_Groups now r) + Len_Groups (snd (Evict_Groups now r))"
proof -
  have *: "length (subs :: (id32 \<times> gtime) list) = length (filter (\<lambda>(s, e). now > e) subs) + length (filter (\<lambda>(s, e). \<not> now > e) subs)"
    for subs
    by (induction subs) auto
  have "sum_list (map (\<lambda>(g, subs). length subs) m) =
      sum_list (map (\<lambda>(g, subs). length (filter (\<lambda>(s, e). now > e) subs)) m) +
      sum_list (map (\<lambda>(g, subs). length (filter (\<lambda>(s, e). \<not> now > e) subs)) m)"
    for m :: "(id16 \<times> (id32 \<times> gtime) list) list"
  proof (induction m)
    case (Cons a m)
    then show ?case using * [of "snd a"] by (cases a) simp
  qed simp
  from this [of "gr_entries r"] show ?thesis
    by (simp add: Len_Groups_def Evict_Groups_def comp_def case_prod_unfold)
qed

end
