(* ===== verification/Frame_Filter.thy ===== *)
theory Frame_Filter
  imports Subtree_Registry
begin

text \<open>
  The frame filter of \<^verbatim>\<open>filter/filter.go\<close> and the sender ACL of \<^verbatim>\<open>filter/sender.go\<close>, with the
  part of \<^verbatim>\<open>net.IPNet.Contains\<close> the ACL uses. \<open>Frame\<close> holds the fields of the decoded frame (a
  type of the shard-common package) that this program reads.
\<close>

record Frame =
  fr_Version :: byte
  fr_TxID :: id32
  fr_SubtreeID :: id32
  fr_HashKey :: u64
  fr_SeqNum :: u64
  fr_Payload :: "byte list"

record Filter =
  fl_shardInclude :: "u32 list option"
  fl_subtreeInclude :: "id32 list option"
  fl_subtreeExclude :: "id32 list option"
  fl_groupReg :: "GroupRegistry option"

definition compiled :: "'a list \<Rightarrow> 'a list option" where
  "compiled xs = (if 0 < length xs then Some (remdups xs) else None)"

definition New_Filter :: "u32 list \<Rightarrow> id32 list \<Rightarrow> id32 list \<Rightarrow> GroupRegistry option \<Rightarrow> Filter" where
  "New_Filter shardInclude subtreeInclude subtreeExclude groupReg =
     \<lparr>fl_shardInclude = compiled shardInclude, fl_subtreeInclude = compiled subtreeInclude,
      fl_subtreeExclude = compiled subtreeExclude, fl_groupReg = groupReg\<rparr>"

text \<open>Lookup in a possibly nil Go map.\<close>

definition in_set_opt :: "'a \<Rightarrow> 'a list option \<Rightarrow> bool" where
  "in_set_opt x m = (case m of None \<Rightarrow> False | Some xs \<Rightarrow> x \<in> set xs)"

definition Allow :: "gtime \<Rightarrow> u32 \<Rightarrow> Frame \<Rightarrow> Filter \<Rightarrow> bool \<times> string" where
  "Allow now groupIdx fr f =
     (if fl_shardInclude f \<noteq> None \<and> \<not> in_set_opt groupIdx (fl_shardInclude f)
      then (False, ''shard_filter'')
      else if fl_subtreeExclude f \<noteq> None \<and> in_set_opt (fr_SubtreeID fr) (fl_subtreeExclude f)
      then (False, ''subtree_exclude'')
      else if fl_subtreeInclude f \<noteq> None \<or> fl_groupReg f \<noteq> None
      then let inStatic = in_set_opt (fr_SubtreeID fr) (fl_subtreeInclude f);
               inGroup = (case fl_groupReg f of None \<Rightarrow> False | Some r \<Rightarrow> Contains now (fr_SubtreeID fr) r)
        in if \<not> inStatic \<and> \<not> inGroup then (False, ''subtree_include_miss'') else (True, [])
      else (True, []))"

section \<open>CIDR blocks and the sender ACL\<close>

text \<open>\<^verbatim>\<open>net.IP\<close> is a byte slice of length 0 (nil), 4 or 16.\<close>

definition To4 :: "byte list \<Rightarrow> byte list option" where
  "To4 a =
     (if length a = 4 then Some a
      else if length a = 16 \<and> take 10 a = replicate 10 0 \<and> a ! 10 = 0xff \<and> a ! 11 = 0xff
      then Some (drop 12 a) else None)"

record IPNet =
  net_IP :: "byte list"
  net_Mask :: "byte list"

definition networkNumberAndMask :: "IPNet \<Rightarrow> byte list \<times> byte list" where
  "networkNumberAndMask n =
     (let nn = (case To4 (net_IP n) of Some a \<Rightarrow> a | None \<Rightarrow> net_IP n); m = net_Mask n in
      if To4 (net_IP n) = None \<and> length (net_IP n) \<noteq> 16 then ([], [])
      else if length m = 4 then (if length nn \<noteq> 4 then ([], []) else (nn, m))
      else if length m = 16 then (nn, if length nn = 4 then drop 12 m else m)
      else ([], []))"

definition net_Contains :: "IPNet \<Rightarrow> byte list \<Rightarrow> bool" where
  "net_Contains n a =
     (let (nn, m) = networkNumberAndMask n; a = (case To4 a of Some x \<Rightarrow> x | None \<Rightarrow> a) in
      length a = length nn \<and>
      list_all (\<lambda>i. nn ! i AND m ! i = a ! i AND m ! i) [0..<length a])"

record SenderACL =
  acl_Include :: "IPNet list"
  acl_Exclude :: "IPNet list"

definition NewSenderACL :: "IPNet list \<Rightarrow> IPNet list \<Rightarrow> SenderACL option" where
  "NewSenderACL inc exc =
     (if length inc = 0 \<and> length exc = 0 then None else Some \<lparr>acl_Include = inc, acl_Exclude = exc\<rparr>)"

definition Allow_Sender :: "SenderACL option \<Rightarrow> byte list \<Rightarrow> bool" where
  "Allow_Sender a addr =
     (case a of None \<Rightarrow> True
      | Some acl \<Rightarrow>
          if list_ex (\<lambda>cidr. net_Contains cidr addr) (acl_Exclude acl) then False
          else if length (acl_Include acl) = 0 then True
          else list_ex (\<lambda>cidr. net_Contains cidr addr) (acl_Include acl))"

section \<open>Correctness\<close>

lemma in_compiled [simp]: "in_set_opt x (compiled xs) \<longleftrightarrow> x \<in> set xs" "compiled xs = None \<longleftrightarrow> xs = []"
  by (simp_all add: in_set_opt_def compiled_def)

text \<open>
  A filter built from the configured lists, with a registry fed by any history of
  announcements, removals and evictions, passes a frame exactly when its group is in the shard
  list (or that list is empty), its subtree is not excluded, and its subtree is statically
  included, or announced for a subscribed group and still live, or neither kind of inclusion is
  configured; and the reason of a denial names the first of the three checks that failed.
\<close>

theorem filter_allow_correct:
  assumes "list_all (evicts_by now) ops"
    and "reg = (if grouped then group_run ops (New_Groups gs d) else None)"
    and "live \<longleftrightarrow> grouped \<and> list_ex (\<lambda>g. case fold (told d g (fr_SubtreeID fr)) ops None of
                                   None \<Rightarrow> False | Some e \<Rightarrow> now < e) gs"
  shows "Allow now groupIdx fr (New_Filter si inc exc reg) =
    (if si \<noteq> [] \<and> groupIdx \<notin> set si then (False, ''shard_filter'')
     else if fr_SubtreeID fr \<in> set exc then (False, ''subtree_exclude'')
     else if inc = [] \<and> \<not> grouped \<or> fr_SubtreeID fr \<in> set inc \<or> live then (True, [])
     else (False, ''subtree_include_miss''))"
proof (cases grouped)
  case True
  then obtain r where "reg = Some r" "Contains now (fr_SubtreeID fr) r \<longleftrightarrow> live"
    using Subtree_Registry.contains_history [OF assms(1), of gs d "fr_SubtreeID fr"] assms(2,3) by auto
  then show ?thesis using True by (auto simp: Allow_def New_Filter_def)
next
  case False
  then show ?thesis using assms by (auto simp: Allow_def New_Filter_def)
qed

theorem filter_allow_correct_witness:
  "Allow 10 3 \<lparr>fr_Version = 2, fr_TxID = 0, fr_SubtreeID = 7, fr_HashKey = 0, fr_SeqNum = 1, fr_Payload = []\<rparr>
     (New_Filter [3, 4] [] [9] (group_run [OpAdd 0 1 7 20] (New_Groups [1] 5))) = (True, [])"
  using filter_allow_correct [of 10 "[OpAdd 0 1 7 20]" "group_run [OpAdd 0 1 7 20] (New_Groups [1] 5)" True "[1]" 5 True
    "\<lparr>fr_Version = 2, fr_TxID = 0, fr_SubtreeID = 7, fr_HashKey = 0, fr_SeqNum = 1, fr_Payload = []\<rparr>" 3 "[3, 4]" "[]" "[9]"]
  by simp

lemma To4_mapped: "length a = 4 \<Longrightarrow> To4 (replicate 10 0 @ [0xff, 0xff] @ a) = Some a"
  by (simp add: To4_def nth_append)

lemma net_Contains_mapped:
  "length a = 4 \<Longrightarrow> net_Contains n (replicate 10 0 @ [0xff, 0xff] @ a) = net_Contains n a"
  using To4_mapped [of a] by (simp add: net_Contains_def To4_def [of a] Let_def split_beta)

text \<open>
  The ACL built from two CIDR lists accepts a sender exactly when no exclude block contains it
  and some include block does (or there is none), an exclude match winning over any include match;
  two empty lists accept everyone; and an IPv4 sender gets the same verdict in its 4-byte and its
  IPv4-mapped 16-byte form.
\<close>

theorem sender_acl_correct:
  "Allow_Sender (NewSenderACL inc exc) a =
     ((\<forall>c. c \<in> set exc \<longrightarrow> \<not> net_Contains c a) \<and> (inc = [] \<or> (\<exists>c. c \<in> set inc \<and> net_Contains c a))) \<and>
   (length a = 4 \<longrightarrow> Allow_Sender (NewSenderACL inc exc) (replicate 10 0 @ [0xff, 0xff] @ a) =
     Allow_Sender (NewSenderACL inc exc) a)"
proof -
  have "Allow_Sender (NewSenderACL inc exc) b =
     ((\<forall>c. c \<in> set exc \<longrightarrow> \<not> net_Contains c b) \<and> (inc = [] \<or> (\<exists>c. c \<in> set inc \<and> net_Contains c b)))" for b
    by (auto simp: Allow_Sender_def NewSenderACL_def list_ex_iff)
  then show ?thesis by (simp add: net_Contains_mapped del: append.simps)
qed

theorem sender_acl_correct_witness:
  "\<not> Allow_Sender (NewSenderACL [] [\<lparr>net_IP = [10, 0, 0, 0], net_Mask = [255, 0, 0, 0]\<rparr>])
       (replicate 10 0 @ [0xff, 0xff] @ [10, 1, 2, 3])"
  using sender_acl_correct [of "[]" "[\<lparr>net_IP = [10, 0, 0, 0], net_Mask = [255, 0, 0, 0]\<rparr>]" "[10, 1, 2, 3]"]
  by (simp add: net_Contains_def networkNumberAndMask_def To4_def upt_rec nth_Cons')

end
