(* ===== verification/Tracker_State.thy ===== *)
theory Tracker_State
  imports Nack_Wire Endpoints
begin

text \<open>
  Data, construction and bookkeeping of the gap tracker of \<^verbatim>\<open>nack/nack.go\<close>: configuration, flows,
  gap entries, the counters each booking emits, the re-injection callbacks and the self-demoting
  seed list.

  A handler that calls \<^verbatim>\<open>time.Now\<close> takes one clock reading \<open>now\<close>; a random draw is an arbitrary
  function \<open>draw\<close> of the sequence number it is made for; the metrics recorder is a log of the
  counters incremented, empty when \<^verbatim>\<open>rec\<close> is nil; log lines are dropped. A re-injection callback
  is an opaque handle. Go's \<^verbatim>\<open>float64\<close> product in the probe threshold is a parameter of the
  sweep.
\<close>

section \<open>Configuration and data\<close>

record TrackerConfig =
  tc_JitterMax :: dur
  tc_BackoffBase :: dur
  tc_BackoffMax :: dur
  tc_MaxRetries :: int
  tc_GapTTL :: dur
  tc_TailTTL :: dur
  tc_SeqResetThreshold :: u64
  tc_MaxFlows :: int
  tc_MaxForwardJump :: u64
  tc_TailProbe :: bool
  tc_TailProbeIdleFactor :: rat
  tc_TailProbeMinIdle :: dur
  tc_TailProbeMaxMisses :: int

definition defaultTailProbeIdleFactor :: rat where "defaultTailProbeIdleFactor = 4"
definition defaultTailProbeMinIdle :: dur where "defaultTailProbeMinIdle = 500 * millisecond"
definition defaultTailProbeMaxMisses :: int where "defaultTailProbeMaxMisses = 3"

definition groupBlockBroadcast :: u32 where "groupBlockBroadcast = 0xFFFE"
definition groupSubtreeDataAnnounce :: u32 where "groupSubtreeDataAnnounce = 0xFFFB"
definition groupCoinbaseFlow :: u32 where "groupCoinbaseFlow = 0xFFF8"
definition groupAnchorFlow :: u32 where "groupAnchorFlow = 0xFFF9"

definition flowLabel :: "u32 \<Rightarrow> string" where
  "flowLabel groupIdx =
     (if groupIdx = groupBlockBroadcast then ''brc131''
      else if groupIdx = groupSubtreeDataAnnounce then ''brc132''
      else if groupIdx = groupCoinbaseFlow then ''brc133''
      else if groupIdx = groupAnchorFlow then ''brc134''
      else if groupIdx \<ge> 0x1000 \<and> groupIdx \<le> 0x1FFF then ''brc148''
      else ''brc124'')"

definition srcStr :: "ip option \<Rightarrow> string" where
  "srcStr a = (case a of None \<Rightarrow> [] | Some x \<Rightarrow> ip_string x)"

definition ownerUnknown :: int where "ownerUnknown = -1"
definition minContiguousForRecover :: u64 where "minContiguousForRecover = 16"
definition abandonedTTL :: dur where "abandonedTTL = 120 * second"
definition abandonedMax :: nat where "abandonedMax = 4096"

record gapEntry =
  gp_hashKey :: u64
  gp_seqNum :: u64
  gp_groupIdx :: u32
  gp_subtreeID :: id32
  gp_source :: "ip option"
  gp_retries :: nat
  gp_failRounds :: nat
  gp_nextAttempt :: gtime
  gp_deadline :: gtime
  gp_endpointIdx :: nat
  gp_speculative :: bool
  gp_owner :: int

record flowState =
  fs_lastSeqNum :: u64
  fs_groupIdx :: u32
  fs_subtreeID :: id32
  fs_flowType :: string
  fs_source :: "ip option"
  fs_pending :: "(u64 \<times> gapEntry) list"
  fs_lastSeen :: gtime
  fs_abandoned :: "(u64 \<times> gtime) list"
  fs_ewmaIPG :: dur
  fs_contiguous :: u64
  fs_samples :: u64
  fs_probeMisses :: nat
  fs_probing :: u64
  fs_owner :: int

datatype metric =
    FlowsRefused string
  | GapDetected string string
  | GapSuppressed string string
  | GapUnrecovered string string
  | GapAbandoned string string string
  | GapLateFilled string string
  | SeqRebaselined string string
  | TailProbeSent string string
  | TailProbeRecovered string string
  | TailProbeMiss string string
  | NACKDispatched string string
  | NACKSendError string
  | NACKThrottled string string

type_synonym callback = nat

record Tracker =
  tr_cfg :: TrackerConfig
  tr_rec :: bool
  tr_registry :: Registry
  tr_respTimeout :: dur
  tr_maxConcurrent :: nat
  tr_recoverFn :: "callback option"
  tr_recovers :: "callback option list"
  tr_nackSrc :: string
  tr_seeds :: "string list"
  tr_flows :: "(u64 \<times> flowState) list"
  tr_flowsRefused :: u64
  tr_nackQueue :: "gapEntry list"
  tr_held :: "gapEntry option"
  tr_inflight :: "gapEntry list"
  tr_metrics :: "metric list"

definition nackQueueCap :: nat where "nackQueueCap = 4096"

text \<open>\<^verbatim>\<open>if t.rec != nil { \<dots> }\<close>\<close>

definition emits :: "bool \<Rightarrow> metric list \<Rightarrow> metric list" where
  "emits rc ms = (if rc then ms else [])"

definition New_Tracker :: "TrackerConfig \<Rightarrow> string list \<Rightarrow> bool \<Rightarrow> Registry option \<Rightarrow> Tracker" where
  "New_Tracker cfg retryEndpoints rc registry =
     (let reg = (case registry of None \<Rightarrow> NewRegistry | Some r \<Rightarrow> r);
          reg = (if length retryEndpoints > 0 then Seed retryEndpoints reg else reg);
          cfg = (if tc_BackoffBase cfg \<le> 0 then cfg\<lparr>tc_BackoffBase := 500 * millisecond\<rparr> else cfg)
      in \<lparr>tr_cfg = cfg, tr_rec = rc, tr_registry = reg, tr_respTimeout = 300 * millisecond,
          tr_maxConcurrent = 64, tr_recoverFn = None, tr_recovers = [], tr_nackSrc = [],
          tr_seeds = retryEndpoints, tr_flows = [], tr_flowsRefused = 0, tr_nackQueue = [],
          tr_held = None, tr_inflight = [], tr_metrics = []\<rparr>)"

section \<open>Re-injection callbacks\<close>

definition SetRecoverFunc :: "callback option \<Rightarrow> Tracker \<Rightarrow> Tracker" where
  "SetRecoverFunc f t = t\<lparr>tr_recoverFn := f\<rparr>"

definition RegisterRecover :: "int \<Rightarrow> callback option \<Rightarrow> Tracker \<Rightarrow> Tracker" where
  "RegisterRecover wid f t =
     (if wid < 0 then t
      else let n = nat wid; rs = tr_recovers t; rs = rs @ replicate (Suc n - length rs) None
        in t\<lparr>tr_recovers := rs[n := f]\<rparr>)"

definition recoverFor :: "gapEntry \<Rightarrow> Tracker \<Rightarrow> callback option" where
  "recoverFor e t =
     (if gp_owner e \<ge> 0 \<and> gp_owner e < int (length (tr_recovers t))
         \<and> tr_recovers t ! nat (gp_owner e) \<noteq> None
      then tr_recovers t ! nat (gp_owner e)
      else tr_recoverFn t)"

definition FlowCount :: "Tracker \<Rightarrow> nat" where
  "FlowCount t = length (tr_flows t)"

definition FlowsRefused_Tracker :: "Tracker \<Rightarrow> u64" where
  "FlowsRefused_Tracker t = tr_flowsRefused t"

definition ActiveFlows :: "Tracker \<Rightarrow> nat" where
  "ActiveFlows t = length (tr_flows t)"

section \<open>Self-demotion of the seed list\<close>

fun index_of :: "char \<Rightarrow> string \<Rightarrow> nat option" where
  "index_of c [] = None"
| "index_of c (x # xs) = (if x = c then Some 0 else map_option Suc (index_of c xs))"

definition last_index :: "char \<Rightarrow> string \<Rightarrow> nat option" where
  "last_index c s = map_option (\<lambda>i. length s - 1 - i) (index_of c (rev s))"

text \<open>The host part of \<^verbatim>\<open>net.SplitHostPort\<close>; \<open>None\<close> is its error.\<close>

definition SplitHost :: "string \<Rightarrow> string option" where
  "SplitHost hp =
     (case last_index (CHR '':'') hp of
        None \<Rightarrow> None
      | Some i \<Rightarrow>
          if hd hp = CHR ''[''
          then (case index_of (CHR '']'') hp of
                  None \<Rightarrow> None
                | Some en \<Rightarrow>
                    if en + 1 \<noteq> i then None
                    else if index_of (CHR ''['') (drop 1 hp) \<noteq> None \<or> index_of (CHR '']'') (drop (en + 1) hp) \<noteq> None
                    then None else Some (take (en - 1) (drop 1 hp)))
          else let host = take i hp in
            if index_of (CHR '':'') host \<noteq> None \<or> index_of (CHR ''['') hp \<noteq> None \<or> index_of (CHR '']'') hp \<noteq> None
            then None else Some host)"

definition trim_brackets :: "string \<Rightarrow> string" where
  "trim_brackets s =
     (let b = (\<lambda>c. c = CHR ''['' \<or> c = CHR '']'') in rev (dropWhile b (rev (dropWhile b s))))"

text \<open>\<^verbatim>\<open>strings.EqualFold\<close> on ASCII text.\<close>

definition to_lower :: "char \<Rightarrow> char" where
  "to_lower c = (let n = of_char c :: nat in if 65 \<le> n \<and> n \<le> 90 then char_of (n + 32) else c)"

definition EqualFold :: "string \<Rightarrow> string \<Rightarrow> bool" where
  "EqualFold a b = (map to_lower a = map to_lower b)"

text \<open>\<open>parseIP\<close> stands for \<^verbatim>\<open>net.ParseIP\<close>; every result below holds for any such function.\<close>

definition sameHost :: "(string \<Rightarrow> ip option) \<Rightarrow> string \<Rightarrow> string \<Rightarrow> bool" where
  "sameHost parseIP a b =
     (case (parseIP (trim_brackets a), parseIP (trim_brackets b)) of
        (Some ia, Some ib) \<Rightarrow> ia = ib
      | _ \<Rightarrow> EqualFold (trim_brackets a) (trim_brackets b))"

definition is_self :: "(string \<Rightarrow> ip option) \<Rightarrow> string \<Rightarrow> string \<Rightarrow> bool" where
  "is_self parseIP selfAddr e =
     (case SplitHost e of None \<Rightarrow> False | Some host \<Rightarrow> sameHost parseIP host selfAddr)"

definition demoteSelf :: "(string \<Rightarrow> ip option) \<Rightarrow> string list \<Rightarrow> string \<Rightarrow> string list" where
  "demoteSelf parseIP endpoints selfAddr =
     (if selfAddr = [] \<or> length endpoints < 2 then endpoints
      else filter (\<lambda>e. \<not> is_self parseIP selfAddr e) endpoints @ filter (is_self parseIP selfAddr) endpoints)"

definition SetNACKSource :: "(string \<Rightarrow> ip option) \<Rightarrow> string \<Rightarrow> Tracker \<Rightarrow> Tracker" where
  "SetNACKSource parseIP addr t =
     (let t = t\<lparr>tr_nackSrc := addr\<rparr> in
      if length (tr_seeds t) > 0
      then t\<lparr>tr_registry := Seed (demoteSelf parseIP (tr_seeds t) addr) (tr_registry t)\<rparr> else t)"

section \<open>Bookkeeping\<close>

definition bookAbandon :: "bool \<Rightarrow> gtime \<Rightarrow> u64 \<Rightarrow> ip option \<Rightarrow> string \<Rightarrow> flowState \<Rightarrow> flowState \<times> metric list" where
  "bookAbandon rc now seq src reason fs =
     ((if length (fs_abandoned fs) < abandonedMax
       then fs\<lparr>fs_abandoned := map_put seq now (fs_abandoned fs)\<rparr> else fs),
      emits rc [GapUnrecovered (fs_flowType fs) (srcStr src),
                GapAbandoned (fs_flowType fs) (srcStr src) reason])"

definition noteLateFill :: "bool \<Rightarrow> u64 \<Rightarrow> flowState \<Rightarrow> flowState \<times> metric list" where
  "noteLateFill rc seq fs =
     (case map_of (fs_abandoned fs) seq of
        None \<Rightarrow> (fs, [])
      | Some _ \<Rightarrow> (fs\<lparr>fs_abandoned := map_del seq (fs_abandoned fs)\<rparr>,
                   emits rc [GapLateFilled (fs_flowType fs) (srcStr (fs_source fs))]))"

definition bookFill :: "bool \<Rightarrow> gapEntry \<Rightarrow> flowState \<Rightarrow> flowState \<times> metric list" where
  "bookFill rc e fs =
     (let fs = (if fs_probing fs = gp_seqNum e then fs\<lparr>fs_probing := 0\<rparr> else fs) in
      if \<not> rc then (fs, [])
      else let ft = fs_flowType fs; src = srcStr (fs_source fs);
               fs' = (if gp_speculative e then fs\<lparr>fs_probeMisses := 0\<rparr> else fs)
        in (fs', (if gp_speculative e then [TailProbeRecovered ft src, GapDetected ft src] else []) @
                 [GapSuppressed ft src]))"

text \<open>
  The body the three registration loops share: a jittered first attempt, the gap lifetime as
  deadline, the flow's owner; \<^verbatim>\<open>rand.Int64N\<close> panics on a negative \<^verbatim>\<open>JitterMax\<close>.
\<close>

definition new_gap :: "TrackerConfig \<Rightarrow> gtime \<Rightarrow> (u64 \<Rightarrow> int) \<Rightarrow> u64 \<Rightarrow> u32 \<Rightarrow> id32 \<Rightarrow> ip option \<Rightarrow> int \<Rightarrow> u64 \<Rightarrow> gapEntry option" where
  "new_gap cfg now draw hashKey groupIdx subtreeID source owner m =
     do { jitter \<leftarrow> int64N (draw m) (wrap64 (tc_JitterMax cfg + 1));
          Some \<lparr>gp_hashKey = hashKey, gp_seqNum = m, gp_groupIdx = groupIdx, gp_subtreeID = subtreeID,
                gp_source = source, gp_retries = 0, gp_failRounds = 0, gp_nextAttempt = now + jitter,
                gp_deadline = now + tc_GapTTL cfg, gp_endpointIdx = 0, gp_speculative = False,
                gp_owner = owner\<rparr> }"

text \<open>
  Registration of a list of sequence numbers; \<open>mk\<close> builds the entry, numbers already pending are
  skipped, and the new entries are returned for the caller that queues copies of them.
\<close>

primrec register :: "(u64 \<Rightarrow> gapEntry option) \<Rightarrow> u64 list \<Rightarrow> flowState \<Rightarrow> (flowState \<times> gapEntry list) option" where
  "register mk [] fs = Some (fs, [])"
| "register mk (m # ms) fs =
     (case map_of (fs_pending fs) m of
        Some _ \<Rightarrow> register mk ms fs
      | None \<Rightarrow>
          do { e \<leftarrow> mk m;
               (fs', es) \<leftarrow> register mk ms (fs\<lparr>fs_pending := map_put m e (fs_pending fs)\<rparr>);
               Some (fs', e # es) })"

text \<open>A non-blocking send on the dispatch channel.\<close>

definition enqueue :: "gapEntry \<Rightarrow> gapEntry list \<Rightarrow> gapEntry list option" where
  "enqueue e q = (if length q < nackQueueCap then Some (q @ [e]) else None)"

primrec enqueue_all :: "gapEntry list \<Rightarrow> gapEntry list \<Rightarrow> gapEntry list" where
  "enqueue_all [] q = q"
| "enqueue_all (e # es) q = (case enqueue e q of None \<Rightarrow> q | Some q' \<Rightarrow> enqueue_all es q')"

end
