(* ===== verification/Tracker_Observe.thy ===== *)
theory Tracker_Observe
  imports Tracker_State
begin

text \<open>
  Gap detection: \<^verbatim>\<open>ObserveFrom\<close>, \<^verbatim>\<open>RequestGapsFrom\<close>, \<^verbatim>\<open>Fill\<close> and \<^verbatim>\<open>Pending\<close> of
  \<^verbatim>\<open>nack/nack.go\<close>. \<open>observe_flow\<close> is the part of \<^verbatim>\<open>ObserveFrom\<close> that runs once the flow is found or
  created, with its steps numbered as in the source.
\<close>

section \<open>Observe\<close>

definition new_flow :: "u32 \<Rightarrow> id32 \<Rightarrow> gtime \<Rightarrow> flowState" where
  "new_flow groupIdx subtreeID seen =
     \<lparr>fs_lastSeqNum = 0, fs_groupIdx = groupIdx, fs_subtreeID = subtreeID,
      fs_flowType = flowLabel groupIdx, fs_source = None, fs_pending = [], fs_lastSeen = seen,
      fs_abandoned = [], fs_ewmaIPG = 0, fs_contiguous = 0, fs_samples = 0, fs_probeMisses = 0,
      fs_probing = 0, fs_owner = ownerUnknown\<rparr>"

definition reset_threshold :: "TrackerConfig \<Rightarrow> u64" where
  "reset_threshold cfg = (if tc_SeqResetThreshold cfg = 0 then 100 else tc_SeqResetThreshold cfg)"

definition max_jump :: "TrackerConfig \<Rightarrow> u64" where
  "max_jump cfg = (if tc_MaxForwardJump cfg = 0 then 4096 else tc_MaxForwardJump cfg)"

text \<open>Step 4: a restart flushes every pending gap as abandoned, probes silently.\<close>

definition flush_pending :: "bool \<Rightarrow> gtime \<Rightarrow> flowState \<Rightarrow> flowState \<times> metric list" where
  "flush_pending rc now fs =
     fold (\<lambda>(seq, e) (f, ms). if gp_speculative e then (f, ms)
             else let (f', ms') = bookAbandon rc now seq (fs_source f) ''restart'' f in (f', ms @ ms'))
       (fs_pending fs) (fs, [])"

definition step_old :: "TrackerConfig \<Rightarrow> bool \<Rightarrow> gtime \<Rightarrow> u64 \<Rightarrow> ip option \<Rightarrow> flowState \<Rightarrow> flowState \<times> metric list" where
  "step_old cfg rc now seqNum source fs =
     (let threshold = reset_threshold cfg in
      if source \<noteq> None \<and> seqNum \<le> threshold \<and> fs_lastSeqNum fs > threshold
      then let (fs', ms) = flush_pending rc now fs
        in (fs'\<lparr>fs_pending := [], fs_lastSeqNum := seqNum\<rparr>, ms)
      else (fs, []))"

definition ewma_update :: "dur \<Rightarrow> dur \<Rightarrow> dur" where
  "ewma_update ipg elapsed =
     (if elapsed > 0
      then if ipg = 0 then elapsed else wrap64 (ipg + wrap64 (elapsed - ipg) sdiv 8)
      else ipg)"

definition step_contiguous :: "dur \<Rightarrow> u64 \<Rightarrow> flowState \<Rightarrow> flowState" where
  "step_contiguous elapsed seqNum fs =
     fs\<lparr>fs_ewmaIPG := ewma_update (fs_ewmaIPG fs) elapsed, fs_lastSeqNum := seqNum,
        fs_contiguous := fs_contiguous fs + 1, fs_samples := fs_samples fs + 1\<rparr>"

definition implausible :: "TrackerConfig \<Rightarrow> dur \<Rightarrow> u64 \<Rightarrow> flowState \<Rightarrow> bool" where
  "implausible cfg elapsed missing fs =
     (if missing > max_jump cfg then True
      else if fs_ewmaIPG fs > 0 \<and> missing > 64
      then let expected = word_of_int (elapsed sdiv fs_ewmaIPG fs) in missing > 4 * (expected + 1)
      else False)"

definition transition_tail :: "TrackerConfig \<Rightarrow> dur \<Rightarrow> u64 \<Rightarrow> flowState \<Rightarrow> u64" where
  "transition_tail cfg elapsed missing fs =
     (if fs_ewmaIPG fs > 0 \<and> fs_contiguous fs \<ge> minContiguousForRecover
      then let tail = word_of_int (elapsed sdiv fs_ewmaIPG fs);
               tail = (if tail > missing then missing else tail)
        in if tail > max_jump cfg then max_jump cfg else tail
      else 0)"

definition detected :: "bool \<Rightarrow> flowState \<Rightarrow> ip option \<Rightarrow> gapEntry list \<Rightarrow> metric list" where
  "detected rc fs source es = emits rc (map (\<lambda>_. GapDetected (fs_flowType fs) (srcStr source)) es)"

definition step_rebaseline ::
  "TrackerConfig \<Rightarrow> bool \<Rightarrow> (u64 \<Rightarrow> gapEntry option) \<Rightarrow> dur \<Rightarrow> u64 \<Rightarrow> ip option \<Rightarrow> flowState \<Rightarrow> (flowState \<times> metric list) option" where
  "step_rebaseline cfg rc mk elapsed seqNum source fs =
     (let missing = seqNum - fs_lastSeqNum fs - 1;
          tail = transition_tail cfg elapsed missing fs in
      do { (fs', es) \<leftarrow> register mk (word_range (seqNum - tail) seqNum) (fs\<lparr>fs_pending := []\<rparr>);
           Some (fs'\<lparr>fs_lastSeqNum := seqNum, fs_ewmaIPG := 0, fs_contiguous := 0, fs_samples := 0\<rparr>,
                 detected rc fs' source es @
                 emits rc [SeqRebaselined (fs_flowType fs') (srcStr (fs_source fs'))]) })"

definition step_gap ::
  "bool \<Rightarrow> (u64 \<Rightarrow> gapEntry option) \<Rightarrow> u64 \<Rightarrow> ip option \<Rightarrow> flowState \<Rightarrow> (flowState \<times> metric list) option" where
  "step_gap rc mk seqNum source fs =
     do { (fs', es) \<leftarrow> register mk (word_range (fs_lastSeqNum fs + 1) seqNum) fs;
          Some (fs'\<lparr>fs_lastSeqNum := seqNum, fs_contiguous := 0\<rparr>, detected rc fs' source es) }"

text \<open>What follows the auto-fill: first frame, steps 4 to 6.\<close>

definition advance_stream ::
  "TrackerConfig \<Rightarrow> bool \<Rightarrow> gtime \<Rightarrow> (u64 \<Rightarrow> gapEntry option) \<Rightarrow> dur \<Rightarrow> u64 \<Rightarrow> ip option \<Rightarrow> flowState \<Rightarrow> (flowState \<times> metric list) option" where
  "advance_stream cfg rc now mk elapsed seqNum source fs =
     (if fs_lastSeqNum fs = 0 then Some (fs\<lparr>fs_lastSeqNum := seqNum\<rparr>, [])
      else if seqNum \<le> fs_lastSeqNum fs then Some (step_old cfg rc now seqNum source fs)
      else if seqNum = fs_lastSeqNum fs + 1 then Some (step_contiguous elapsed seqNum fs, [])
      else if implausible cfg elapsed (seqNum - fs_lastSeqNum fs - 1) fs
      then step_rebaseline cfg rc mk elapsed seqNum source fs
      else step_gap rc mk seqNum source fs)"

text \<open>The arrival of a frame, before any sequence logic: owner, clock, probe budget, source.\<close>

definition arrive :: "gtime \<Rightarrow> int \<Rightarrow> ip option \<Rightarrow> flowState \<Rightarrow> flowState" where
  "arrive now owner source fs =
     (let fs = (if owner \<noteq> ownerUnknown then fs\<lparr>fs_owner := owner\<rparr> else fs);
          fs = fs\<lparr>fs_lastSeen := now, fs_probeMisses := 0\<rparr>
      in if source \<noteq> None then fs\<lparr>fs_source := source\<rparr> else fs)"

text \<open>Step 3: the auto-fill of a pending gap; the flag says whether the frame is fully handled.\<close>

definition auto_fill :: "bool \<Rightarrow> u64 \<Rightarrow> flowState \<Rightarrow> bool \<times> flowState \<times> metric list" where
  "auto_fill rc seqNum fs =
     (case map_of (fs_pending fs) seqNum of
        None \<Rightarrow> (False, fs, [])
      | Some e \<Rightarrow>
          let (fs', ms) = bookFill rc e (fs\<lparr>fs_pending := map_del seqNum (fs_pending fs)\<rparr>)
          in (seqNum \<le> fs_lastSeqNum fs', fs', ms))"

definition observe_flow ::
  "TrackerConfig \<Rightarrow> bool \<Rightarrow> gtime \<Rightarrow> (u64 \<Rightarrow> int) \<Rightarrow> int \<Rightarrow> u32 \<Rightarrow> id32 \<Rightarrow> u64 \<Rightarrow> u64 \<Rightarrow> ip option \<Rightarrow> flowState
     \<Rightarrow> (flowState \<times> metric list) option" where
  "observe_flow cfg rc now draw owner groupIdx subtreeID hashKey seqNum source fs =
     (let elapsed = time_sub now (fs_lastSeen fs);
          (fs1, late) = noteLateFill rc seqNum (arrive now owner source fs);
          mk = new_gap cfg now draw hashKey groupIdx subtreeID source (fs_owner fs1);
          (handled, fs2, fill) = auto_fill rc seqNum fs1
      in if handled then Some (fs2, late @ fill)
         else do { (fs3, ms) \<leftarrow> advance_stream cfg rc now mk elapsed seqNum source fs2;
                   Some (fs3, late @ fill @ ms) })"

definition at_flow_cap :: "Tracker \<Rightarrow> bool" where
  "at_flow_cap t \<longleftrightarrow> tc_MaxFlows (tr_cfg t) > 0 \<and> int (length (tr_flows t)) \<ge> tc_MaxFlows (tr_cfg t)"

definition put_flow :: "u64 \<Rightarrow> flowState \<Rightarrow> metric list \<Rightarrow> Tracker \<Rightarrow> Tracker" where
  "put_flow hk fs ms t = t\<lparr>tr_flows := map_put hk fs (tr_flows t), tr_metrics := tr_metrics t @ ms\<rparr>"

definition ObserveFrom ::
  "gtime \<Rightarrow> (u64 \<Rightarrow> int) \<Rightarrow> int \<Rightarrow> u32 \<Rightarrow> id32 \<Rightarrow> u64 \<Rightarrow> u64 \<Rightarrow> ip option \<Rightarrow> Tracker \<Rightarrow> Tracker option" where
  "ObserveFrom now draw owner groupIdx subtreeID hashKey seqNum source t =
     (if seqNum = 0 then Some t
      else let go = (\<lambda>fs. do { (fs', ms) \<leftarrow> observe_flow (tr_cfg t) (tr_rec t) now draw owner groupIdx
                                              subtreeID hashKey seqNum source fs;
                               Some (put_flow hashKey fs' ms t) })
        in case map_of (tr_flows t) hashKey of
             Some fs \<Rightarrow> go fs
           | None \<Rightarrow>
               if at_flow_cap t
               then Some (t\<lparr>tr_flowsRefused := tr_flowsRefused t + 1,
                            tr_metrics := tr_metrics t @ emits (tr_rec t) [FlowsRefused (flowLabel groupIdx)]\<rparr>)
               else go (new_flow groupIdx subtreeID 0))"

definition Observe ::
  "gtime \<Rightarrow> (u64 \<Rightarrow> int) \<Rightarrow> u32 \<Rightarrow> id32 \<Rightarrow> u64 \<Rightarrow> u64 \<Rightarrow> ip option \<Rightarrow> Tracker \<Rightarrow> Tracker option" where
  "Observe now draw = ObserveFrom now draw ownerUnknown"

section \<open>RequestGaps, Fill, Pending\<close>

definition RequestGapsFrom ::
  "gtime \<Rightarrow> (u64 \<Rightarrow> int) \<Rightarrow> int \<Rightarrow> u64 \<Rightarrow> u32 \<Rightarrow> id32 \<Rightarrow> u64 list \<Rightarrow> Tracker \<Rightarrow> Tracker option" where
  "RequestGapsFrom now draw owner hashKey groupIdx subtreeID seqs t =
     (if length seqs = 0 then Some t
      else let go = (\<lambda>fs.
             let fs = (if owner \<noteq> ownerUnknown then fs\<lparr>fs_owner := owner\<rparr> else fs);
                 mk = new_gap (tr_cfg t) now draw hashKey groupIdx subtreeID (fs_source fs) (fs_owner fs)
             in do { (fs', queued) \<leftarrow> register mk seqs fs;
                     let t' = put_flow hashKey fs' (detected (tr_rec t) fs' (fs_source fs') queued) t;
                     Some (t'\<lparr>tr_nackQueue := enqueue_all queued (tr_nackQueue t')\<rparr>) })
        in case map_of (tr_flows t) hashKey of
             Some fs \<Rightarrow> go fs
           | None \<Rightarrow> if at_flow_cap t then Some t else go (new_flow groupIdx subtreeID now))"

definition RequestGaps ::
  "gtime \<Rightarrow> (u64 \<Rightarrow> int) \<Rightarrow> u64 \<Rightarrow> u32 \<Rightarrow> id32 \<Rightarrow> u64 list \<Rightarrow> Tracker \<Rightarrow> Tracker option" where
  "RequestGaps now draw = RequestGapsFrom now draw ownerUnknown"

definition Fill :: "u64 \<Rightarrow> u64 \<Rightarrow> Tracker \<Rightarrow> Tracker" where
  "Fill hashKey seqNum t =
     (if seqNum = 0 then t
      else case map_of (tr_flows t) hashKey of
        None \<Rightarrow> t
      | Some fs \<Rightarrow>
          (case map_of (fs_pending fs) seqNum of
             Some e \<Rightarrow>
               let (fs', ms) = bookFill (tr_rec t) e (fs\<lparr>fs_pending := map_del seqNum (fs_pending fs)\<rparr>)
               in put_flow hashKey fs' ms t
           | None \<Rightarrow> let (fs', ms) = noteLateFill (tr_rec t) seqNum fs in put_flow hashKey fs' ms t))"

definition Pending :: "u64 \<Rightarrow> u64 list \<Rightarrow> Tracker \<Rightarrow> bool" where
  "Pending hashKey seqs t =
     (case map_of (tr_flows t) hashKey of
        None \<Rightarrow> False
      | Some fs \<Rightarrow> list_ex (\<lambda>seq. map_of (fs_pending fs) seq \<noteq> None) seqs)"

definition PendingGaps :: "Tracker \<Rightarrow> nat" where
  "PendingGaps t = sum_list (map (\<lambda>(hk, fs). length (fs_pending fs)) (tr_flows t))"

section \<open>Registration\<close>

lemma register_ConsE:
  assumes "register mk (m # ms) fs = Some (fs', es)"
  obtains (skip) e where "map_of (fs_pending fs) m = Some e" "register mk ms fs = Some (fs', es)"
  | (new) e es1 where "map_of (fs_pending fs) m = None" "mk m = Some e" "es = e # es1"
      "register mk ms (fs\<lparr>fs_pending := map_put m e (fs_pending fs)\<rparr>) = Some (fs', es1)"
  using assms by (cases "map_of (fs_pending fs) m") (auto simp: bind_eq_Some_conv split: prod.splits)

lemma register_append:
  assumes "register mk ms fs = Some (fs', es)" and mk: "\<And>m e. mk m = Some e \<Longrightarrow> gp_seqNum e = m"
  shows "fs' = fs\<lparr>fs_pending := fs_pending fs @ map (\<lambda>e. (gp_seqNum e, e)) es\<rparr>"
  using assms(1)
proof (induction ms arbitrary: fs es)
  case (Cons m ms)
  from Cons.prems show ?case
  proof (cases rule: register_ConsE)
    case (new e es1)
    then show ?thesis
      using Cons.IH [OF new(4)] mk [OF new(2)] by (simp add: map_put_absent map_of_None_iff)
  qed (rule Cons.IH)
qed simp

lemma register_lookup:
  assumes "register mk ms fs = Some (fs', es)"
  shows "map_of (fs_pending fs') k =
    (case map_of (fs_pending fs) k of Some e \<Rightarrow> Some e | None \<Rightarrow> if k \<in> set ms then mk k else None)"
  using assms
proof (induction ms arbitrary: fs es)
  case (Cons m ms)
  from Cons.prems show ?case
  proof (cases rule: register_ConsE)
    case (skip e)
    then show ?thesis using Cons.IH [OF skip(2)] by (auto split: option.splits)
  next
    case (new e es1)
    then show ?thesis using Cons.IH [OF new(4)] by (auto split: option.splits)
  qed
qed (auto split: option.splits)

lemma register_wf:
  assumes "register mk ms fs = Some (fs', es)" and "wf_map (fs_pending fs)"
  shows "wf_map (fs_pending fs')"
  using assms
proof (induction ms arbitrary: fs es)
  case (Cons m ms)
  from Cons.prems(1) show ?case
    by (cases rule: register_ConsE) (use Cons.IH Cons.prems(2) in \<open>auto simp: wf_map_put\<close>)
qed simp

lemma register_entries:
  assumes "register mk ms fs = Some (fs', es)"
  shows "set es \<subseteq> {e. \<exists>m\<in>set ms. mk m = Some e} \<and> length es \<le> length ms"
  using assms
proof (induction ms arbitrary: fs es)
  case (Cons m ms)
  from Cons.prems show ?case by (cases rule: register_ConsE) (use Cons.IH in fastforce)+
qed simp

lemma register_total:
  assumes "\<And>m. \<exists>e. mk m = Some e"
  shows "\<exists>fs' es. register mk ms fs = Some (fs', es)"
proof (induction ms arbitrary: fs)
  case (Cons m ms)
  obtain e where "mk m = Some e" using assms by blast
  then show ?case
    using Cons.IH [of fs] Cons.IH [of "fs\<lparr>fs_pending := map_put m e (fs_pending fs)\<rparr>"]
    by (auto split: option.splits)
qed simp

definition jitter_ok :: "TrackerConfig \<Rightarrow> bool" where
  "jitter_ok cfg \<longleftrightarrow> 0 \<le> tc_JitterMax cfg \<and> tc_JitterMax cfg < max_dur"

lemma jitter_ok_wrap: "jitter_ok cfg \<Longrightarrow> wrap64 (tc_JitterMax cfg + 1) = tc_JitterMax cfg + 1"
  by (simp add: jitter_ok_def min_dur_def max_dur_def)

lemma new_gap_total: "jitter_ok cfg \<Longrightarrow> \<exists>e. new_gap cfg now draw hk g sid src ow m = Some e"
  by (simp add: new_gap_def jitter_ok_wrap) (simp add: jitter_ok_def)

lemma new_gap_fields:
  assumes "new_gap cfg now draw hk g sid src ow m = Some e"
  shows "gp_seqNum e = m" "gp_hashKey e = hk" "gp_owner e = ow" "\<not> gp_speculative e"
    "gp_endpointIdx e = 0" "gp_failRounds e = 0" "gp_deadline e = now + tc_GapTTL cfg"
    "gp_subtreeID e = sid" "gp_groupIdx e = g" "gp_source e = src" "gp_retries e = 0"
  using assms by (auto simp: new_gap_def bind_eq_Some_conv)

lemma new_gap_jitter:
  assumes "new_gap cfg now draw hk g sid src ow m = Some e" and "jitter_ok cfg"
  shows "now \<le> gp_nextAttempt e \<and> gp_nextAttempt e \<le> now + tc_JitterMax cfg"
  using assms by (auto simp: new_gap_def bind_eq_Some_conv jitter_ok_wrap dest!: int64N_Some)

lemmas register_new = register_append [OF _ new_gap_fields(1)]

section \<open>The flow invariant\<close>

definition flow_ok :: "u64 \<Rightarrow> flowState \<Rightarrow> bool" where
  "flow_ok hk fs \<longleftrightarrow> wf_map (fs_pending fs) \<and>
     list_all (\<lambda>(m, e). gp_seqNum e = m \<and> gp_hashKey e = hk) (fs_pending fs) \<and>
     wf_map (fs_abandoned fs) \<and> length (fs_abandoned fs) \<le> abandonedMax \<and>
     fs_flowType fs = flowLabel (fs_groupIdx fs) \<and> 0 \<le> fs_ewmaIPG fs \<and> fs_ewmaIPG fs \<le> max_dur"

named_theorems flow_frame \<open>what a bookkeeping step leaves alone\<close>

lemma bookAbandon_frame [flow_frame, simp]:
  "fs_pending (fst (bookAbandon rc now seq src r fs)) = fs_pending fs"
  "fs_lastSeqNum (fst (bookAbandon rc now seq src r fs)) = fs_lastSeqNum fs"
  "fs_flowType (fst (bookAbandon rc now seq src r fs)) = fs_flowType fs"
  "fs_groupIdx (fst (bookAbandon rc now seq src r fs)) = fs_groupIdx fs"
  "fs_source (fst (bookAbandon rc now seq src r fs)) = fs_source fs"
  "fs_ewmaIPG (fst (bookAbandon rc now seq src r fs)) = fs_ewmaIPG fs"
  "fs_probing (fst (bookAbandon rc now seq src r fs)) = fs_probing fs"
  "fs_owner (fst (bookAbandon rc now seq src r fs)) = fs_owner fs"
  by (simp_all add: bookAbandon_def)

lemma noteLateFill_frame [flow_frame, simp]:
  "fs_pending (fst (noteLateFill rc seq fs)) = fs_pending fs"
  "fs_lastSeqNum (fst (noteLateFill rc seq fs)) = fs_lastSeqNum fs"
  "fs_flowType (fst (noteLateFill rc seq fs)) = fs_flowType fs"
  "fs_groupIdx (fst (noteLateFill rc seq fs)) = fs_groupIdx fs"
  "fs_source (fst (noteLateFill rc seq fs)) = fs_source fs"
  "fs_ewmaIPG (fst (noteLateFill rc seq fs)) = fs_ewmaIPG fs"
  "fs_contiguous (fst (noteLateFill rc seq fs)) = fs_contiguous fs"
  "fs_owner (fst (noteLateFill rc seq fs)) = fs_owner fs"
  by (simp_all add: noteLateFill_def split: option.split)

lemma bookFill_frame [flow_frame, simp]:
  "fs_pending (fst (bookFill rc e fs)) = fs_pending fs"
  "fs_lastSeqNum (fst (bookFill rc e fs)) = fs_lastSeqNum fs"
  "fs_flowType (fst (bookFill rc e fs)) = fs_flowType fs"
  "fs_groupIdx (fst (bookFill rc e fs)) = fs_groupIdx fs"
  "fs_source (fst (bookFill rc e fs)) = fs_source fs"
  "fs_ewmaIPG (fst (bookFill rc e fs)) = fs_ewmaIPG fs"
  "fs_contiguous (fst (bookFill rc e fs)) = fs_contiguous fs"
  "fs_abandoned (fst (bookFill rc e fs)) = fs_abandoned fs"
  "fs_owner (fst (bookFill rc e fs)) = fs_owner fs"
  by (simp_all add: bookFill_def Let_def)

lemma arrive_frame [flow_frame, simp]:
  "fs_pending (arrive now ow src fs) = fs_pending fs"
  "fs_lastSeqNum (arrive now ow src fs) = fs_lastSeqNum fs"
  "fs_flowType (arrive now ow src fs) = fs_flowType fs"
  "fs_groupIdx (arrive now ow src fs) = fs_groupIdx fs"
  "fs_ewmaIPG (arrive now ow src fs) = fs_ewmaIPG fs"
  "fs_contiguous (arrive now ow src fs) = fs_contiguous fs"
  "fs_abandoned (arrive now ow src fs) = fs_abandoned fs"
  by (simp_all add: arrive_def Let_def)

lemma auto_fill_frame [flow_frame, simp]:
  "fs_pending (fst (snd (auto_fill rc seq fs))) = map_del seq (fs_pending fs)"
  "fs_lastSeqNum (fst (snd (auto_fill rc seq fs))) = fs_lastSeqNum fs"
  "fs_flowType (fst (snd (auto_fill rc seq fs))) = fs_flowType fs"
  "fs_groupIdx (fst (snd (auto_fill rc seq fs))) = fs_groupIdx fs"
  "fs_source (fst (snd (auto_fill rc seq fs))) = fs_source fs"
  "fs_ewmaIPG (fst (snd (auto_fill rc seq fs))) = fs_ewmaIPG fs"
  "fs_contiguous (fst (snd (auto_fill rc seq fs))) = fs_contiguous fs"
  "fs_abandoned (fst (snd (auto_fill rc seq fs))) = fs_abandoned fs"
  "fs_owner (fst (snd (auto_fill rc seq fs))) = fs_owner fs"
  by (simp_all add: auto_fill_def split_beta map_del_absent map_of_None_iff split: option.split)

lemma flow_ok_pending_del [wf_intros]:
  "flow_ok hk fs \<Longrightarrow> flow_ok hk (fs\<lparr>fs_pending := map_del m (fs_pending fs)\<rparr>)"
  using set_del_subset [of m "fs_pending fs"] by (auto simp: flow_ok_def list_all_iff)

lemma flow_ok_cong:
  assumes "flow_ok hk fs" and "fs_pending fs' = fs_pending fs" and "fs_abandoned fs' = fs_abandoned fs"
    and "fs_flowType fs' = fs_flowType fs" and "fs_groupIdx fs' = fs_groupIdx fs"
    and "fs_ewmaIPG fs' = fs_ewmaIPG fs"
  shows "flow_ok hk fs'"
  using assms by (simp add: flow_ok_def)

lemma flow_ok_bookAbandon [wf_intros]:
  "flow_ok hk fs \<Longrightarrow> flow_ok hk (fst (bookAbandon rc now seq src r fs))"
  by (auto simp: flow_ok_def bookAbandon_def length_put abandonedMax_def)

lemma flow_ok_noteLateFill [wf_intros]: "flow_ok hk fs \<Longrightarrow> flow_ok hk (fst (noteLateFill rc seq fs))"
  using length_del_le [of seq "fs_abandoned fs"]
  by (auto simp: flow_ok_def noteLateFill_def split: option.split)

lemma flow_ok_bookFill [wf_intros]: "flow_ok hk fs \<Longrightarrow> flow_ok hk (fst (bookFill rc e fs))"
  by (erule flow_ok_cong) simp_all

lemma flow_ok_arrive [wf_intros]: "flow_ok hk fs \<Longrightarrow> flow_ok hk (arrive now ow src fs)"
  by (erule flow_ok_cong) simp_all

lemma flow_ok_auto_fill [wf_intros]: "flow_ok hk fs \<Longrightarrow> flow_ok hk (fst (snd (auto_fill rc seq fs)))"
  by (drule flow_ok_pending_del [of _ _ seq], erule flow_ok_cong) simp_all

lemma flow_ok_new [wf_intros]: "flow_ok hk (new_flow g sid seen)"
  by (simp add: flow_ok_def new_flow_def max_dur_def)

lemma flush_pending_fold:
  fixes fs :: flowState
  assumes "flow_ok hk f"
  shows "let r = fold (\<lambda>(seq, e) (f, ms). if gp_speculative e then (f, ms)
             else let (f', ms') = bookAbandon rc now seq (fs_source f) ''restart'' f in (f', ms @ ms'))
             ps (f, ms0) in flow_ok hk (fst r) \<and> fs_lastSeqNum (fst r) = fs_lastSeqNum f \<and>
             fs_flowType (fst r) = fs_flowType f \<and> fs_groupIdx (fst r) = fs_groupIdx f"
  using assms
proof (induction ps arbitrary: f ms0)
  case (Cons p ps)
  obtain seq e where p: "p = (seq, e)" by force
  show ?case
    using Cons.IH [OF Cons.prems] Cons.IH [OF flow_ok_bookAbandon [OF Cons.prems]] p
    by (auto simp: Let_def split_beta)
qed simp

lemma sdiv8_bounds:
  fixes x :: int
  shows "min 0 x \<le> x sdiv 8" "x sdiv 8 \<le> max 0 x" "x < 0 \<Longrightarrow> x < x sdiv 8"
proof -
  have eq: "x sdiv 8 = (if 0 \<le> x then x div 8 else - ((- x) div 8))"
    by (simp add: signed_divide_int_def sgn_if)
  show "min 0 x \<le> x sdiv 8" "x sdiv 8 \<le> max 0 x" "x < 0 \<Longrightarrow> x < x sdiv 8"
    unfolding eq by (simp_all split: if_split, linarith+)
qed

lemma ewma_update_range:
  assumes "0 \<le> ipg" "ipg \<le> max_dur" "elapsed \<le> max_dur"
  shows "0 \<le> ewma_update ipg elapsed \<and> ewma_update ipg elapsed \<le> max_dur"
proof (cases "elapsed > 0 \<and> ipg \<noteq> 0")
  case True
  have w: "wrap64 (elapsed - ipg) = elapsed - ipg"
    using True assms by (intro wrap64_id) (auto simp: min_dur_def max_dur_def)
  obtain d where d: "d = (elapsed - ipg) sdiv 8" "min 0 (elapsed - ipg) \<le> d" "d \<le> max 0 (elapsed - ipg)"
    using sdiv8_bounds by blast
  have r: "0 \<le> ipg + d" "ipg + d \<le> max_dur" using d(2,3) True assms by linarith+
  then have "wrap64 (ipg + d) = ipg + d" by (intro wrap64_id) (simp_all add: min_dur_def)
  then show ?thesis using True w r d(1) by (simp add: ewma_update_def)
next
  case False
  then show ?thesis using assms by (auto simp: ewma_update_def)
qed

end
