(* ===== verification/Tracker_Detect.thy ===== *)
theory Tracker_Detect
  imports Tracker_Observe
begin

text \<open>
  What gap detection guarantees: the invariant of the flow table, exact registration of the
  missing sequence numbers, the bound on how many one frame can register, the restart and repair
  rules, and the ledger of detected, suppressed and unrecovered gaps.
\<close>

section \<open>Shape of an observation\<close>

definition observed :: "bool \<Rightarrow> gtime \<Rightarrow> int \<Rightarrow> u64 \<Rightarrow> ip option \<Rightarrow> flowState \<Rightarrow> flowState" where
  "observed rc now ow seq src fs =
     fst (snd (auto_fill rc seq (fst (noteLateFill rc seq (arrive now ow src fs)))))"

lemma observed_frame [simp]:
  "fs_pending (observed rc now ow seq src fs) = map_del seq (fs_pending fs)"
  "fs_lastSeqNum (observed rc now ow seq src fs) = fs_lastSeqNum fs"
  "fs_flowType (observed rc now ow seq src fs) = fs_flowType fs"
  "fs_groupIdx (observed rc now ow seq src fs) = fs_groupIdx fs"
  "fs_ewmaIPG (observed rc now ow seq src fs) = fs_ewmaIPG fs"
  "fs_contiguous (observed rc now ow seq src fs) = fs_contiguous fs"
  "fs_owner (observed rc now ow seq src fs) = (if ow \<noteq> ownerUnknown then ow else fs_owner fs)"
  "fs_source (observed rc now ow seq src fs) = (if src \<noteq> None then src else fs_source fs)"
  by (simp_all add: observed_def) (simp_all add: arrive_def Let_def)

lemma flow_ok_observed [wf_intros]: "flow_ok hk fs \<Longrightarrow> flow_ok hk (observed rc now ow seq src fs)"
  unfolding observed_def by (intro wf_intros)

text \<open>Counters booked before the stream logic: a late fill and an auto-fill.\<close>

definition fill_metrics :: "bool \<Rightarrow> gtime \<Rightarrow> int \<Rightarrow> u64 \<Rightarrow> ip option \<Rightarrow> flowState \<Rightarrow> metric list" where
  "fill_metrics rc now ow seq src fs =
     (let r = noteLateFill rc seq (arrive now ow src fs) in snd r @ snd (snd (auto_fill rc seq (fst r))))"

lemma observe_flow_eq:
  "observe_flow cfg rc now draw ow g sid hk seq src fs =
     (if map_of (fs_pending fs) seq \<noteq> None \<and> seq \<le> fs_lastSeqNum fs
      then Some (observed rc now ow seq src fs, fill_metrics rc now ow seq src fs)
      else do { (fs', ms) \<leftarrow> advance_stream cfg rc now
                  (new_gap cfg now draw hk g sid src (if ow \<noteq> ownerUnknown then ow else fs_owner fs))
                  (time_sub now (fs_lastSeen fs)) seq src (observed rc now ow seq src fs);
                Some (fs', fill_metrics rc now ow seq src fs @ ms) })"
proof -
  have h: "fst (auto_fill rc seq (fst (noteLateFill rc seq (arrive now ow src fs)))) \<longleftrightarrow>
      map_of (fs_pending fs) seq \<noteq> None \<and> seq \<le> fs_lastSeqNum fs"
    by (simp add: auto_fill_def split_beta split: option.split)
  have ow: "fs_owner (arrive now ow src fs) = (if ow \<noteq> ownerUnknown then ow else fs_owner fs)"
    by (simp add: arrive_def Let_def)
  show ?thesis
    unfolding observe_flow_def observed_def fill_metrics_def Let_def split_beta using h ow by simp
qed

section \<open>Invariant\<close>

lemma flow_ok_register:
  assumes ok: "flow_ok hk fs" and r: "register (new_gap cfg now draw hk g sid src ow) ms fs = Some (fs', es)"
  shows "flow_ok hk fs'"
proof -
  have "gp_hashKey e = hk" if "e \<in> set es" for e
    using register_entries [OF r] that by (auto dest: new_gap_fields(2))
  then show ?thesis
    using register_new [OF r] register_wf [OF r] ok by (auto simp: flow_ok_def list_all_iff)
qed

lemma flow_ok_step_old [wf_intros]: "flow_ok hk fs \<Longrightarrow> flow_ok hk (fst (step_old cfg rc now seq src fs))"
  using flush_pending_fold [of hk fs rc now "fs_pending fs" "[]"]
  by (auto simp: step_old_def Let_def flush_pending_def split_beta flow_ok_def)

lemma flow_ok_advance_stream:
  assumes ok: "flow_ok hk fs"
    and r: "advance_stream cfg rc now (new_gap cfg now draw hk g sid src ow) el seq src' fs = Some (fs', ms)"
    and el: "el \<le> max_dur"
  shows "flow_ok hk fs'"
proof -
  have ew: "0 \<le> ewma_update (fs_ewmaIPG fs) el \<and> ewma_update (fs_ewmaIPG fs) el \<le> max_dur"
    using ewma_update_range [of "fs_ewmaIPG fs" el] ok el by (simp add: flow_ok_def)
  have e: "flow_ok hk (fs\<lparr>fs_pending := []\<rparr>)" using ok by (simp add: flow_ok_def)
  consider "fs_lastSeqNum fs = 0" | "fs_lastSeqNum fs \<noteq> 0" "seq \<le> fs_lastSeqNum fs"
    | "fs' = step_contiguous el seq fs"
    | "step_rebaseline cfg rc (new_gap cfg now draw hk g sid src ow) el seq src' fs = Some (fs', ms)"
    | "step_gap rc (new_gap cfg now draw hk g sid src ow) seq src' fs = Some (fs', ms)"
    using r by (auto simp: advance_stream_def split: if_splits)
  then show ?thesis
  proof cases
    case 1
    then show ?thesis using r ok by (auto simp: advance_stream_def flow_ok_def)
  next
    case 2
    then show ?thesis using r flow_ok_step_old [OF ok, of cfg rc now seq src']
      by (auto simp: advance_stream_def)
  next
    case 3
    then show ?thesis using ok ew by (simp add: step_contiguous_def flow_ok_def)
  next
    case 4
    then obtain f es ms' where "register (new_gap cfg now draw hk g sid src ow) ms' (fs\<lparr>fs_pending := []\<rparr>) = Some (f, es)"
      "fs' = f\<lparr>fs_lastSeqNum := seq, fs_ewmaIPG := 0, fs_contiguous := 0, fs_samples := 0\<rparr>"
      by (auto simp: step_rebaseline_def Let_def bind_eq_Some_conv split: prod.splits)
    then show ?thesis using flow_ok_register [OF e] by (simp add: flow_ok_def max_dur_def)
  next
    case 5
    then obtain f es ms' where "register (new_gap cfg now draw hk g sid src ow) ms' fs = Some (f, es)"
      "fs' = f\<lparr>fs_lastSeqNum := seq, fs_contiguous := 0\<rparr>"
      by (auto simp: step_gap_def bind_eq_Some_conv split: prod.splits)
    then show ?thesis using flow_ok_register [OF ok] by (simp add: flow_ok_def)
  qed
qed

lemma flow_ok_observe_flow:
  "flow_ok hk fs \<Longrightarrow> observe_flow cfg rc now draw ow g sid hk seq src fs = Some (fs', ms) \<Longrightarrow> flow_ok hk fs'"
  using flow_ok_advance_stream [OF flow_ok_observed, of hk fs, OF _ _ time_sub_bounds(2)]
  by (auto simp: observe_flow_eq bind_eq_Some_conv intro: flow_ok_observed split: if_splits prod.splits)

lemma advance_stream_total:
  assumes "\<And>m. \<exists>e. mk m = Some e"
  shows "\<exists>fs' ms. advance_stream cfg rc now mk el seq src fs = Some (fs', ms)"
  using register_total [OF assms] prod.exhaust_sel [of "step_old cfg rc now seq src fs"]
  by (auto simp: advance_stream_def step_rebaseline_def step_gap_def Let_def bind_eq_Some_conv)

lemma observe_flow_total:
  assumes "jitter_ok cfg"
  shows "\<exists>fs' ms. observe_flow cfg rc now draw ow g sid hk seq src fs = Some (fs', ms)"
proof -
  obtain fs' ms where "advance_stream cfg rc now
      (new_gap cfg now draw hk g sid src (if ow \<noteq> ownerUnknown then ow else fs_owner fs))
      (time_sub now (fs_lastSeen fs)) seq src (observed rc now ow seq src fs) = Some (fs', ms)"
    using advance_stream_total
      [of "new_gap cfg now draw hk g sid src (if ow \<noteq> ownerUnknown then ow else fs_owner fs)"]
      new_gap_total [OF assms] by blast
  then show ?thesis by (simp add: observe_flow_eq del: split_paired_Ex)
qed

section \<open>The tracker invariant\<close>

definition tracker_ok :: "Tracker \<Rightarrow> bool" where
  "tracker_ok t \<longleftrightarrow> wf_map (tr_flows t) \<and> list_all (\<lambda>(hk, fs). flow_ok hk fs) (tr_flows t) \<and>
     (tc_MaxFlows (tr_cfg t) > 0 \<longrightarrow> int (length (tr_flows t)) \<le> tc_MaxFlows (tr_cfg t)) \<and>
     length (tr_nackQueue t) \<le> nackQueueCap \<and> length (tr_inflight t) \<le> tr_maxConcurrent t \<and>
     registry_ok (tr_registry t)"

lemma tracker_ok_flow: "tracker_ok t \<Longrightarrow> map_of (tr_flows t) hk = Some fs \<Longrightarrow> flow_ok hk fs"
  by (auto simp: tracker_ok_def list_all_iff dest: map_of_SomeD)

lemma tracker_ok_put_flow:
  assumes "tracker_ok t" and "flow_ok hk fs" and "map_of (tr_flows t) hk \<noteq> None \<or> \<not> at_flow_cap t"
  shows "tracker_ok (put_flow hk fs ms t)"
  using assms
  by (auto simp: tracker_ok_def put_flow_def list_all_iff at_flow_cap_def length_put map_of_None_iff
      dest!: subsetD [OF set_put_subset])

text \<open>The three outcomes of an observation: ignored, refused at the flow cap, or handled by a flow.\<close>

definition found_flow :: "u64 \<Rightarrow> u32 \<Rightarrow> id32 \<Rightarrow> gtime \<Rightarrow> Tracker \<Rightarrow> flowState option" where
  "found_flow hk g sid seen t =
     (case map_of (tr_flows t) hk of
        Some fs \<Rightarrow> Some fs
      | None \<Rightarrow> if at_flow_cap t then None else Some (new_flow g sid seen))"

lemma ObserveFrom_unstamped: "ObserveFrom now draw ow g sid hk 0 src t = Some t"
  by (simp add: ObserveFrom_def)

lemma ObserveFrom_refused:
  assumes "seq \<noteq> 0" and "found_flow hk g sid 0 t = None"
  shows "ObserveFrom now draw ow g sid hk seq src t =
    Some (t\<lparr>tr_flowsRefused := tr_flowsRefused t + 1,
            tr_metrics := tr_metrics t @ emits (tr_rec t) [FlowsRefused (flowLabel g)]\<rparr>)"
  unfolding ObserveFrom_def Let_def
  using assms by (simp add: found_flow_def split: option.splits if_splits)

lemma ObserveFrom_flow:
  assumes "seq \<noteq> 0" and "found_flow hk g sid 0 t = Some fs"
  shows "ObserveFrom now draw ow g sid hk seq src t =
    do { (fs', ms) \<leftarrow> observe_flow (tr_cfg t) (tr_rec t) now draw ow g sid hk seq src fs;
         Some (put_flow hk fs' ms t) }"
  unfolding ObserveFrom_def Let_def
  using assms by (cases "map_of (tr_flows t) hk") (simp_all add: found_flow_def split: if_splits)

lemma ObserveFrom_cases:
  assumes r: "ObserveFrom now draw ow g sid hk seq src t = Some t'"
  obtains (unstamped) "seq = 0" "t' = t"
  | (refused) "seq \<noteq> 0" "found_flow hk g sid 0 t = None"
      "t' = t\<lparr>tr_flowsRefused := tr_flowsRefused t + 1,
              tr_metrics := tr_metrics t @ emits (tr_rec t) [FlowsRefused (flowLabel g)]\<rparr>"
  | (flow) fs fs' ms where "seq \<noteq> 0" "found_flow hk g sid 0 t = Some fs"
      "observe_flow (tr_cfg t) (tr_rec t) now draw ow g sid hk seq src fs = Some (fs', ms)"
      "t' = put_flow hk fs' ms t"
proof (cases "seq = 0")
  case True
  show thesis by (rule unstamped) (use r True in \<open>simp_all add: ObserveFrom_unstamped\<close>)
next
  case seq: False
  show thesis
  proof (cases "found_flow hk g sid 0 t")
    case None
    show thesis by (rule refused) (use r seq None ObserveFrom_refused [OF seq None] in simp_all)
  next
    case (Some fs)
    obtain fs' ms where o: "observe_flow (tr_cfg t) (tr_rec t) now draw ow g sid hk seq src fs = Some (fs', ms)"
      using r ObserveFrom_flow [OF seq Some] by (cases "observe_flow (tr_cfg t) (tr_rec t) now draw ow g sid hk seq src fs") auto
    show thesis by (rule flow [OF seq Some o]) (use r ObserveFrom_flow [OF seq Some] o in simp)
  qed
qed

lemma found_flow_ok: "tracker_ok t \<Longrightarrow> found_flow hk g sid seen t = Some fs \<Longrightarrow> flow_ok hk fs"
  by (auto simp: found_flow_def tracker_ok_flow flow_ok_new split: option.splits if_splits)

lemma tracker_ok_put_found:
  "tracker_ok t \<Longrightarrow> found_flow hk g sid seen t = Some fs0 \<Longrightarrow> flow_ok hk fs \<Longrightarrow> tracker_ok (put_flow hk fs ms t)"
  by (rule tracker_ok_put_flow) (auto simp: found_flow_def split: option.splits if_splits)

lemma tracker_ok_ObserveFrom [wf_intros]:
  assumes ok: "tracker_ok t" and r: "ObserveFrom now draw ow g sid hk seq src t = Some t'"
  shows "tracker_ok t'"
  using r
proof (cases rule: ObserveFrom_cases)
  case refused
  then show ?thesis using ok by (simp add: tracker_ok_def)
next
  case (flow fs fs' ms)
  then show ?thesis
    using flow_ok_observe_flow [OF found_flow_ok [OF ok flow(2)] flow(3)] tracker_ok_put_found [OF ok flow(2)] by simp
qed (use ok in simp)

lemma ObserveFrom_total:
  assumes "jitter_ok (tr_cfg t)"
  shows "\<exists>t'. ObserveFrom now draw ow g sid hk seq src t = Some t'"
proof (cases "seq = 0")
  case True
  then show ?thesis by (simp add: ObserveFrom_unstamped)
next
  case seq: False
  show ?thesis
  proof (cases "found_flow hk g sid 0 t")
    case None
    then show ?thesis using ObserveFrom_refused [OF seq None] by blast
  next
    case (Some fs)
    obtain fs' ms where "observe_flow (tr_cfg t) (tr_rec t) now draw ow g sid hk seq src fs = Some (fs', ms)"
      using observe_flow_total [OF assms] by blast
    then show ?thesis using ObserveFrom_flow [OF seq Some] by simp
  qed
qed

section \<open>A concrete tracker\<close>

definition demo_cfg :: TrackerConfig where
  "demo_cfg = \<lparr>tc_JitterMax = 200 * millisecond, tc_BackoffBase = 500 * millisecond, tc_BackoffMax = 5 * second,
     tc_MaxRetries = 5, tc_GapTTL = 600 * second, tc_TailTTL = 0, tc_SeqResetThreshold = 100, tc_MaxFlows = 2,
     tc_MaxForwardJump = 0, tc_TailProbe = True, tc_TailProbeIdleFactor = 4, tc_TailProbeMinIdle = 0,
     tc_TailProbeMaxMisses = 0\<rparr>"

definition demo_flow :: flowState where
  "demo_flow = (new_flow 3 7 (20 * second))\<lparr>fs_lastSeqNum := 5, fs_source := Some 1\<rparr>"

definition demo_tracker :: Tracker where
  "demo_tracker = (New_Tracker demo_cfg [''[fd00::1]:9300'', ''[fd00::2]:9300''] True None)\<lparr>tr_flows := [(42, demo_flow)]\<rparr>"

lemma demo_tracker_run:
  "ObserveFrom (20 * second) (\<lambda>_. 0) ownerUnknown 3 7 42 5 (Some 1)
     (New_Tracker demo_cfg [''[fd00::1]:9300'', ''[fd00::2]:9300''] True None) = Some demo_tracker"
  by (simp add: demo_tracker_def demo_flow_def ObserveFrom_def New_Tracker_def demo_cfg_def at_flow_cap_def Let_def
     observe_flow_def noteLateFill_def arrive_def auto_fill_def advance_stream_def new_flow_def put_flow_def millisecond_def)

lemma demo_tracker_sel: "tr_flows demo_tracker = [(42, demo_flow)]" "tr_cfg demo_tracker = demo_cfg" "tr_rec demo_tracker"
  "fs_lastSeqNum demo_flow = 5" "fs_lastSeen demo_flow = 20 * second" "fs_pending demo_flow = []" "fs_ewmaIPG demo_flow = 0"
  by (simp_all add: demo_tracker_def demo_flow_def New_Tracker_def demo_cfg_def new_flow_def millisecond_def)

lemma demo_jitter: "jitter_ok demo_cfg" 
  by (simp add: jitter_ok_def demo_cfg_def millisecond_def max_dur_def)

lemma tracker_ok_New [wf_intros]:
  assumes "case registry of None \<Rightarrow> True | Some r \<Rightarrow> registry_ok r"
  shows "tracker_ok (New_Tracker cfg eps rc registry)"
  using assms
  by (auto simp: tracker_ok_def New_Tracker_def Let_def registry_ok_NewRegistry intro: registry_ok_Seed split: option.splits)

lemma demo_tracker_ok: "tracker_ok demo_tracker"
  by (rule tracker_ok_ObserveFrom [OF tracker_ok_New demo_tracker_run]) simp

section \<open>What one frame changes\<close>

lemma unat_missing:
  fixes l s :: u64
  assumes "l < s"
  shows "unat (s - l - 1) = unat s - unat l - 1"
proof -
  have d: "unat (s - l) = unat s - unat l" using assms by (simp add: unat_sub less_imp_le)
  then have "1 \<le> s - l" using assms by (simp add: word_le_nat_alt word_less_nat_alt)
  then show ?thesis using d by (simp add: unat_sub)
qed

lemma step_rebaselineE:
  assumes "step_rebaseline cfg rc mk el seq src fs = Some (fs', ms)"
  obtains f es where
    "register mk (word_range (seq - transition_tail cfg el (seq - fs_lastSeqNum fs - 1) fs) seq) (fs\<lparr>fs_pending := []\<rparr>) = Some (f, es)"
    "fs' = f\<lparr>fs_lastSeqNum := seq, fs_ewmaIPG := 0, fs_contiguous := 0, fs_samples := 0\<rparr>"
    "ms = detected rc f src es @ emits rc [SeqRebaselined (fs_flowType f) (srcStr (fs_source f))]"
  using assms by (auto simp: step_rebaseline_def Let_def bind_eq_Some_conv split: prod.splits)

lemma step_gapE:
  assumes "step_gap rc mk seq src fs = Some (fs', ms)"
  obtains f es where "register mk (word_range (fs_lastSeqNum fs + 1) seq) fs = Some (f, es)"
    "fs' = f\<lparr>fs_lastSeqNum := seq, fs_contiguous := 0\<rparr>" "ms = detected rc f src es"
  using assms by (auto simp: step_gap_def bind_eq_Some_conv split: prod.splits)

text \<open>The five ways the stream logic can end.\<close>

lemma advance_streamE:
  assumes "advance_stream cfg rc now mk el seq src fs = Some (fs', ms)"
  obtains (first) "fs_lastSeqNum fs = 0" "fs' = fs\<lparr>fs_lastSeqNum := seq\<rparr>" "ms = []"
  | (old) "fs_lastSeqNum fs \<noteq> 0" "seq \<le> fs_lastSeqNum fs" "step_old cfg rc now seq src fs = (fs', ms)"
  | (contiguous) "fs_lastSeqNum fs < seq" "fs' = step_contiguous el seq fs" "ms = []"
  | (rebaseline) "fs_lastSeqNum fs < seq" "step_rebaseline cfg rc mk el seq src fs = Some (fs', ms)"
  | (gap) "fs_lastSeqNum fs < seq" "\<not> implausible cfg el (seq - fs_lastSeqNum fs - 1) fs"
      "step_gap rc mk seq src fs = Some (fs', ms)"
  using assms by (auto simp: advance_stream_def split: if_splits)

lemma flush_pending_frame: "fs_pending (fst (flush_pending rc now fs)) = fs_pending fs"
proof -
  have "fs_pending (fst (fold (\<lambda>(seq, e) (f, ms). if gp_speculative e then (f, ms)
             else let (f', ms') = bookAbandon rc now seq (fs_source f) ''restart'' f in (f', ms @ ms'))
             ps (f, ms0))) = fs_pending f" for ps f ms0
    by (induction ps arbitrary: f ms0) (auto simp: Let_def split_beta)
  then show ?thesis by (simp add: flush_pending_def)
qed

lemma step_old_pending:
  "fs_pending (fst (step_old cfg rc now seq src fs)) =
     (if src \<noteq> None \<and> seq \<le> reset_threshold cfg \<and> reset_threshold cfg < fs_lastSeqNum fs then [] else fs_pending fs)"
  by (auto simp: step_old_def Let_def split_beta flush_pending_frame)

lemma advance_not_pending:
  assumes "advance_stream cfg rc now mk el seq src fs = Some (fs', ms)" and "map_of (fs_pending fs) seq = None"
  shows "map_of (fs_pending fs') seq = None"
  using assms(1)
proof (cases rule: advance_streamE)
  case old
  then show ?thesis using step_old_pending [of cfg rc now seq src fs] assms(2) by (auto split: if_splits)
next
  case rebaseline
  from rebaseline(2) show ?thesis
    by (rule step_rebaselineE) (simp add: register_lookup)
next
  case gap
  from gap(3) show ?thesis
    by (rule step_gapE) (simp add: register_lookup assms(2))
qed (use assms(2) in \<open>simp_all add: step_contiguous_def\<close>)

lemma observe_not_pending:
  assumes "observe_flow cfg rc now draw ow g sid hk seq src fs = Some (fs', ms)"
  shows "map_of (fs_pending fs') seq = None"
  using assms advance_not_pending
  by (auto simp: observe_flow_eq bind_eq_Some_conv split: if_splits prod.splits)

lemma transition_tail_le:
  "transition_tail cfg el missing fs \<le> missing" "transition_tail cfg el missing fs \<le> max_jump cfg"
  by (auto simp: transition_tail_def Let_def)

lemma advance_pending_bound:
  assumes "advance_stream cfg rc now (new_gap cfg now draw hk g sid src' ow) el seq src fs = Some (fs', ms)"
  shows "length (fs_pending fs') \<le> length (fs_pending fs) + unat (max_jump cfg)"
  using assms
proof (cases rule: advance_streamE)
  case old
  then show ?thesis using step_old_pending [of cfg rc now seq src fs] by (auto split: if_splits)
next
  case rebaseline
  let ?t = "transition_tail cfg el (seq - fs_lastSeqNum fs - 1) fs"
  have "?t \<le> seq - fs_lastSeqNum fs - 1" by (rule transition_tail_le)
  then have "unat ?t \<le> unat seq"
    using unat_missing [OF rebaseline(1)] by (simp add: word_le_nat_alt)
  then have "unat seq - unat (seq - ?t) \<le> unat (max_jump cfg)"
    using transition_tail_le(2) [of cfg el "seq - fs_lastSeqNum fs - 1" fs]
    by (simp add: unat_sub word_le_nat_alt)
  with rebaseline(2) show ?thesis
    by (elim step_rebaselineE) (use register_entries register_new in fastforce)
next
  case gap
  have "unat (seq - fs_lastSeqNum fs - 1) \<le> unat (max_jump cfg)"
    using gap(2) by (auto simp: implausible_def word_less_nat_alt not_less split: if_splits)
  then have "unat seq - unat (fs_lastSeqNum fs + 1) \<le> unat (max_jump cfg)"
    using unat_missing [OF gap(1)] word_succ_unat [OF gap(1)] by simp
  with gap(3) show ?thesis
    by (elim step_gapE) (use register_entries register_new in fastforce)
qed (simp_all add: step_contiguous_def)

lemma observe_pending_bound:
  assumes "observe_flow cfg rc now draw ow g sid hk seq src fs = Some (fs', ms)"
  shows "length (fs_pending fs') \<le> length (fs_pending fs) + unat (max_jump cfg)"
proof -
  have d: "length (map_del seq (fs_pending fs)) \<le> length (fs_pending fs)" by (rule length_del_le)
  consider "fs' = observed rc now ow seq src fs" | ms' where "advance_stream cfg rc now
      (new_gap cfg now draw hk g sid src (if ow \<noteq> ownerUnknown then ow else fs_owner fs))
      (time_sub now (fs_lastSeen fs)) seq src (observed rc now ow seq src fs) = Some (fs', ms')"
    using assms by (auto simp: observe_flow_eq bind_eq_Some_conv split: if_splits prod.splits)
  then show ?thesis
  proof cases
    case 2
    from advance_pending_bound [OF 2] d show ?thesis by simp
  qed (use d in simp)
qed

section \<open>Exact registration\<close>

text \<open>A gap as it is registered: everything fresh, the first attempt inside the jitter window.\<close>

definition fresh_gap :: "TrackerConfig \<Rightarrow> gtime \<Rightarrow> u64 \<Rightarrow> id32 \<Rightarrow> int \<Rightarrow> u64 \<Rightarrow> gapEntry \<Rightarrow> bool" where
  "fresh_gap cfg now hk sid ow m e \<longleftrightarrow> gp_seqNum e = m \<and> gp_hashKey e = hk \<and> gp_subtreeID e = sid \<and>
     gp_owner e = ow \<and> now \<le> gp_nextAttempt e \<and> gp_nextAttempt e \<le> now + tc_JitterMax cfg \<and>
     gp_deadline e = now + tc_GapTTL cfg \<and> gp_endpointIdx e = 0 \<and> gp_failRounds e = 0 \<and> \<not> gp_speculative e"

lemma new_gap_fresh:
  "new_gap cfg now draw hk g sid src ow m = Some e \<Longrightarrow> jitter_ok cfg \<Longrightarrow> fresh_gap cfg now hk sid ow m e"
  using new_gap_fields [of cfg now draw hk g sid src ow m e] new_gap_jitter [of cfg now draw hk g sid src ow m e]
  by (simp add: fresh_gap_def)

lemma gap_range_iff:
  fixes l s m :: u64
  assumes "l < s"
  shows "m \<in> set (word_range (l + 1) s) \<longleftrightarrow> l < m \<and> m < s"
  using word_succ_unat [OF assms] by (auto simp: word_le_nat_alt word_less_nat_alt)

lemma implausible_cong:
  "fs_ewmaIPG f = fs_ewmaIPG fs \<Longrightarrow> implausible cfg el m f = implausible cfg el m fs"
  by (simp only: implausible_def)

lemma observe_flow_gap:
  assumes last: "fs_lastSeqNum fs \<noteq> 0" "fs_lastSeqNum fs < seq" "seq \<noteq> fs_lastSeqNum fs + 1"
    and pl: "\<not> implausible cfg (time_sub now (fs_lastSeen fs)) (seq - fs_lastSeqNum fs - 1) fs"
    and j: "jitter_ok cfg"
  shows "\<exists>fs' ms. observe_flow cfg rc now draw ow g sid hk seq src fs = Some (fs', ms) \<and>
    fs_lastSeqNum fs' = seq \<and>
    (\<forall>m. map_of (fs_pending fs') m =
       (if m = seq then None
        else case map_of (fs_pending fs) m of
          Some e \<Rightarrow> Some e
        | None \<Rightarrow> if fs_lastSeqNum fs < m \<and> m < seq
                  then new_gap cfg now draw hk g sid src (if ow \<noteq> ownerUnknown then ow else fs_owner fs) m
                  else None))"
proof -
  let ?mk = "new_gap cfg now draw hk g sid src (if ow \<noteq> ownerUnknown then ow else fs_owner fs)"
  let ?f = "observed rc now ow seq src fs"
  have nle: "\<not> seq \<le> fs_lastSeqNum fs" using last(2) by (simp add: not_le)
  have pl': "\<not> implausible cfg (time_sub now (fs_lastSeen fs)) (seq - fs_lastSeqNum ?f - 1) ?f"
    using pl implausible_cong [of ?f fs] by simp
  obtain f es where r: "register ?mk (word_range (fs_lastSeqNum ?f + 1) seq) ?f = Some (f, es)"
    using register_total [OF new_gap_total [OF j], of "\<lambda>_. now" "\<lambda>_. draw" "\<lambda>_. hk" "\<lambda>_. g" "\<lambda>_. sid" "\<lambda>_. src"
      "\<lambda>_. if ow \<noteq> ownerUnknown then ow else fs_owner fs" "\<lambda>m. m"] by blast
  have "observe_flow cfg rc now draw ow g sid hk seq src fs =
      Some (f\<lparr>fs_lastSeqNum := seq, fs_contiguous := 0\<rparr>, fill_metrics rc now ow seq src fs @ detected rc f src es)"
    using last nle pl' r by (simp add: observe_flow_eq advance_stream_def step_gap_def)
  then show ?thesis
    using register_lookup [OF r] gap_range_iff [OF last(2)]
    by (auto simp: split: option.splits)
qed

text \<open>
  C3. When a frame arrives on an established flow beyond the next expected number, and the jump
  is plausible, \<^verbatim>\<open>ObserveFrom\<close> registers exactly the missing numbers: afterwards the pending set
  of the flow is the old one, plus every number strictly between the last one seen and the new
  one, minus the new number itself. Entries already pending are untouched, each new entry is
  fresh, has its first attempt within the jitter window and carries the observing worker's
  identity, the stream position is the new number, and no other flow changes.
\<close>

theorem observe_registers_exactly:
  assumes "map_of (tr_flows t) hk = Some fs" and "fs_lastSeqNum fs \<noteq> 0" and "fs_lastSeqNum fs < seq"
    and "seq \<noteq> fs_lastSeqNum fs + 1"
    and "\<not> implausible (tr_cfg t) (time_sub now (fs_lastSeen fs)) (seq - fs_lastSeqNum fs - 1) fs"
    and "jitter_ok (tr_cfg t)"
  shows "\<exists>t' fs'. ObserveFrom now draw ow g sid hk seq src t = Some t' \<and>
    map_of (tr_flows t') = (map_of (tr_flows t))(hk \<mapsto> fs') \<and> fs_lastSeqNum fs' = seq \<and>
    (\<forall>m. case map_of (fs_pending fs') m of
        None \<Rightarrow> m = seq \<or> map_of (fs_pending fs) m = None \<and> \<not> (fs_lastSeqNum fs < m \<and> m < seq)
      | Some e \<Rightarrow> m \<noteq> seq \<and> (map_of (fs_pending fs) m = Some e \<or>
          map_of (fs_pending fs) m = None \<and> fs_lastSeqNum fs < m \<and> m < seq \<and>
          fresh_gap (tr_cfg t) now hk sid (if ow \<noteq> ownerUnknown then ow else fs_owner fs) m e))"
proof -
  have seq: "seq \<noteq> 0" using assms(3) by auto
  have found: "found_flow hk g sid 0 t = Some fs" using assms(1) by (simp add: found_flow_def)
  from observe_flow_gap [OF assms(2-6), of "tr_rec t" draw ow g sid hk src]
  obtain fs' ms where o: "observe_flow (tr_cfg t) (tr_rec t) now draw ow g sid hk seq src fs = Some (fs', ms)"
    and l: "fs_lastSeqNum fs' = seq"
    and p: "\<And>m. map_of (fs_pending fs') m =
       (if m = seq then None
        else case map_of (fs_pending fs) m of
          Some e \<Rightarrow> Some e
        | None \<Rightarrow> if fs_lastSeqNum fs < m \<and> m < seq
                  then new_gap (tr_cfg t) now draw hk g sid src (if ow \<noteq> ownerUnknown then ow else fs_owner fs) m
                  else None)" by blast
  have "ObserveFrom now draw ow g sid hk seq src t = Some (put_flow hk fs' ms t)"
    using ObserveFrom_flow [OF seq found] o by simp
  moreover have "map_of (tr_flows (put_flow hk fs' ms t)) = (map_of (tr_flows t))(hk \<mapsto> fs')"
    by (simp add: put_flow_def)
  moreover have "case map_of (fs_pending fs') m of
        None \<Rightarrow> m = seq \<or> map_of (fs_pending fs) m = None \<and> \<not> (fs_lastSeqNum fs < m \<and> m < seq)
      | Some e \<Rightarrow> m \<noteq> seq \<and> (map_of (fs_pending fs) m = Some e \<or>
          map_of (fs_pending fs) m = None \<and> fs_lastSeqNum fs < m \<and> m < seq \<and>
          fresh_gap (tr_cfg t) now hk sid (if ow \<noteq> ownerUnknown then ow else fs_owner fs) m e)" for m
  proof -
    obtain e where "new_gap (tr_cfg t) now draw hk g sid src (if ow \<noteq> ownerUnknown then ow else fs_owner fs) m = Some e"
      using new_gap_total [OF assms(6)] by blast
    then show ?thesis using p [of m] new_gap_fresh [OF _ assms(6)]
      by (auto split: option.splits if_splits)
  qed
  ultimately show ?thesis using l by blast
qed

theorem observe_registers_exactly_witness:
  "\<exists>t' fs'. ObserveFrom (21 * second) (\<lambda>m. uint m) 0 3 7 42 8 (Some 1) demo_tracker = Some t' \<and>
     map_of (tr_flows t') 42 = Some fs' \<and> fs_lastSeqNum fs' = 8 \<and>
     map_of (fs_pending fs') 6 \<noteq> None \<and> map_of (fs_pending fs') 7 \<noteq> None \<and> map_of (fs_pending fs') 8 = None"
proof -
  have "\<not> implausible demo_cfg (time_sub (21 * second) (fs_lastSeen demo_flow)) (8 - fs_lastSeqNum demo_flow - 1) demo_flow"
    by (simp add: implausible_def demo_tracker_sel max_jump_def demo_cfg_def)
  then obtain t' fs' where o: "ObserveFrom (21 * second) (\<lambda>m. uint m) 0 3 7 42 8 (Some 1) demo_tracker = Some t'"
    "map_of (tr_flows t') = (map_of (tr_flows demo_tracker))(42 \<mapsto> fs')" "fs_lastSeqNum fs' = 8"
    and p: "\<And>m. case map_of (fs_pending fs') m of
        None \<Rightarrow> m = 8 \<or> map_of (fs_pending demo_flow) m = None \<and> \<not> (fs_lastSeqNum demo_flow < m \<and> m < 8)
      | Some e \<Rightarrow> m \<noteq> 8 \<and> (map_of (fs_pending demo_flow) m = Some e \<or>
          map_of (fs_pending demo_flow) m = None \<and> fs_lastSeqNum demo_flow < m \<and> m < 8 \<and>
          fresh_gap (tr_cfg demo_tracker) (21 * second) 42 7 (if 0 \<noteq> ownerUnknown then 0 else fs_owner demo_flow) m e)"
    using observe_registers_exactly [of demo_tracker 42 demo_flow 8 "21 * second" "\<lambda>m. uint m" 0 3 7 "Some 1"]
    by (auto simp: demo_tracker_sel demo_jitter)
  have "map_of (fs_pending fs') 6 \<noteq> None" using p [of 6] by (auto simp: demo_tracker_sel split: option.splits)
  moreover have "map_of (fs_pending fs') 7 \<noteq> None" using p [of 7] by (auto simp: demo_tracker_sel split: option.splits)
  moreover have "map_of (fs_pending fs') 8 = None" using p [of 8] by (auto split: option.splits)
  ultimately show ?thesis using o by auto
qed


section \<open>The ledger\<close>

fun is_det :: "metric \<Rightarrow> bool" where
  "is_det (GapDetected _ _) = True" | "is_det _ = False"

fun is_sup :: "metric \<Rightarrow> bool" where
  "is_sup (GapSuppressed _ _) = True" | "is_sup _ = False"

fun is_unrec :: "metric \<Rightarrow> bool" where
  "is_unrec (GapUnrecovered _ _) = True" | "is_unrec _ = False"

fun is_rebase :: "metric \<Rightarrow> bool" where
  "is_rebase (SeqRebaselined _ _) = True" | "is_rebase _ = False"

definition booked :: "(metric \<Rightarrow> bool) \<Rightarrow> metric list \<Rightarrow> nat" where
  "booked P ms = length (filter P ms)"

lemma booked_simps [simp]:
  "booked P [] = 0" "booked P (m # ms) = (if P m then Suc (booked P ms) else booked P ms)"
  "booked P (xs @ ys) = booked P xs + booked P ys"
  by (simp_all add: booked_def)

text \<open>Pending entries that stand for an observed loss.\<close>

definition losses :: "(u64 \<times> gapEntry) list \<Rightarrow> nat" where
  "losses ps = length (filter (\<lambda>(m, e). \<not> gp_speculative e) ps)"

lemma losses_simps [simp]:
  "losses [] = 0" "losses ((m, e) # ps) = (if gp_speculative e then losses ps else Suc (losses ps))"
  "losses (ps @ qs) = losses ps + losses qs"
  by (simp_all add: losses_def)

lemma losses_del:
  "wf_map ps \<Longrightarrow> map_of ps m = Some e \<Longrightarrow>
   losses ps = losses (map_del m ps) + (if gp_speculative e then 0 else 1)"
  by (induction ps) (auto simp: map_del_absent)

lemma losses_new: "(\<And>e. e \<in> set es \<Longrightarrow> \<not> gp_speculative e) \<Longrightarrow> losses (map (\<lambda>e. (gp_seqNum e, e)) es) = length es"
  by (induction es) auto

definition balance :: "metric list \<Rightarrow> nat \<Rightarrow> nat \<Rightarrow> bool" where
  "balance ms before after \<longleftrightarrow>
     booked is_det ms + before \<ge> booked is_sup ms + booked is_unrec ms + after \<and>
     (booked is_rebase ms = 0 \<longrightarrow>
        booked is_det ms + before = booked is_sup ms + booked is_unrec ms + after)"

lemma balance_Nil [simp]: "balance [] n n"
  by (simp add: balance_def)

lemma balance_append: "balance ms1 a b \<Longrightarrow> balance ms2 b c \<Longrightarrow> balance (ms1 @ ms2) a c"
  by (auto simp: balance_def)

lemma balance_detected: "balance (detected True f src es) n (n + length es)"
  by (induction es) (auto simp: detected_def emits_def balance_def)

lemma balance_late: "balance (snd (noteLateFill True seq fs)) n n"
  by (simp add: noteLateFill_def emits_def balance_def split: option.split)

lemma balance_bookFill: "balance (snd (bookFill True e fs)) (n + (if gp_speculative e then 0 else 1)) n"
  by (simp add: bookFill_def balance_def Let_def)

lemma balance_bookAbandon: "balance (snd (bookAbandon True now seq src r fs)) (Suc n) n"
  by (simp add: bookAbandon_def emits_def balance_def)

lemma balance_auto_fill:
  assumes "wf_map (fs_pending fs)"
  shows "balance (snd (snd (auto_fill True seq fs))) (losses (fs_pending fs)) (losses (map_del seq (fs_pending fs)))"
  using losses_del [OF assms, of seq] balance_bookFill
  by (auto simp: auto_fill_def split_beta map_del_absent map_of_None_iff split: option.split)

lemma balance_flush:
  "balance (snd (flush_pending True now fs)) (losses (fs_pending fs)) 0"
proof -
  let ?b = "\<lambda>(seq, e) (f, ms). if gp_speculative e then (f, ms)
             else let (f', ms') = bookAbandon True now seq (fs_source f) ''restart'' f in (f', ms @ ms')"
  have "balance (snd (fold ?b ps (f, ms))) (n + losses ps) 0" if "balance ms n 0" for ps f ms n
    using that
  proof (induction ps arbitrary: f ms n)
    case (Cons p ps)
    obtain seq e where p: "p = (seq, e)" by force
    show ?case
    proof (cases "gp_speculative e")
      case True
      then show ?thesis using Cons p by simp
    next
      case False
      have "balance (ms @ snd (bookAbandon True now seq (fs_source f) ''restart'' f)) (Suc n) 0"
        using Cons.prems by (simp add: balance_def bookAbandon_def emits_def)
      from Cons.IH [OF this] show ?thesis using p False by (simp add: Let_def split_beta)
    qed
  qed simp
  from this [of "[]" 0] show ?thesis by (simp add: flush_pending_def)
qed

lemma balance_step_old:
  "balance (snd (step_old cfg True now seq src fs)) (losses (fs_pending fs))
     (losses (fs_pending (fst (step_old cfg True now seq src fs))))"
  using balance_flush [of now fs] by (auto simp: step_old_def Let_def split_beta)

lemma register_losses:
  assumes r: "register (new_gap cfg now draw hk g sid src ow) ms f = Some (f', es)"
  shows "losses (fs_pending f') = losses (fs_pending f) + length es"
proof -
  have "\<And>e. e \<in> set es \<Longrightarrow> \<not> gp_speculative e"
    using register_entries [OF r] by (auto dest: new_gap_fields(4))
  then show ?thesis using register_new [OF r] losses_new [of es] by simp
qed

lemma balance_advance:
  assumes "advance_stream cfg True now (new_gap cfg now draw hk g sid src' ow) el seq src fs = Some (fs', ms)"
  shows "balance ms (losses (fs_pending fs)) (losses (fs_pending fs'))"
  using assms
proof (cases rule: advance_streamE)
  case old
  then show ?thesis using balance_step_old [of cfg now seq src fs] by simp
next
  case rebaseline
  from rebaseline(2) show ?thesis
  proof (rule step_rebaselineE)
    fix f es
    assume r: "register (new_gap cfg now draw hk g sid src' ow)
        (word_range (seq - transition_tail cfg el (seq - fs_lastSeqNum fs - 1) fs) seq) (fs\<lparr>fs_pending := []\<rparr>) = Some (f, es)"
      and "fs' = f\<lparr>fs_lastSeqNum := seq, fs_ewmaIPG := 0, fs_contiguous := 0, fs_samples := 0\<rparr>"
      and "ms = detected True f src es @ emits True [SeqRebaselined (fs_flowType f) (srcStr (fs_source f))]"
    then show ?thesis
      using register_losses [OF r] balance_detected [of f src es 0] by (auto simp: balance_def emits_def)
  qed
next
  case gap
  from gap(3) show ?thesis
    by (rule step_gapE) (use register_losses balance_detected in auto)
qed (simp_all add: step_contiguous_def)

lemma balance_fill_metrics:
  "wf_map (fs_pending fs) \<Longrightarrow>
   balance (fill_metrics True now ow seq src fs) (losses (fs_pending fs)) (losses (map_del seq (fs_pending fs)))"
  using balance_auto_fill [of "fst (noteLateFill True seq (arrive now ow src fs))" seq]
  by (auto simp: fill_metrics_def Let_def intro: balance_append [OF balance_late])

lemma balance_observe_flow:
  assumes "flow_ok hk fs" and "observe_flow cfg True now draw ow g sid hk seq src fs = Some (fs', ms)"
  shows "balance ms (losses (fs_pending fs)) (losses (fs_pending fs'))"
proof -
  have fm: "balance (fill_metrics True now ow seq src fs) (losses (fs_pending fs)) (losses (map_del seq (fs_pending fs)))"
    using assms(1) by (intro balance_fill_metrics) (simp add: flow_ok_def)
  show ?thesis
  proof (cases "map_of (fs_pending fs) seq \<noteq> None \<and> seq \<le> fs_lastSeqNum fs")
    case True
    then show ?thesis using assms(2) fm by (auto simp: observe_flow_eq)
  next
    case False
    then obtain ms' where "advance_stream cfg True now
                  (new_gap cfg now draw hk g sid src (if ow \<noteq> ownerUnknown then ow else fs_owner fs))
                  (time_sub now (fs_lastSeen fs)) seq src (observed True now ow seq src fs) = Some (fs', ms')"
      "ms = fill_metrics True now ow seq src fs @ ms'"
      using assms(2) by (auto simp: observe_flow_eq bind_eq_Some_conv split: prod.splits if_splits)
    then show ?thesis using balance_append [OF fm] balance_advance by fastforce
  qed
qed

definition total_losses :: "Tracker \<Rightarrow> nat" where
  "total_losses t = sum_list (map (\<lambda>(hk, fs). losses (fs_pending fs)) (tr_flows t))"

lemma sum_list_put:
  fixes f :: "'v \<Rightarrow> nat"
  assumes "wf_map m"
  shows "sum_list (map (\<lambda>(k, v). f v) (map_put k v m)) + (case map_of m k of None \<Rightarrow> 0 | Some v0 \<Rightarrow> f v0) =
         sum_list (map (\<lambda>(k, v). f v) m) + f v"
  using assms by (induction m) (auto split: option.splits)

lemma total_losses_put:
  assumes "tracker_ok t" and "found_flow hk g sid seen t = Some fs"
  shows "total_losses (put_flow hk fs' ms t) + losses (fs_pending fs) = total_losses t + losses (fs_pending fs')"
  using sum_list_put [of "tr_flows t" "\<lambda>fs. losses (fs_pending fs)" hk fs'] assms
  by (auto simp: total_losses_def put_flow_def tracker_ok_def found_flow_def new_flow_def split: option.splits if_splits)

lemma put_flow_sel [simp]:
  "tr_rec (put_flow hk fs ms t) = tr_rec t" "tr_cfg (put_flow hk fs ms t) = tr_cfg t"
  "tr_maxConcurrent (put_flow hk fs ms t) = tr_maxConcurrent t"
  "tr_respTimeout (put_flow hk fs ms t) = tr_respTimeout t"
  by (simp_all add: put_flow_def)

text \<open>
  \<open>ledger t\<close>: every gap booked suppressed or unrecovered, and every loss still pending, was
  booked as detected.
\<close>

definition ledger :: "Tracker \<Rightarrow> bool" where
  "ledger t \<longleftrightarrow> booked is_sup (tr_metrics t) + booked is_unrec (tr_metrics t) + total_losses t
              \<le> booked is_det (tr_metrics t)"

lemma ledger_put_flow:
  assumes "ledger t" and "tracker_ok t" and "found_flow hk g sid seen t = Some fs"
    and "balance ms (losses (fs_pending fs)) (losses (fs_pending fs'))"
  shows "ledger (put_flow hk fs' ms t)"
  using assms(1,4) total_losses_put [OF assms(2,3), of fs' ms]
  by (simp add: ledger_def balance_def put_flow_def)

lemma ledger_ObserveFrom:
  assumes "ledger t" and "tracker_ok t" and "tr_rec t" and "ObserveFrom now draw ow g sid hk seq src t = Some t'"
  shows "ledger t'"
  using assms(4)
proof (cases rule: ObserveFrom_cases)
  case refused
  then show ?thesis using assms by (simp add: ledger_def total_losses_def emits_def)
next
  case (flow fs fs' ms)
  then show ?thesis
    using ledger_put_flow [OF assms(1,2) flow(2)] assms(3)
      balance_observe_flow [OF found_flow_ok [OF assms(2) flow(2)]] by simp
qed (use assms in simp)

text \<open>
  One observed frame keeps the books: with metrics enabled, the gaps it books as detected and
  the losses pending before equal the gaps it books as suppressed or unrecovered and the losses
  pending after, unless it re-baselines the flow, in which case the dropped phantoms can only be
  missing on the right. At most \<^verbatim>\<open>MaxForwardJump\<close> gaps become pending, and the observed number
  itself is never left pending.
\<close>

theorem observe_accounting:
  assumes "tracker_ok t" and "tr_rec t" and "map_of (tr_flows t) hk = Some fs" and "seq \<noteq> 0"
    and "jitter_ok (tr_cfg t)"
  shows "\<exists>t' fs' ms. ObserveFrom now draw ow g sid hk seq src t = Some t' \<and>
    map_of (tr_flows t') hk = Some fs' \<and> tr_metrics t' = tr_metrics t @ ms \<and>
    booked is_det ms + losses (fs_pending fs) \<ge>
      booked is_sup ms + booked is_unrec ms + losses (fs_pending fs') \<and>
    (booked is_rebase ms = 0 \<longrightarrow> booked is_det ms + losses (fs_pending fs) =
      booked is_sup ms + booked is_unrec ms + losses (fs_pending fs')) \<and>
    length (fs_pending fs') \<le> length (fs_pending fs) + unat (max_jump (tr_cfg t)) \<and>
    \<not> Pending hk [seq] t'"
proof -
  have found: "found_flow hk g sid 0 t = Some fs" using assms(3) by (simp add: found_flow_def)
  obtain fs' ms where o: "observe_flow (tr_cfg t) (tr_rec t) now draw ow g sid hk seq src fs = Some (fs', ms)"
    using observe_flow_total [OF assms(5)] by blast
  have "balance ms (losses (fs_pending fs)) (losses (fs_pending fs'))"
    using balance_observe_flow [OF tracker_ok_flow [OF assms(1,3)]] o assms(2) by simp
  moreover have "length (fs_pending fs') \<le> length (fs_pending fs) + unat (max_jump (tr_cfg t))"
    by (rule observe_pending_bound [OF o])
  ultimately show ?thesis
    using ObserveFrom_flow [OF assms(4) found, of now draw ow src] o observe_not_pending [OF o]
    by (auto simp: put_flow_def balance_def Pending_def)
qed

theorem observe_accounting_witness:
  "\<exists>t' fs' ms. ObserveFrom (21 * second) (\<lambda>m. uint m) 0 3 7 42 8 (Some 1) demo_tracker = Some t' \<and>
     map_of (tr_flows t') 42 = Some fs' \<and> tr_metrics t' = tr_metrics demo_tracker @ ms \<and>
     booked is_sup ms + booked is_unrec ms + losses (fs_pending fs') \<le> booked is_det ms"
  using observe_accounting [OF demo_tracker_ok, of 42 demo_flow 8 "21 * second" "\<lambda>m. uint m" 0 3 7 "Some 1"]
  by (auto simp: demo_tracker_sel demo_jitter)

end
