(* ===== verification/Tracker_Dispatch.thy ===== *)
theory Tracker_Dispatch
  imports Tracker_Detect
begin

text \<open>
  Repair scheduling: the periodic sweep with the tail probe, the dispatch loop, the NACK exchange
  \<^verbatim>\<open>sendNACK\<close> and the five ways it updates a gap (\<^verbatim>\<open>nack/nack.go\<close>, from \<^verbatim>\<open>sweepOnce\<close> on).

  The exchange is given its environment: whether the endpoint resolves, the socket opens and the
  datagram is written, which datagrams come back and when, and whether the pipeline accepts a
  re-injected frame. Its effect on the gap is a value, so that other operations can run between
  the exchange and the update, as they can in the program.
\<close>

section \<open>Sweep\<close>

definition retireProbe :: "u64 \<Rightarrow> flowState \<Rightarrow> flowState" where
  "retireProbe seq fs =
     fs\<lparr>fs_probing := (if fs_probing fs = seq then 0 else fs_probing fs),
        fs_probeMisses := fs_probeMisses fs + 1\<rparr>"

definition evict_gap :: "bool \<Rightarrow> gtime \<Rightarrow> string \<Rightarrow> u64 \<Rightarrow> gapEntry \<Rightarrow> flowState \<Rightarrow> flowState \<times> metric list" where
  "evict_gap rc now reason seq e fs =
     (let fs = fs\<lparr>fs_pending := map_del seq (fs_pending fs)\<rparr> in
      if gp_speculative e then (retireProbe seq fs, [])
      else bookAbandon rc now seq (gp_source e) reason fs)"

definition sweep_gap ::
  "TrackerConfig \<Rightarrow> bool \<Rightarrow> dur \<Rightarrow> gtime \<Rightarrow> u64 \<Rightarrow> gapEntry \<Rightarrow> flowState \<Rightarrow> gapEntry list
     \<Rightarrow> flowState \<times> gapEntry list \<times> metric list" where
  "sweep_gap cfg rc respTimeout now seq e fs q =
     (if now > gp_deadline e then let (fs, ms) = evict_gap rc now ''ttl'' seq e fs in (fs, q, ms)
      else if int (gp_failRounds e) \<ge> tc_MaxRetries cfg
      then let (fs, ms) = evict_gap rc now ''retries'' seq e fs in (fs, q, ms)
      else if now > gp_nextAttempt e
      then let e' = e\<lparr>gp_nextAttempt := now + wrap64 (respTimeout + 100 * millisecond)\<rparr> in
        (case enqueue e' q of
           Some q' \<Rightarrow> (fs\<lparr>fs_pending := map_put seq e' (fs_pending fs)\<rparr>, q', [])
         | None \<Rightarrow> (fs\<lparr>fs_pending := map_put seq (e'\<lparr>gp_nextAttempt := now\<rparr>) (fs_pending fs)\<rparr>, q, []))
      else (fs, q, []))"

primrec sweep_gaps ::
  "TrackerConfig \<Rightarrow> bool \<Rightarrow> dur \<Rightarrow> gtime \<Rightarrow> (u64 \<times> gapEntry) list \<Rightarrow> flowState \<Rightarrow> gapEntry list
     \<Rightarrow> flowState \<times> gapEntry list \<times> metric list" where
  "sweep_gaps cfg rc rt now [] fs q = (fs, q, [])"
| "sweep_gaps cfg rc rt now (p # ps) fs q =
     (let (fs1, q1, ms1) = sweep_gap cfg rc rt now (fst p) (snd p) fs q;
          (fs2, q2, ms2) = sweep_gaps cfg rc rt now ps fs1 q1
      in (fs2, q2, ms1 @ ms2))"

definition probe_threshold :: "(dur \<Rightarrow> rat \<Rightarrow> dur) \<Rightarrow> TrackerConfig \<Rightarrow> flowState \<Rightarrow> dur" where
  "probe_threshold fmul cfg fs =
     (let factor = (if tc_TailProbeIdleFactor cfg \<le> 0 then defaultTailProbeIdleFactor else tc_TailProbeIdleFactor cfg);
          minIdle = (if tc_TailProbeMinIdle cfg \<le> 0 then defaultTailProbeMinIdle else tc_TailProbeMinIdle cfg);
          threshold = fmul (fs_ewmaIPG fs) factor
      in if threshold < minIdle then minIdle else threshold)"

definition probe_max_misses :: "TrackerConfig \<Rightarrow> int" where
  "probe_max_misses cfg =
     (if tc_TailProbeMaxMisses cfg \<le> 0 then defaultTailProbeMaxMisses else tc_TailProbeMaxMisses cfg)"

definition maybeProbeTail ::
  "(dur \<Rightarrow> rat \<Rightarrow> dur) \<Rightarrow> TrackerConfig \<Rightarrow> bool \<Rightarrow> gtime \<Rightarrow> u64 \<Rightarrow> flowState \<Rightarrow> gapEntry list
     \<Rightarrow> flowState \<times> gapEntry list \<times> metric list" where
  "maybeProbeTail fmul cfg rc now hashKey fs q =
     (if \<not> tc_TailProbe cfg \<or> fs_probing fs \<noteq> 0 then (fs, q, [])
      else if fs_ewmaIPG fs \<le> 0 \<or> fs_samples fs < minContiguousForRecover then (fs, q, [])
      else if int (fs_probeMisses fs) \<ge> probe_max_misses cfg then (fs, q, [])
      else if time_sub now (fs_lastSeen fs) < probe_threshold fmul cfg fs then (fs, q, [])
      else let seq = fs_lastSeqNum fs + 1;
               e = \<lparr>gp_hashKey = hashKey, gp_seqNum = seq, gp_groupIdx = fs_groupIdx fs,
                    gp_subtreeID = fs_subtreeID fs, gp_source = fs_source fs, gp_retries = 0,
                    gp_failRounds = 0, gp_nextAttempt = now, gp_deadline = now + tc_GapTTL cfg,
                    gp_endpointIdx = 0, gp_speculative = True, gp_owner = fs_owner fs\<rparr>;
               ms = emits rc [TailProbeSent (flowLabel (fs_groupIdx fs)) (srcStr (fs_source fs))]
        in case enqueue e q of
             Some q' \<Rightarrow> (fs\<lparr>fs_probing := seq, fs_pending := map_put seq e (fs_pending fs)\<rparr>, q', ms)
           | None \<Rightarrow> (fs\<lparr>fs_probing := 0,
                        fs_pending := map_del seq (map_put seq e (fs_pending fs))\<rparr>, q, ms))"

definition sweep_flow ::
  "(dur \<Rightarrow> rat \<Rightarrow> dur) \<Rightarrow> TrackerConfig \<Rightarrow> bool \<Rightarrow> dur \<Rightarrow> gtime \<Rightarrow> u64 \<Rightarrow> flowState \<Rightarrow> gapEntry list
     \<Rightarrow> flowState option \<times> gapEntry list \<times> metric list" where
  "sweep_flow fmul cfg rc respTimeout now hk fs q =
     (let flowTTL = (if tc_TailTTL cfg \<le> 0 then tc_GapTTL cfg else tc_TailTTL cfg);
          fs = fs\<lparr>fs_abandoned := filter (\<lambda>(seq, since). \<not> time_sub now since > abandonedTTL) (fs_abandoned fs)\<rparr>;
          (fs, q, ms1) = sweep_gaps cfg rc respTimeout now (fs_pending fs) fs q;
          (fs, q, ms2) = (if length (fs_pending fs) = 0 then maybeProbeTail fmul cfg rc now hk fs q
                          else (fs, q, []))
      in (if length (fs_pending fs) = 0 \<and> time_sub now (fs_lastSeen fs) > flowTTL then None else Some fs,
          q, ms1 @ ms2))"

primrec sweep_flows ::
  "(dur \<Rightarrow> rat \<Rightarrow> dur) \<Rightarrow> TrackerConfig \<Rightarrow> bool \<Rightarrow> dur \<Rightarrow> gtime \<Rightarrow> (u64 \<times> flowState) list \<Rightarrow> gapEntry list
     \<Rightarrow> (u64 \<times> flowState) list \<times> gapEntry list \<times> metric list" where
  "sweep_flows fmul cfg rc rt now [] q = ([], q, [])"
| "sweep_flows fmul cfg rc rt now (f # fl) q =
     (let (r, q1, ms1) = sweep_flow fmul cfg rc rt now (fst f) (snd f) q;
          (fl', q2, ms2) = sweep_flows fmul cfg rc rt now fl q1
      in ((case r of None \<Rightarrow> fl' | Some fs \<Rightarrow> (fst f, fs) # fl'), q2, ms1 @ ms2))"

definition sweepOnce :: "(dur \<Rightarrow> rat \<Rightarrow> dur) \<Rightarrow> gtime \<Rightarrow> Tracker \<Rightarrow> Tracker" where
  "sweepOnce fmul now t =
     (let (fl, q, ms) = sweep_flows fmul (tr_cfg t) (tr_rec t) (tr_respTimeout t) now (tr_flows t) (tr_nackQueue t)
      in t\<lparr>tr_flows := fl, tr_nackQueue := q, tr_metrics := tr_metrics t @ ms\<rparr>)"

section \<open>Updates after an exchange\<close>

definition probeMissed :: "gapEntry \<Rightarrow> Tracker \<Rightarrow> Tracker" where
  "probeMissed e t =
     (case map_of (tr_flows t) (gp_hashKey e) of
        None \<Rightarrow> t
      | Some fs \<Rightarrow>
          put_flow (gp_hashKey e)
            (retireProbe (gp_seqNum e) (fs\<lparr>fs_pending := map_del (gp_seqNum e) (fs_pending fs)\<rparr>))
            (emits (tr_rec t) [TailProbeMiss (flowLabel (fs_groupIdx fs)) (srcStr (fs_source fs))]) t)"

definition throttleHintBase :: dur where "throttleHintBase = 125 * millisecond"

text \<open>A wait drawn from \<open>[b/2, b]\<close>, for a bound capped at \<open>cap\<close>; a non-positive bound (a shift that overflowed) is the cap.\<close>

definition jittered_wait :: "int \<Rightarrow> dur \<Rightarrow> dur \<Rightarrow> dur option" where
  "jittered_wait draw cap b =
     (let b = (if b > cap \<or> b \<le> 0 then cap else b); half = b sdiv 2 in
      do { r \<leftarrow> int64N draw (wrap64 (half + 1)); Some (wrap64 (half + r)) })"

definition throttleGap :: "gtime \<Rightarrow> int \<Rightarrow> gapEntry \<Rightarrow> byte \<Rightarrow> Tracker \<Rightarrow> Tracker option" where
  "throttleGap now draw e flags t =
     do { wait \<leftarrow> jittered_wait draw (tc_BackoffMax (tr_cfg t))
                   (wrap64 (throttleHintBase * 2 ^ unat (flags AND 0x0F)));
          Some (case map_of (tr_flows t) (gp_hashKey e) of
                  None \<Rightarrow> t
                | Some fs \<Rightarrow>
                    (case map_of (fs_pending fs) (gp_seqNum e) of
                       None \<Rightarrow> t
                     | Some entry \<Rightarrow>
                         put_flow (gp_hashKey e)
                           (fs\<lparr>fs_pending := map_put (gp_seqNum e)
                              (entry\<lparr>gp_retries := gp_retries entry + 1, gp_nextAttempt := now + wait\<rparr>)
                              (fs_pending fs)\<rparr>)
                           (emits (tr_rec t) [NACKThrottled (flowLabel (gp_groupIdx e)) (srcStr (gp_source e))]) t)) }"

definition advance_entry :: "TrackerConfig \<Rightarrow> gtime \<Rightarrow> int \<Rightarrow> bool \<Rightarrow> nat \<Rightarrow> gapEntry \<Rightarrow> gapEntry option" where
  "advance_entry cfg now draw immediate numEndpoints entry =
     (let entry = entry\<lparr>gp_retries := gp_retries entry + 1, gp_endpointIdx := gp_endpointIdx entry + 1\<rparr>;
          exhausted = (numEndpoints > 0 \<and> gp_endpointIdx entry \<ge> numEndpoints) in
      if immediate \<and> \<not> exhausted then Some (entry\<lparr>gp_failRounds := 0, gp_nextAttempt := now\<rparr>)
      else let entry = entry\<lparr>gp_failRounds := gp_failRounds entry + 1\<rparr> in
        do { wait \<leftarrow> jittered_wait draw (tc_BackoffMax cfg)
                      (wrap64 (tc_BackoffBase cfg * 2 ^ (gp_failRounds entry - 1)));
             Some (entry\<lparr>gp_nextAttempt := now + wait\<rparr>) })"

definition advanceEndpoint :: "gtime \<Rightarrow> int \<Rightarrow> gapEntry \<Rightarrow> bool \<Rightarrow> nat \<Rightarrow> Tracker \<Rightarrow> Tracker option" where
  "advanceEndpoint now draw e immediate numEndpoints t =
     (case map_of (tr_flows t) (gp_hashKey e) of
        None \<Rightarrow> Some t
      | Some fs \<Rightarrow>
          (case map_of (fs_pending fs) (gp_seqNum e) of
             None \<Rightarrow> Some t
           | Some entry \<Rightarrow>
               do { entry' \<leftarrow> advance_entry (tr_cfg t) now draw immediate numEndpoints entry;
                    Some (put_flow (gp_hashKey e)
                      (fs\<lparr>fs_pending := map_put (gp_seqNum e) entry' (fs_pending fs)\<rparr>) [] t) }))"

definition abandonGap :: "gtime \<Rightarrow> gapEntry \<Rightarrow> string \<Rightarrow> Tracker \<Rightarrow> Tracker" where
  "abandonGap now e reason t =
     (case map_of (tr_flows t) (gp_hashKey e) of
        None \<Rightarrow> t
      | Some fs \<Rightarrow>
          let fs = fs\<lparr>fs_pending := map_del (gp_seqNum e) (fs_pending fs),
                      fs_probing := (if fs_probing fs = gp_seqNum e then 0 else fs_probing fs)\<rparr>;
              (fs, ms) = (if gp_speculative e then (fs, [])
                          else bookAbandon (tr_rec t) now (gp_seqNum e) (fs_source fs) reason fs)
          in put_flow (gp_hashKey e) fs ms t)"

definition cancelGap :: "gapEntry \<Rightarrow> Tracker \<Rightarrow> Tracker" where
  "cancelGap e t =
     (case map_of (tr_flows t) (gp_hashKey e) of
        None \<Rightarrow> t
      | Some fs \<Rightarrow>
          (case map_of (fs_pending fs) (gp_seqNum e) of
             None \<Rightarrow> t
           | Some pend \<Rightarrow>
               let (fs', ms) = bookFill (tr_rec t) pend (fs\<lparr>fs_pending := map_del (gp_seqNum e) (fs_pending fs)\<rparr>)
               in put_flow (gp_hashKey e) fs' ms t))"

section \<open>The NACK exchange\<close>

datatype send_outcome =
  Nothing | Advance bool nat | Cancel | Abandon string | ProbeMiss | Throttle byte

definition respFlagMulticastSent :: byte where "respFlagMulticastSent = 0x01"
definition respFlagUnicastSent :: byte where "respFlagUnicastSent = 0x02"
definition minRetransmitFrame :: nat where "minRetransmitFrame = 64"
definition unicastDrainWindow :: dur where "unicastDrainWindow = 80 * millisecond"

record send_io =
  io_resolve :: "string \<Rightarrow> bool"
  io_listen :: "string \<Rightarrow> bool"
  io_write :: "string \<Rightarrow> bool"
  io_start :: gtime
  io_recv :: "(gtime \<times> byte list) list"
  io_accepts :: "callback \<Rightarrow> byte list \<Rightarrow> bool"

definition is_retransmit :: "byte list \<Rightarrow> bool" where
  "is_retransmit d \<longleftrightarrow> length d \<ge> minRetransmitFrame \<and> word_of_bytes (sub_bytes 0 4 d) = nackMagic"

text \<open>The drain loop: the datagrams still to come, with arrival times, and the read deadline.\<close>

primrec drain ::
  "(callback \<Rightarrow> byte list \<Rightarrow> bool) \<Rightarrow> callback option \<Rightarrow> gapEntry \<Rightarrow> nat \<Rightarrow> (gtime \<times> byte list) list \<Rightarrow> gtime \<Rightarrow> bool
     \<Rightarrow> send_outcome \<times> (callback \<times> byte list) option" where
  "drain accepts reinject e n [] deadline unicastACK =
     (if unicastACK then Advance True n else Advance False 0, None)"
| "drain accepts reinject e n (r # rs) deadline unicastACK =
     (if fst r > deadline then (if unicastACK then Advance True n else Advance False 0, None)
      else let d = take 65536 (snd r) in
        if reinject \<noteq> None \<and> is_retransmit d
        then (if accepts (the reinject) d then Cancel else Abandon ''rejected'', Some (the reinject, d))
        else case DecodeResponse d of
          Inl _ \<Rightarrow> drain accepts reinject e n rs deadline unicastACK
        | Inr resp \<Rightarrow>
            if rs_MsgType resp = MsgTypeACK
            then if rs_Flags resp AND respFlagUnicastSent \<noteq> 0 \<and> reinject \<noteq> None
                 then drain accepts reinject e n rs (fst r + unicastDrainWindow) True
                 else if rs_Flags resp AND respFlagUnicastSent \<noteq> 0 \<and> rs_Flags resp AND respFlagMulticastSent = 0
                 then (Abandon ''no_recover'', None)
                 else (Cancel, None)
            else if rs_MsgType resp = MsgTypeMISS
            then (if gp_speculative e then ProbeMiss else Advance True n, None)
            else if rs_MsgType resp = MsgTypeTHROTTLED then (Throttle (rs_Flags resp), None)
            else (Nothing, None))"

definition clamp_idx :: "nat \<Rightarrow> nat \<Rightarrow> nat" where
  "clamp_idx idx n = (if idx \<ge> n then n - 1 else idx)"

definition nack_for :: "gapEntry \<Rightarrow> NACK" where
  "nack_for e = \<lparr>nk_MsgType = MsgTypeNACK, nk_HashKey = gp_hashKey e, nk_StartSeq = gp_seqNum e,
                 nk_EndSeq = gp_seqNum e, nk_SubtreeID = gp_subtreeID e\<rparr>"

record send_result =
  sr_tracker :: Tracker
  sr_sent :: "(string \<times> byte list) option"
  sr_outcome :: send_outcome
  sr_reinjected :: "(callback \<times> byte list) option"

definition sendNACK :: "nat list \<Rightarrow> send_io \<Rightarrow> gapEntry \<Rightarrow> Tracker \<Rightarrow> send_result option" where
  "sendNACK ds io e t =
     (let (reg, snap) = Snapshot ds (tr_registry t); t = t\<lparr>tr_registry := reg\<rparr>;
          res = (\<lambda>t snt out rj. \<lparr>sr_tracker = t, sr_sent = snt, sr_outcome = out, sr_reinjected = rj\<rparr>) in
      if length snap = 0 then Some (res t None Nothing None)
      else let endpoint = snap ! clamp_idx (gp_endpointIdx e) (length snap);
               laddr = (if tr_nackSrc t = [] then ''[::]:0'' else ''['' @ tr_nackSrc t @ '']:0'') in
        if \<not> io_resolve io (ep_Addr endpoint) then Some (res t None (Advance False 0) None)
        else if \<not> io_listen io laddr then Some (res t None (Advance False 0) None)
        else do {
          buf \<leftarrow> Encode (nack_for e) (replicate NACKSize 0);
          if \<not> io_write io (ep_Addr endpoint)
          then Some (res (t\<lparr>tr_metrics := tr_metrics t @ emits (tr_rec t) [NACKSendError (ep_Addr endpoint)]\<rparr>)
                         None (Advance False (length snap)) None)
          else let t' = t\<lparr>tr_metrics := tr_metrics t @
                          emits (tr_rec t) [NACKDispatched (flowLabel (gp_groupIdx e)) (srcStr (gp_source e))]\<rparr>;
                   (out, rj) = drain (io_accepts io) (recoverFor e t) e (length snap) (io_recv io)
                                 (io_start io + tr_respTimeout t) False
               in Some (res t' (Some (ep_Addr endpoint, buf)) out rj) })"

fun apply_outcome :: "gtime \<Rightarrow> int \<Rightarrow> gapEntry \<Rightarrow> send_outcome \<Rightarrow> Tracker \<Rightarrow> Tracker option" where
  "apply_outcome now draw e Nothing t = Some t"
| "apply_outcome now draw e (Advance immediate n) t = advanceEndpoint now draw e immediate n t"
| "apply_outcome now draw e Cancel t = Some (cancelGap e t)"
| "apply_outcome now draw e (Abandon reason) t = Some (abandonGap now e reason t)"
| "apply_outcome now draw e ProbeMiss t = Some (probeMissed e t)"
| "apply_outcome now draw e (Throttle flags) t = throttleGap now draw e flags t"

text \<open>The dispatch loop takes an entry off the queue, then waits for a free sender slot.\<close>

definition dispatch_take :: "Tracker \<Rightarrow> Tracker" where
  "dispatch_take t =
     (case (tr_held t, tr_nackQueue t) of
        (None, e # q) \<Rightarrow> t\<lparr>tr_held := Some e, tr_nackQueue := q\<rparr>
      | _ \<Rightarrow> t)"

definition dispatch_launch :: "Tracker \<Rightarrow> Tracker" where
  "dispatch_launch t =
     (case tr_held t of
        Some e \<Rightarrow> if length (tr_inflight t) < tr_maxConcurrent t
                  then t\<lparr>tr_held := None, tr_inflight := tr_inflight t @ [e]\<rparr> else t
      | None \<Rightarrow> t)"

text \<open>A whole sender goroutine with nothing in between.\<close>

definition run_send :: "nat list \<Rightarrow> send_io \<Rightarrow> gtime \<Rightarrow> int \<Rightarrow> gapEntry \<Rightarrow> Tracker \<Rightarrow> Tracker option" where
  "run_send ds io now draw e t =
     do { r \<leftarrow> sendNACK ds io e t;
          t' \<leftarrow> apply_outcome now draw e (sr_outcome r) (sr_tracker r);
          Some (t'\<lparr>tr_inflight := remove1 e (tr_inflight t')\<rparr>) }"

end
