(* ===== verification/Tracker_Repair.thy ===== *)
theory Tracker_Repair
  imports Tracker_Dispatch
begin

text \<open>
  The tracker as a transition system: every locked operation, the dispatch loop and the sender
  goroutines as steps. Its invariant bounds every table, and the ledger of detected gaps balances
  along every run in which a gap is only abandoned while it is still pending.
\<close>

section \<open>Each operation keeps the invariant\<close>

lemma flow_ok_put_pending:
  assumes "flow_ok hk fs" and "gp_seqNum e = m" and "gp_hashKey e = hk"
  shows "flow_ok hk (fs\<lparr>fs_pending := map_put m e (fs_pending fs)\<rparr>)"
  using assms by (auto simp: flow_ok_def list_all_iff dest!: subsetD [OF set_put_subset])

lemma flow_ok_retireProbe [wf_intros]: "flow_ok hk fs \<Longrightarrow> flow_ok hk (retireProbe seq fs)"
  by (simp add: retireProbe_def flow_ok_def)

lemma flow_ok_evict_gap [wf_intros]: "flow_ok hk fs \<Longrightarrow> flow_ok hk (fst (evict_gap rc now r seq e fs))"
  by (simp add: evict_gap_def Let_def flow_ok_retireProbe flow_ok_bookAbandon flow_ok_pending_del)

lemma enqueue_length: "enqueue e q = Some q' \<Longrightarrow> length q' \<le> nackQueueCap"
  by (auto simp: enqueue_def split: if_splits)

lemma enqueue_all_length: "length q \<le> nackQueueCap \<Longrightarrow> length (enqueue_all es q) \<le> nackQueueCap"
  by (induction es arbitrary: q) (auto dest: enqueue_length split: option.split)

lemma sweep_gap_ok:
  assumes "flow_ok hk fs" and "gp_seqNum e = seq" and "gp_hashKey e = hk" and "length q \<le> nackQueueCap"
  shows "flow_ok hk (fst (sweep_gap cfg rc rt now seq e fs q)) \<and>
         length (fst (snd (sweep_gap cfg rc rt now seq e fs q))) \<le> nackQueueCap"
  using assms flow_ok_evict_gap [OF assms(1)]
  by (auto simp: sweep_gap_def Let_def split_beta flow_ok_put_pending dest: enqueue_length split: option.split)

lemma sweep_gaps_ok:
  assumes "flow_ok hk fs" and "list_all (\<lambda>(m, e). gp_seqNum e = m \<and> gp_hashKey e = hk) ps"
    and "length q \<le> nackQueueCap"
  shows "flow_ok hk (fst (sweep_gaps cfg rc rt now ps fs q)) \<and>
         length (fst (snd (sweep_gaps cfg rc rt now ps fs q))) \<le> nackQueueCap"
  using assms
proof (induction ps arbitrary: fs q)
  case (Cons p ps)
  obtain m e where p: "p = (m, e)" by force
  obtain fs1 q1 ms1 where s: "sweep_gap cfg rc rt now m e fs q = (fs1, q1, ms1)" by (rule prod_cases3)
  have "flow_ok hk fs1 \<and> length q1 \<le> nackQueueCap"
    using sweep_gap_ok [of hk fs e m q cfg rc rt now] Cons.prems p s by simp
  then show ?case using Cons.IH [of fs1 q1] Cons.prems(2) p s by (simp add: split_beta)
qed simp

lemma maybeProbeTail_ok:
  assumes "flow_ok hk fs" and "length q \<le> nackQueueCap"
  shows "flow_ok hk (fst (maybeProbeTail fmul cfg rc now hk fs q)) \<and>
         length (fst (snd (maybeProbeTail fmul cfg rc now hk fs q))) \<le> nackQueueCap"
proof -
  have put: "flow_ok hk (fs\<lparr>fs_probing := p, fs_pending := map_put m e (fs_pending fs)\<rparr>)"
    if "gp_seqNum e = m" "gp_hashKey e = hk" for p m e
    using flow_ok_put_pending [OF assms(1) that] by (simp add: flow_ok_def)
  have del: "flow_ok hk (fs\<lparr>fs_probing := 0, fs_pending := map_del m (map_put m e (fs_pending fs))\<rparr>)"
    if "gp_seqNum e = m" "gp_hashKey e = hk" for m e
    using flow_ok_pending_del [OF put [OF that, of 0], of m] by simp
  show ?thesis
    using assms by (simp add: maybeProbeTail_def Let_def put del enqueue_length split: option.split)
qed

lemma flow_ok_purge: "flow_ok hk fs \<Longrightarrow> flow_ok hk (fs\<lparr>fs_abandoned := filter P (fs_abandoned fs)\<rparr>)"
  by (simp add: flow_ok_def le_trans [OF length_filter_le])

lemma sweep_flow_ok:
  assumes "flow_ok hk fs" and "length q \<le> nackQueueCap" and "sweep_flow fmul cfg rc rt now hk fs q = (r, q', ms)"
  shows "(case r of None \<Rightarrow> True | Some fs' \<Rightarrow> flow_ok hk fs') \<and> length q' \<le> nackQueueCap"
proof -
  let ?f = "fs\<lparr>fs_abandoned := filter (\<lambda>(seq, since). \<not> time_sub now since > abandonedTTL) (fs_abandoned fs)\<rparr>"
  have f: "flow_ok hk ?f" by (rule flow_ok_purge [OF assms(1)])
  obtain fs1 q1 ms1 where s: "sweep_gaps cfg rc rt now (fs_pending ?f) ?f q = (fs1, q1, ms1)" by (rule prod_cases3)
  have 1: "flow_ok hk fs1" "length q1 \<le> nackQueueCap"
    using sweep_gaps_ok [OF f _ assms(2), of "fs_pending ?f" cfg rc rt now] f s by (auto simp: flow_ok_def)
  then show ?thesis
    using assms(3) s maybeProbeTail_ok [OF 1, of fmul cfg rc now]
    by (auto simp: sweep_flow_def Let_def split_beta split: if_splits)
qed

lemma sweep_flows_ok:
  assumes "list_all (\<lambda>(hk, fs). flow_ok hk fs) fl" and "length q \<le> nackQueueCap"
    and "sweep_flows fmul cfg rc rt now fl q = (fl', q', ms)"
  shows "list_all (\<lambda>(hk, fs). flow_ok hk fs) fl' \<and> length q' \<le> nackQueueCap \<and>
         length fl' \<le> length fl \<and> fst ` set fl' \<subseteq> fst ` set fl \<and> (wf_map fl \<longrightarrow> wf_map fl')"
  using assms
proof (induction fl arbitrary: q fl' q' ms)
  case (Cons f fl)
  obtain r q1 ms1 where s: "sweep_flow fmul cfg rc rt now (fst f) (snd f) q = (r, q1, ms1)" by (rule prod_cases3)
  obtain fl2 q2 ms2 where s2: "sweep_flows fmul cfg rc rt now fl q1 = (fl2, q2, ms2)" by (rule prod_cases3)
  have "flow_ok (fst f) (snd f)" using Cons.prems(1) by (auto simp: split_beta)
  from sweep_flow_ok [OF this Cons.prems(2) s] have r: "case r of None \<Rightarrow> True | Some fs' \<Rightarrow> flow_ok (fst f) fs'"
    and q1: "length q1 \<le> nackQueueCap" by auto
  have IH: "list_all (\<lambda>(hk, fs). flow_ok hk fs) fl2" "length q2 \<le> nackQueueCap" "length fl2 \<le> length fl"
    "fst ` set fl2 \<subseteq> fst ` set fl" "wf_map fl \<longrightarrow> wf_map fl2"
    using Cons.IH [OF _ q1 s2] Cons.prems(1) by simp_all
  have fl': "fl' = (case r of None \<Rightarrow> fl2 | Some fs \<Rightarrow> (fst f, fs) # fl2)" "q' = q2"
    using Cons.prems(3) s s2 by simp_all
  show ?case
  proof (cases r)
    case None
    then show ?thesis using fl' IH by auto
  next
    case (Some fs)
    have "fst f \<notin> fst ` set fl2" if "fst f \<notin> fst ` set fl" using that IH(4) by blast
    then show ?thesis using fl' IH Some r by (simp add: insert_mono subset_insertI2)
  qed
qed simp

lemma tracker_ok_sweepOnce [wf_intros]: "tracker_ok t \<Longrightarrow> tracker_ok (sweepOnce fmul now t)"
proof -
  assume ok: "tracker_ok t"
  obtain fl q ms where s: "sweep_flows fmul (tr_cfg t) (tr_rec t) (tr_respTimeout t) now (tr_flows t) (tr_nackQueue t) = (fl, q, ms)"
    by (rule prod_cases3)
  from sweep_flows_ok [OF _ _ s] ok show ?thesis
    by (auto simp: tracker_ok_def sweepOnce_def s)
qed

lemma found_existing: "map_of (tr_flows t) hk = Some fs \<Longrightarrow> found_flow hk 0 0 0 t = Some fs"
  by (simp add: found_flow_def)

lemmas tracker_ok_put_existing = tracker_ok_put_found [OF _ found_existing]

lemma tracker_ok_fill_pending:
  assumes "tracker_ok t" and "map_of (tr_flows t) hk = Some fs"
  shows "tracker_ok (put_flow hk (fst (bookFill rc e (fs\<lparr>fs_pending := map_del seq (fs_pending fs)\<rparr>))) ms t)"
  by (rule tracker_ok_put_existing [OF assms flow_ok_bookFill [OF flow_ok_pending_del [OF tracker_ok_flow [OF assms]]]])

lemma tracker_ok_Fill [wf_intros]: "tracker_ok t \<Longrightarrow> tracker_ok (Fill hk seq t)"
  unfolding Fill_def
  by (simp add: split_beta tracker_ok_fill_pending tracker_ok_put_existing flow_ok_noteLateFill tracker_ok_flow
      split: option.split)

lemma tracker_ok_cancelGap [wf_intros]: "tracker_ok t \<Longrightarrow> tracker_ok (cancelGap e t)"
  unfolding cancelGap_def by (simp add: split_beta tracker_ok_fill_pending split: option.split)

lemma tracker_ok_probeMissed [wf_intros]: "tracker_ok t \<Longrightarrow> tracker_ok (probeMissed e t)"
  unfolding probeMissed_def
  by (simp add: tracker_ok_put_existing flow_ok_retireProbe flow_ok_pending_del tracker_ok_flow split: option.split)

lemma flow_ok_probing: "flow_ok hk fs \<Longrightarrow> flow_ok hk (fs\<lparr>fs_probing := p\<rparr>)"
  by (simp add: flow_ok_def)

lemma tracker_ok_abandonGap [wf_intros]:
  assumes "tracker_ok t"
  shows "tracker_ok (abandonGap now e r t)"
proof (cases "map_of (tr_flows t) (gp_hashKey e)")
  case (Some fs)
  let ?f = "fs\<lparr>fs_pending := map_del (gp_seqNum e) (fs_pending fs),
               fs_probing := (if fs_probing fs = gp_seqNum e then 0 else fs_probing fs)\<rparr>"
  have f: "flow_ok (gp_hashKey e) ?f"
    by (rule flow_ok_probing [OF flow_ok_pending_del [OF tracker_ok_flow [OF assms Some]]])
  show ?thesis
    using tracker_ok_put_existing [OF assms Some f] tracker_ok_put_existing [OF assms Some flow_ok_bookAbandon [OF f]] Some
    by (simp add: abandonGap_def Let_def split_beta)
qed (use assms in \<open>simp add: abandonGap_def\<close>)

lemma tracker_ok_put_entry:
  assumes "tracker_ok t" and "map_of (tr_flows t) hk = Some fs" and "gp_seqNum e = m" and "gp_hashKey e = hk"
  shows "tracker_ok (put_flow hk (fs\<lparr>fs_pending := map_put m e (fs_pending fs)\<rparr>) ms t)"
  by (rule tracker_ok_put_existing [OF assms(1,2) flow_ok_put_pending [OF tracker_ok_flow [OF assms(1,2)] assms(3,4)]])

lemma flow_ok_entry:
  assumes "flow_ok hk fs" and "map_of (fs_pending fs) m = Some e"
  shows "gp_seqNum e = m" "gp_hashKey e = hk"
proof -
  have "\<forall>p\<in>set (fs_pending fs). gp_seqNum (snd p) = fst p \<and> gp_hashKey (snd p) = hk"
    using assms(1) by (simp add: flow_ok_def list_all_iff split_beta)
  from bspec [OF this map_of_SomeD [OF assms(2)]] show "gp_seqNum e = m" "gp_hashKey e = hk" by simp_all
qed

lemma advance_entry_ids:
  "advance_entry cfg now draw im n e = Some e' \<Longrightarrow>
   gp_seqNum e' = gp_seqNum e \<and> gp_hashKey e' = gp_hashKey e \<and> gp_speculative e' = gp_speculative e"
  by (auto simp: advance_entry_def Let_def bind_eq_Some_conv split: if_splits)

lemma tracker_ok_advanceEndpoint [wf_intros]:
  assumes ok: "tracker_ok t" and r: "advanceEndpoint now draw e im n t = Some t'"
  shows "tracker_ok t'"
proof (cases "map_of (tr_flows t) (gp_hashKey e)")
  case (Some fs)
  show ?thesis
  proof (cases "map_of (fs_pending fs) (gp_seqNum e)")
    case (Some e0)
    then obtain e1 where e1: "advance_entry (tr_cfg t) now draw im n e0 = Some e1"
      "t' = put_flow (gp_hashKey e) (fs\<lparr>fs_pending := map_put (gp_seqNum e) e1 (fs_pending fs)\<rparr>) [] t"
      using r \<open>map_of (tr_flows t) (gp_hashKey e) = Some fs\<close>
      by (auto simp: advanceEndpoint_def bind_eq_Some_conv)
    show ?thesis
      using tracker_ok_put_entry [OF ok \<open>map_of (tr_flows t) (gp_hashKey e) = Some fs\<close>, of e1 "gp_seqNum e" "[]"]
        advance_entry_ids [OF e1(1)] flow_ok_entry [OF tracker_ok_flow [OF ok \<open>map_of (tr_flows t) (gp_hashKey e) = Some fs\<close>] Some] e1(2)
      by simp
  qed (use r ok Some in \<open>simp add: advanceEndpoint_def\<close>)
qed (use r ok in \<open>simp add: advanceEndpoint_def\<close>)

lemma tracker_ok_throttleGap [wf_intros]:
  assumes ok: "tracker_ok t" and r: "throttleGap now draw e flags t = Some t'"
  shows "tracker_ok t'"
proof (cases "map_of (tr_flows t) (gp_hashKey e)")
  case (Some fs)
  note fl = this
  show ?thesis
  proof (cases "map_of (fs_pending fs) (gp_seqNum e)")
    case (Some e0)
    with r fl obtain w ms where "t' = put_flow (gp_hashKey e) (fs\<lparr>fs_pending := map_put (gp_seqNum e)
        (e0\<lparr>gp_retries := gp_retries e0 + 1, gp_nextAttempt := now + w\<rparr>) (fs_pending fs)\<rparr>) ms t"
      by (auto simp: throttleGap_def bind_eq_Some_conv)
    then show ?thesis
      using tracker_ok_put_entry [OF ok fl, of "e0\<lparr>gp_retries := gp_retries e0 + 1, gp_nextAttempt := now + w\<rparr>" "gp_seqNum e" ms]
        flow_ok_entry [OF tracker_ok_flow [OF ok fl] Some] by simp
  qed (use r ok fl in \<open>auto simp: throttleGap_def bind_eq_Some_conv\<close>)
qed (use r ok in \<open>auto simp: throttleGap_def bind_eq_Some_conv\<close>)

lemma tracker_ok_apply_outcome [wf_intros]:
  "tracker_ok t \<Longrightarrow> apply_outcome now draw e out t = Some t' \<Longrightarrow> tracker_ok t'"
  by (cases out) (auto intro: tracker_ok_advanceEndpoint tracker_ok_throttleGap tracker_ok_cancelGap
      tracker_ok_abandonGap tracker_ok_probeMissed)

lemma tracker_ok_sendNACK [wf_intros]:
  assumes "tracker_ok t" and "sendNACK ds io e t = Some r"
  shows "tracker_ok (sr_tracker r)"
proof -
  have "registry_ok (fst (Snapshot ds (tr_registry t)))"
    using assms(1) by (intro registry_ok_Snapshot) (simp add: tracker_ok_def)
  then have "tracker_ok (t\<lparr>tr_registry := fst (Snapshot ds (tr_registry t))\<rparr>)"
    and "\<And>ms. tracker_ok (t\<lparr>tr_registry := fst (Snapshot ds (tr_registry t)), tr_metrics := ms\<rparr>)"
    using assms(1) by (simp_all add: tracker_ok_def)
  then show ?thesis
    using assms(2) by (auto simp: sendNACK_def Let_def split_beta bind_eq_Some_conv split: if_splits)
qed

lemma tracker_ok_dispatch [wf_intros]:
  "tracker_ok t \<Longrightarrow> tracker_ok (dispatch_take t)" "tracker_ok t \<Longrightarrow> tracker_ok (dispatch_launch t)"
  by (auto simp: tracker_ok_def dispatch_take_def dispatch_launch_def split: option.split list.split)

lemma RequestGapsFrom_cases:
  assumes r: "RequestGapsFrom now draw ow hk g sid seqs t = Some t'"
  obtains (nothing) "seqs = [] \<or> found_flow hk g sid now t = None" "t' = t"
  | (flow) fs fs1 fs' es where "found_flow hk g sid now t = Some fs"
      "fs1 = (if ow \<noteq> ownerUnknown then fs\<lparr>fs_owner := ow\<rparr> else fs)"
      "register (new_gap (tr_cfg t) now draw hk g sid (fs_source fs) (fs_owner fs1)) seqs fs1 = Some (fs', es)"
      "t' = (put_flow hk fs' (detected (tr_rec t) fs' (fs_source fs') es) t)\<lparr>tr_nackQueue := enqueue_all es (tr_nackQueue t)\<rparr>"
proof (cases "seqs = [] \<or> found_flow hk g sid now t = None")
  case True
  show thesis
    by (rule nothing [OF True])
       (use r True in \<open>auto simp: RequestGapsFrom_def Let_def found_flow_def split: option.splits if_splits\<close>)
next
  case False
  then obtain fs where f: "found_flow hk g sid now t = Some fs" by auto
  let ?f1 = "if ow \<noteq> ownerUnknown then fs\<lparr>fs_owner := ow\<rparr> else fs"
  have eq: "RequestGapsFrom now draw ow hk g sid seqs t =
    do { (fs', queued) \<leftarrow> register (new_gap (tr_cfg t) now draw hk g sid (fs_source ?f1) (fs_owner ?f1)) seqs ?f1;
         let t' = put_flow hk fs' (detected (tr_rec t) fs' (fs_source fs') queued) t;
         Some (t'\<lparr>tr_nackQueue := enqueue_all queued (tr_nackQueue t')\<rparr>) }"
    using False f unfolding RequestGapsFrom_def Let_def found_flow_def
    by (simp split: option.splits if_splits)
  then obtain fs' es where g: "register (new_gap (tr_cfg t) now draw hk g sid (fs_source ?f1) (fs_owner ?f1)) seqs ?f1 = Some (fs', es)"
    using r by (cases "register (new_gap (tr_cfg t) now draw hk g sid (fs_source ?f1) (fs_owner ?f1)) seqs ?f1") auto
  have src: "fs_source ?f1 = fs_source fs" by simp
  show thesis
    by (rule flow [OF f refl g [unfolded src]]) (use r eq g in \<open>simp add: Let_def put_flow_def\<close>)
qed

lemma tracker_ok_RequestGapsFrom [wf_intros]:
  assumes ok: "tracker_ok t" and r: "RequestGapsFrom now draw ow hk g sid seqs t = Some t'"
  shows "tracker_ok t'"
  using r
proof (cases rule: RequestGapsFrom_cases)
  case (flow fs fs1 fs' es)
  have "flow_ok hk fs1" using found_flow_ok [OF ok flow(1)] flow(2) by (auto simp: flow_ok_def)
  from flow_ok_register [OF this flow(3)] have "tracker_ok (put_flow hk fs' ms t)" for ms
    by (rule tracker_ok_put_found [OF ok flow(1)])
  then show ?thesis
    using flow(4) enqueue_all_length [of "tr_nackQueue t" es] ok by (simp add: tracker_ok_def)
qed (use ok in simp)

section \<open>The transition system\<close>

text \<open>
  \<open>P\<close> restricts in which states a sender may complete with which outcome; the program itself is
  the case without a restriction.
\<close>

inductive restricted_step :: "(gapEntry \<Rightarrow> send_outcome \<Rightarrow> Tracker \<Rightarrow> bool) \<Rightarrow> Tracker \<Rightarrow> Tracker \<Rightarrow> bool" for P where
  step_observe: "ObserveFrom now draw ow g sid hk seq src t = Some t' \<Longrightarrow> restricted_step P t t'"
| step_request: "RequestGapsFrom now draw ow hk g sid seqs t = Some t' \<Longrightarrow> restricted_step P t t'"
| step_fill: "restricted_step P t (Fill hk seq t)"
| step_sweep: "restricted_step P t (sweepOnce fmul now t)"
| step_take: "restricted_step P t (dispatch_take t)"
| step_launch: "restricted_step P t (dispatch_launch t)"
| step_send: "e \<in> set (tr_inflight t) \<Longrightarrow> sendNACK ds io e t = Some r \<Longrightarrow> restricted_step P t (sr_tracker r)"
| step_done: "e \<in> set (tr_inflight t) \<Longrightarrow> P e out t \<Longrightarrow> apply_outcome now draw e out t = Some t' \<Longrightarrow>
    restricted_step P t (t'\<lparr>tr_inflight := remove1 e (tr_inflight t')\<rparr>)"
| step_recover: "restricted_step P t (RegisterRecover w f t)"
| step_set_recover: "restricted_step P t (SetRecoverFunc f t)"
| step_source: "restricted_step P t (SetNACKSource parseIP addr t)"
| step_registry: "registry_step (tr_registry t) reg \<Longrightarrow> restricted_step P t (t\<lparr>tr_registry := reg\<rparr>)"

abbreviation tracker_step :: "Tracker \<Rightarrow> Tracker \<Rightarrow> bool" where
  "tracker_step \<equiv> restricted_step (\<lambda>_ _ _. True)"

lemma tracker_ok_wiring:
  assumes "tracker_ok t"
  shows "tracker_ok (RegisterRecover w f t)" "tracker_ok (SetRecoverFunc f t)" "tracker_ok (SetNACKSource parseIP addr t)"
  using assms
  by (simp_all add: tracker_ok_def RegisterRecover_def SetRecoverFunc_def SetNACKSource_def Let_def registry_ok_Seed)

lemma tracker_ok_release: "tracker_ok t \<Longrightarrow> tracker_ok (t\<lparr>tr_inflight := remove1 e (tr_inflight t)\<rparr>)"
  by (auto simp: tracker_ok_def length_remove1)

lemma tracker_ok_registry: "tracker_ok t \<Longrightarrow> registry_step (tr_registry t) reg \<Longrightarrow> tracker_ok (t\<lparr>tr_registry := reg\<rparr>)"
  using registry_inv.inv_step [of "tr_registry t" reg] by (simp add: tracker_ok_def)

lemma tracker_ok_step:
  assumes "tracker_ok t" and "restricted_step P t t'"
  shows "tracker_ok t'"
  using assms(2)
proof cases
  case (step_observe now draw ow g sid hk seq src)
  then show ?thesis by (rule tracker_ok_ObserveFrom [OF assms(1)])
next
  case (step_request now draw ow hk g sid seqs)
  then show ?thesis by (rule tracker_ok_RequestGapsFrom [OF assms(1)])
next
  case (step_send e ds io r)
  then show ?thesis using tracker_ok_sendNACK [OF assms(1)] by simp
next
  case (step_done e out now draw t1)
  then show ?thesis using tracker_ok_apply_outcome [OF assms(1)] tracker_ok_release by simp
qed (use assms(1) in \<open>simp_all add: tracker_ok_wiring tracker_ok_registry tracker_ok_Fill tracker_ok_sweepOnce tracker_ok_dispatch\<close>)

text \<open>Configuration and the sender bound never change.\<close>

definition same_setup :: "Tracker \<Rightarrow> Tracker \<Rightarrow> bool" where
  "same_setup t t' \<longleftrightarrow> tr_cfg t' = tr_cfg t \<and> tr_rec t' = tr_rec t \<and> tr_maxConcurrent t' = tr_maxConcurrent t \<and>
     tr_respTimeout t' = tr_respTimeout t"

lemma same_setup_put [simp]: "same_setup t (put_flow hk fs ms t)"
  by (simp add: same_setup_def put_flow_def)

lemma same_setup_refl [simp]: "same_setup t t"
  by (simp add: same_setup_def)

lemma same_setup_outcome:
  assumes "apply_outcome now draw e out t = Some t'"
  shows "same_setup t t'"
proof (cases out)
  case (Advance im n)
  then show ?thesis using assms
    by (cases "map_of (tr_flows t) (gp_hashKey e)"; cases "map_of (fs_pending (the (map_of (tr_flows t) (gp_hashKey e)))) (gp_seqNum e)")
       (auto simp: advanceEndpoint_def bind_eq_Some_conv)
next
  case (Throttle flags)
  then show ?thesis using assms
    by (cases "map_of (tr_flows t) (gp_hashKey e)"; cases "map_of (fs_pending (the (map_of (tr_flows t) (gp_hashKey e)))) (gp_seqNum e)")
       (auto simp: throttleGap_def bind_eq_Some_conv)
qed (use assms in \<open>auto simp: cancelGap_def abandonGap_def probeMissed_def split_beta Let_def split: option.splits\<close>)

lemma same_setup_sendNACK: "sendNACK ds io e t = Some r \<Longrightarrow> same_setup t (sr_tracker r)"
  unfolding sendNACK_def Let_def split_beta same_setup_def
  by (auto simp: bind_eq_Some_conv split: if_splits)

lemma same_setup_simple:
  "same_setup t (Fill hk seq t)" "same_setup t (sweepOnce fmul now t)" "same_setup t (dispatch_take t)"
  "same_setup t (dispatch_launch t)" "same_setup t (RegisterRecover w f t)" "same_setup t (SetRecoverFunc f t)"
  "same_setup t (SetNACKSource parseIP addr t)" "same_setup t (t\<lparr>tr_registry := reg\<rparr>)"
  by (simp_all add: Fill_def split_beta split: option.split)
     (simp_all add: same_setup_def sweepOnce_def dispatch_take_def dispatch_launch_def RegisterRecover_def
        SetRecoverFunc_def SetNACKSource_def Let_def split_beta split: option.split list.split)

lemma same_setup_step: "restricted_step P t t' \<Longrightarrow> same_setup t t'"
proof (induction rule: restricted_step.induct)
  case (step_observe now draw ow g sid hk seq src t t')
  then show ?case by (cases rule: ObserveFrom_cases) (simp_all add: same_setup_def)
next
  case (step_request now draw ow hk g sid seqs t t')
  then show ?case by (cases rule: RequestGapsFrom_cases) (simp_all add: same_setup_def)
next
  case (step_done e t out now draw t')
  then show ?case using same_setup_outcome [OF step_done(3)] by (simp add: same_setup_def)
qed (simp_all add: same_setup_simple same_setup_sendNACK)

abbreviation tracker_init :: "TrackerConfig \<Rightarrow> string list \<Rightarrow> bool \<Rightarrow> Tracker \<Rightarrow> bool" where
  "tracker_init cfg eps rc t \<equiv> t = New_Tracker cfg eps rc None"

definition tracker_inv :: "TrackerConfig \<Rightarrow> string list \<Rightarrow> bool \<Rightarrow> Tracker \<Rightarrow> bool" where
  "tracker_inv cfg eps rc t \<longleftrightarrow> tracker_ok t \<and> same_setup (New_Tracker cfg eps rc None) t"

interpretation tracker: step_invariant "tracker_init cfg eps rc" tracker_step "tracker_inv cfg eps rc" for cfg eps rc
proof
  show "tracker_inv cfg eps rc s" if "tracker_init cfg eps rc s" for s
    using that tracker_ok_New [of None] by (simp add: tracker_inv_def)
  show "tracker_inv cfg eps rc t'" if "tracker_inv cfg eps rc t" "tracker_step t t'" for t t'
    using that tracker_ok_step same_setup_step [of _ t t'] by (auto simp: tracker_inv_def same_setup_def)
qed

text \<open>
  C1. In every state the tracker can reach, under any interleaving of observations, requests,
  sweeps, dispatches and sender completions, its memory is bounded and its tables are keyed
  correctly: at most \<^verbatim>\<open>MaxFlows\<close> flows (when a cap is set), at most 4096 queued gaps, at most 64
  senders, at most 4096 remembered abandonments per flow, each flow listed once, and each pending
  entry filed under its own flow and sequence number, once.
\<close>

theorem tracker_bounded:
  assumes "reach (tracker_init cfg eps rc) tracker_step t"
  shows "(tc_MaxFlows cfg > 0 \<longrightarrow> int (FlowCount t) \<le> tc_MaxFlows cfg) \<and>
    length (tr_nackQueue t) \<le> 4096 \<and> length (tr_inflight t) \<le> 64 \<and> distinct (map fst (tr_flows t)) \<and>
    (\<forall>(hk, fs)\<in>set (tr_flows t). length (fs_abandoned fs) \<le> 4096 \<and> distinct (map fst (fs_pending fs)) \<and>
       (\<forall>(m, e)\<in>set (fs_pending fs). gp_seqNum e = m \<and> gp_hashKey e = hk))"
proof -
  have inv: "tracker_inv cfg eps rc t" by (rule tracker.reach_inv [OF assms])
  then have ok: "tracker_ok t" and m: "tr_maxConcurrent t = 64" "tc_MaxFlows (tr_cfg t) = tc_MaxFlows cfg"
    by (simp_all add: tracker_inv_def same_setup_def New_Tracker_def Let_def)
  have fl: "\<forall>(hk, fs)\<in>set (tr_flows t). length (fs_abandoned fs) \<le> 4096 \<and> distinct (map fst (fs_pending fs)) \<and>
       (\<forall>(m, e)\<in>set (fs_pending fs). gp_seqNum e = m \<and> gp_hashKey e = hk)"
    using ok by (auto simp: tracker_ok_def list_all_iff flow_ok_def abandonedMax_def)
  show ?thesis
    using ok m fl unfolding tracker_ok_def FlowCount_def nackQueueCap_def by simp
qed

theorem tracker_bounded_witness:
  "reach (tracker_init demo_cfg [''[fd00::1]:9300'', ''[fd00::2]:9300''] True) tracker_step demo_tracker \<and>
   int (FlowCount demo_tracker) \<le> 2 \<and> length (tr_inflight demo_tracker) \<le> 64"
proof -
  have r: "reach (tracker_init demo_cfg [''[fd00::1]:9300'', ''[fd00::2]:9300''] True) tracker_step demo_tracker"
    by (rule reach_step [rotated], rule step_observe [OF demo_tracker_run], rule reach_init, rule refl)
  from tracker_bounded [OF r] show ?thesis using r by (simp add: demo_cfg_def)
qed

section \<open>The ledger along a run\<close>

lemma ledger_put_existing:
  assumes "ledger t" and "tracker_ok t" and "map_of (tr_flows t) hk = Some fs"
    and "booked is_sup ms + booked is_unrec ms + losses (fs_pending fs') \<le> booked is_det ms + losses (fs_pending fs)"
  shows "ledger (put_flow hk fs' ms t)"
  using assms(1,4) total_losses_put [OF assms(2) found_existing [OF assms(3)], of fs' ms]
  by (simp add: ledger_def put_flow_def)

lemma ledger_cong:
  "ledger t \<Longrightarrow> tr_flows t' = tr_flows t \<Longrightarrow> tr_metrics t' = tr_metrics t \<Longrightarrow> ledger t'"
  by (simp add: ledger_def total_losses_def)

lemma flow_ok_wf: "flow_ok hk fs \<Longrightarrow> wf_map (fs_pending fs)"
  by (simp add: flow_ok_def)

lemma losses_del_le: "losses (map_del m ps) \<le> losses ps"
  by (induction ps) auto

lemma losses_put:
  "wf_map ps \<Longrightarrow> map_of ps m = Some e \<Longrightarrow> gp_speculative e' = gp_speculative e \<Longrightarrow> losses (map_put m e' ps) = losses ps"
  by (induction ps) (auto split: if_splits)

lemma ledger_fill_pending:
  assumes "ledger t" and "tracker_ok t" and "tr_rec t" and "map_of (tr_flows t) hk = Some fs"
    and "map_of (fs_pending fs) seq = Some e"
  shows "ledger (put_flow hk (fst (bookFill True e (fs\<lparr>fs_pending := map_del seq (fs_pending fs)\<rparr>)))
                             (snd (bookFill True e (fs\<lparr>fs_pending := map_del seq (fs_pending fs)\<rparr>))) t)"
  using ledger_put_existing [OF assms(1,2,4)] balance_bookFill [of e "fs\<lparr>fs_pending := map_del seq (fs_pending fs)\<rparr>"]
    losses_del [OF flow_ok_wf [OF tracker_ok_flow [OF assms(2,4)]] assms(5)]
  by (simp add: balance_def)

lemma ledger_Fill:
  assumes "ledger t" and "tracker_ok t" and "tr_rec t"
  shows "ledger (Fill hk seq t)"
proof (cases "map_of (tr_flows t) hk")
  case (Some fs)
  have "ledger (put_flow hk (fst (noteLateFill True seq fs)) (snd (noteLateFill True seq fs)) t)"
    using ledger_put_existing [OF assms(1,2) Some] balance_late [of seq fs "losses (fs_pending fs)"]
    by (simp add: balance_def)
  then show ?thesis
    using assms Some ledger_fill_pending [OF assms Some] by (simp add: Fill_def split_beta split: option.split)
qed (use assms in \<open>simp add: Fill_def\<close>)

lemma ledger_cancelGap:
  assumes "ledger t" and "tracker_ok t" and "tr_rec t"
  shows "ledger (cancelGap e t)"
  unfolding cancelGap_def using assms ledger_fill_pending [OF assms]
  by (simp add: split_beta split: option.split)

lemma ledger_probeMissed: "ledger t \<Longrightarrow> tracker_ok t \<Longrightarrow> ledger (probeMissed e t)"
  unfolding probeMissed_def
  by (auto simp: retireProbe_def emits_def losses_del_le intro!: ledger_put_existing split: option.split)

lemma ledger_put_entry:
  assumes "ledger t" and "tracker_ok t" and "map_of (tr_flows t) hk = Some fs"
    and "map_of (fs_pending fs) m = Some e" and "gp_speculative e' = gp_speculative e"
    and "booked is_sup ms = 0" and "booked is_unrec ms = 0"
  shows "ledger (put_flow hk (fs\<lparr>fs_pending := map_put m e' (fs_pending fs)\<rparr>) ms t)"
  using ledger_put_existing [OF assms(1-3)] assms(6,7)
    losses_put [OF flow_ok_wf [OF tracker_ok_flow [OF assms(2,3)]] assms(4,5)] by simp

lemma ledger_advanceEndpoint:
  assumes "ledger t" and "tracker_ok t" and r: "advanceEndpoint now draw e im n t = Some t'"
  shows "ledger t'"
proof (cases "map_of (tr_flows t) (gp_hashKey e)")
  case (Some fs)
  note fl = this
  show ?thesis
  proof (cases "map_of (fs_pending fs) (gp_seqNum e)")
    case (Some e0)
    with r fl obtain e1 where "advance_entry (tr_cfg t) now draw im n e0 = Some e1"
      "t' = put_flow (gp_hashKey e) (fs\<lparr>fs_pending := map_put (gp_seqNum e) e1 (fs_pending fs)\<rparr>) [] t"
      by (auto simp: advanceEndpoint_def bind_eq_Some_conv)
    then show ?thesis using ledger_put_entry [OF assms(1,2) fl Some, of e1 "[]"] advance_entry_ids by simp
  qed (use r assms fl in \<open>simp add: advanceEndpoint_def\<close>)
qed (use r assms in \<open>simp add: advanceEndpoint_def\<close>)

lemma ledger_throttleGap:
  assumes "ledger t" and "tracker_ok t" and r: "throttleGap now draw e flags t = Some t'"
  shows "ledger t'"
proof (cases "map_of (tr_flows t) (gp_hashKey e)")
  case (Some fs)
  note fl = this
  show ?thesis
  proof (cases "map_of (fs_pending fs) (gp_seqNum e)")
    case (Some e0)
    with r fl obtain w where "t' = put_flow (gp_hashKey e) (fs\<lparr>fs_pending := map_put (gp_seqNum e)
        (e0\<lparr>gp_retries := gp_retries e0 + 1, gp_nextAttempt := now + w\<rparr>) (fs_pending fs)\<rparr>)
        (emits (tr_rec t) [NACKThrottled (flowLabel (gp_groupIdx e)) (srcStr (gp_source e))]) t"
      by (auto simp: throttleGap_def bind_eq_Some_conv)
    then show ?thesis using ledger_put_entry [OF assms(1,2) fl Some] by (simp add: emits_def)
  qed (use r assms fl in \<open>auto simp: throttleGap_def bind_eq_Some_conv\<close>)
qed (use r assms in \<open>auto simp: throttleGap_def bind_eq_Some_conv\<close>)

text \<open>The completion abandons a loss only while that loss is still pending.\<close>

definition still_pending :: "gapEntry \<Rightarrow> send_outcome \<Rightarrow> Tracker \<Rightarrow> bool" where
  "still_pending e out t \<longleftrightarrow>
     (case out of
        Abandon _ \<Rightarrow> gp_speculative e \<or>
          (\<exists>fs e'. map_of (tr_flows t) (gp_hashKey e) = Some fs \<and>
             map_of (fs_pending fs) (gp_seqNum e) = Some e' \<and> \<not> gp_speculative e')
      | _ \<Rightarrow> True)"

lemma ledger_abandonGap:
  assumes "ledger t" and "tracker_ok t" and "still_pending e (Abandon r) t"
  shows "ledger (abandonGap now e r t)"
proof (cases "map_of (tr_flows t) (gp_hashKey e)")
  case (Some fs)
  let ?f = "fs\<lparr>fs_pending := map_del (gp_seqNum e) (fs_pending fs),
               fs_probing := (if fs_probing fs = gp_seqNum e then 0 else fs_probing fs)\<rparr>"
  have "ledger (put_flow (gp_hashKey e) ?f [] t)"
    by (rule ledger_put_existing [OF assms(1,2) Some]) (simp add: losses_del_le)
  moreover have "ledger (put_flow (gp_hashKey e) (fst (bookAbandon rc now (gp_seqNum e) src r ?f))
      (snd (bookAbandon rc now (gp_seqNum e) src r ?f)) t)" if ns: "\<not> gp_speculative e" for rc src
  proof -
    obtain e' where "map_of (fs_pending fs) (gp_seqNum e) = Some e'" "\<not> gp_speculative e'"
      using assms(3) ns Some by (auto simp: still_pending_def)
    then have "losses (fs_pending fs) = Suc (losses (map_del (gp_seqNum e) (fs_pending fs)))"
      using losses_del [OF flow_ok_wf [OF tracker_ok_flow [OF assms(2) Some]]] by simp
    then show ?thesis
      by (intro ledger_put_existing [OF assms(1,2) Some]) (simp add: bookAbandon_def emits_def)
  qed
  ultimately show ?thesis using Some by (simp add: abandonGap_def Let_def split_beta)
qed (use assms in \<open>simp add: abandonGap_def\<close>)

text \<open>A sweep step is balanced when it only books what it removes.\<close>

definition even_books :: "metric list \<Rightarrow> nat \<Rightarrow> nat \<Rightarrow> bool" where
  "even_books ms before after \<longleftrightarrow> booked is_sup ms = 0 \<and> booked is_det ms = 0 \<and> booked is_unrec ms + after = before"

lemma even_books_append: "even_books ms1 a b \<Longrightarrow> even_books ms2 b c \<Longrightarrow> even_books (ms1 @ ms2) a c"
  by (simp add: even_books_def)

lemma evict_gap_pending: "fs_pending (fst (evict_gap rc now r m e fs)) = map_del m (fs_pending fs)"
  by (simp add: evict_gap_def Let_def retireProbe_def)

lemma even_evict_gap:
  assumes "wf_map (fs_pending fs)" and "map_of (fs_pending fs) m = Some e"
  shows "even_books (snd (evict_gap True now r m e fs)) (losses (fs_pending fs))
           (losses (fs_pending (fst (evict_gap True now r m e fs))))"
  using losses_del [OF assms] evict_gap_pending [of True now r m e fs]
  by (auto simp: even_books_def evict_gap_def Let_def bookAbandon_def emits_def)

lemma sweep_gap_pending:
  "fs_pending (fst (sweep_gap cfg rc rt now m e fs q)) \<in>
     {fs_pending fs, map_del m (fs_pending fs)} \<union>
     {map_put m (e\<lparr>gp_nextAttempt := x\<rparr>) (fs_pending fs) | x. True}"
  by (auto simp: sweep_gap_def Let_def split_beta evict_gap_pending split: option.split)

lemma even_sweep_gap:
  assumes "wf_map (fs_pending fs)" and "map_of (fs_pending fs) m = Some e"
  shows "even_books (snd (snd (sweep_gap cfg True rt now m e fs q))) (losses (fs_pending fs))
           (losses (fs_pending (fst (sweep_gap cfg True rt now m e fs q))))"
  using even_evict_gap [OF assms, of now] losses_put [OF assms]
  by (auto simp: sweep_gap_def Let_def split_beta even_books_def split: option.split)

lemma sweep_gap_other:
  "k \<noteq> m \<Longrightarrow> map_of (fs_pending (fst (sweep_gap cfg rc rt now m e fs q))) k = map_of (fs_pending fs) k"
  using sweep_gap_pending [of cfg rc rt now m e fs q] by auto

lemma sweep_gap_wf:
  "wf_map (fs_pending fs) \<Longrightarrow> wf_map (fs_pending (fst (sweep_gap cfg rc rt now m e fs q)))"
  using sweep_gap_pending [of cfg rc rt now m e fs q] by auto

lemma even_sweep_gaps:
  assumes "wf_map (fs_pending fs)" and "wf_map ps" and "\<And>m e. (m, e) \<in> set ps \<Longrightarrow> map_of (fs_pending fs) m = Some e"
  shows "even_books (snd (snd (sweep_gaps cfg True rt now ps fs q))) (losses (fs_pending fs))
           (losses (fs_pending (fst (sweep_gaps cfg True rt now ps fs q))))"
  using assms
proof (induction ps arbitrary: fs q)
  case Nil
  then show ?case by (simp add: even_books_def)
next
  case (Cons p ps)
  obtain m e where p: "p = (m, e)" by force
  let ?r = "sweep_gap cfg True rt now m e fs q"
  have 1: "even_books (snd (snd ?r)) (losses (fs_pending fs)) (losses (fs_pending (fst ?r)))"
    using Cons.prems(1,3) p by (intro even_sweep_gap) auto
  have "map_of (fs_pending (fst ?r)) m' = Some e'" if "(m', e') \<in> set ps" for m' e'
    using sweep_gap_other [of m' m cfg True rt now e fs q] Cons.prems(2,3) that p by force
  from Cons.IH [OF sweep_gap_wf [OF Cons.prems(1)] _ this] Cons.prems(2)
  have "even_books (snd (snd (sweep_gaps cfg True rt now ps (fst ?r) (fst (snd ?r))))) (losses (fs_pending (fst ?r)))
      (losses (fs_pending (fst (sweep_gaps cfg True rt now ps (fst ?r) (fst (snd ?r))))))" by simp
  from even_books_append [OF 1 this] show ?case using p by (simp add: split_beta)
qed

lemma even_probe:
  "fs_pending fs = [] \<Longrightarrow>
   even_books (snd (snd (maybeProbeTail fmul cfg True now hk fs q))) 0
     (losses (fs_pending (fst (maybeProbeTail fmul cfg True now hk fs q))))"
  by (simp add: maybeProbeTail_def Let_def even_books_def emits_def split: option.split)

lemma even_sweep_flow:
  assumes "wf_map (fs_pending fs)" and "sweep_flow fmul cfg True rt now hk fs q = (r, q', ms)"
  shows "even_books ms (losses (fs_pending fs)) (case r of None \<Rightarrow> 0 | Some fs' \<Rightarrow> losses (fs_pending fs'))"
proof -
  let ?f = "fs\<lparr>fs_abandoned := filter (\<lambda>(seq, since). \<not> time_sub now since > abandonedTTL) (fs_abandoned fs)\<rparr>"
  obtain fs1 q1 ms1 where s: "sweep_gaps cfg True rt now (fs_pending ?f) ?f q = (fs1, q1, ms1)" by (rule prod_cases3)
  have 1: "even_books ms1 (losses (fs_pending fs)) (losses (fs_pending fs1))"
    using even_sweep_gaps [of ?f "fs_pending ?f" cfg rt now q] assms(1) s by simp
  obtain fs2 q2 ms2 where p: "(if length (fs_pending fs1) = 0 then maybeProbeTail fmul cfg True now hk fs1 q1 else (fs1, q1, []))
      = (fs2, q2, ms2)" by (rule prod_cases3)
  have 2: "even_books ms2 (losses (fs_pending fs1)) (losses (fs_pending fs2))"
  proof (cases "fs_pending fs1 = []")
    case True
    then show ?thesis using even_probe [OF True, of fmul cfg now hk q1] p by simp
  next
    case False
    then show ?thesis using p by (auto simp: even_books_def)
  qed
  have "ms = ms1 @ ms2" "r = None \<and> fs_pending fs2 = [] \<or> r = Some fs2"
    using assms(2) s p by (auto simp: sweep_flow_def Let_def split: if_splits)
  then show ?thesis using even_books_append [OF 1 2] by auto
qed

lemma even_sweep_flows:
  assumes "\<And>hk fs. (hk, fs) \<in> set fl \<Longrightarrow> wf_map (fs_pending fs)" and "sweep_flows fmul cfg True rt now fl q = (fl', q', ms)"
  shows "even_books ms (sum_list (map (\<lambda>(hk, fs). losses (fs_pending fs)) fl))
           (sum_list (map (\<lambda>(hk, fs). losses (fs_pending fs)) fl'))"
  using assms
proof (induction fl arbitrary: q fl' q' ms)
  case (Cons f fl)
  obtain hk fs where f: "f = (hk, fs)" by force
  obtain r q1 ms1 where s: "sweep_flow fmul cfg True rt now hk fs q = (r, q1, ms1)" by (rule prod_cases3)
  obtain fl2 q2 ms2 where s2: "sweep_flows fmul cfg True rt now fl q1 = (fl2, q2, ms2)" by (rule prod_cases3)
  have "even_books ms1 (losses (fs_pending fs)) (case r of None \<Rightarrow> 0 | Some fs' \<Rightarrow> losses (fs_pending fs'))"
    using Cons.prems(1) f by (intro even_sweep_flow [OF _ s]) auto
  moreover have "even_books ms2 (sum_list (map (\<lambda>(hk, fs). losses (fs_pending fs)) fl))
           (sum_list (map (\<lambda>(hk, fs). losses (fs_pending fs)) fl2))"
    using Cons.prems(1) by (intro Cons.IH [OF _ s2]) auto
  ultimately show ?case
    using Cons.prems(2) f s s2 by (auto simp: even_books_def split: option.splits)
qed (simp add: even_books_def)

lemma ledger_sweepOnce:
  assumes "ledger t" and "tracker_ok t" and "tr_rec t"
  shows "ledger (sweepOnce fmul now t)"
proof -
  obtain fl q ms where s: "sweep_flows fmul (tr_cfg t) True (tr_respTimeout t) now (tr_flows t) (tr_nackQueue t) = (fl, q, ms)"
    by (rule prod_cases3)
  have "even_books ms (total_losses t) (sum_list (map (\<lambda>(hk, fs). losses (fs_pending fs)) fl))"
    unfolding total_losses_def
    using assms(2) by (intro even_sweep_flows [OF _ s]) (auto simp: tracker_ok_def list_all_iff flow_ok_def)
  then show ?thesis
    using assms s by (simp add: sweepOnce_def ledger_def even_books_def total_losses_def)
qed

lemma ledger_RequestGapsFrom:
  assumes "ledger t" and "tracker_ok t" and "tr_rec t" and r: "RequestGapsFrom now draw ow hk g sid seqs t = Some t'"
  shows "ledger t'"
  using r
proof (cases rule: RequestGapsFrom_cases)
  case (flow fs fs1 fs' es)
  have "fs_pending fs1 = fs_pending fs" using flow(2) by simp
  then have "balance (detected True fs' (fs_source fs') es) (losses (fs_pending fs)) (losses (fs_pending fs'))"
    using register_losses [OF flow(3)] balance_detected [of fs' "fs_source fs'" es "losses (fs_pending fs)"] by simp
  from ledger_put_flow [OF assms(1,2) flow(1) this] show ?thesis
    using flow(4) assms(3) by (auto intro: ledger_cong)
qed (use assms in simp)

lemma ledger_sendNACK:
  assumes "ledger t" and "sendNACK ds io e t = Some r"
  shows "ledger (sr_tracker r)"
proof -
  have "ledger (t\<lparr>tr_registry := reg\<rparr>)"
    "ledger (t\<lparr>tr_registry := reg, tr_metrics := tr_metrics t @ emits rc [NACKSendError a]\<rparr>)"
    "ledger (t\<lparr>tr_registry := reg, tr_metrics := tr_metrics t @ emits rc [NACKDispatched a b]\<rparr>)" for reg rc a b
    using assms(1) by (simp_all add: ledger_def total_losses_def emits_def)
  then show ?thesis
    using assms(2) unfolding sendNACK_def Let_def split_beta by (auto simp: bind_eq_Some_conv split: if_splits)
qed

lemma ledger_wiring:
  assumes "ledger t"
  shows "ledger (dispatch_take t)" "ledger (dispatch_launch t)" "ledger (RegisterRecover w f t)"
    "ledger (SetRecoverFunc f t)" "ledger (SetNACKSource parseIP addr t)" "ledger (t\<lparr>tr_registry := reg\<rparr>)"
    "ledger (t\<lparr>tr_inflight := q\<rparr>)"
  using assms
  by (simp_all add: ledger_def total_losses_def dispatch_take_def dispatch_launch_def RegisterRecover_def
      SetRecoverFunc_def SetNACKSource_def Let_def split: option.split list.split)

lemma ledger_apply_outcome:
  assumes "ledger t" and "tracker_ok t" and "tr_rec t" and "still_pending e out t"
    and "apply_outcome now draw e out t = Some t'"
  shows "ledger t'"
  using assms
  by (cases out) (auto intro: ledger_advanceEndpoint ledger_throttleGap ledger_cancelGap ledger_abandonGap ledger_probeMissed)

lemma ledger_step:
  assumes "ledger t" and "tracker_ok t" and "tr_rec t" and "restricted_step still_pending t t'"
  shows "ledger t'"
  using assms(4)
proof cases
  case (step_observe now draw ow g sid hk seq src)
  then show ?thesis by (rule ledger_ObserveFrom [OF assms(1-3)])
next
  case (step_request now draw ow hk g sid seqs)
  then show ?thesis by (rule ledger_RequestGapsFrom [OF assms(1-3)])
next
  case (step_send e ds io r)
  then show ?thesis using ledger_sendNACK [OF assms(1)] by simp
next
  case (step_done e out now draw t1)
  then show ?thesis using ledger_apply_outcome [OF assms(1-3)] ledger_wiring(7) by simp
qed (use assms in \<open>simp_all add: ledger_wiring ledger_Fill ledger_sweepOnce\<close>)

interpretation books: step_invariant "tracker_init cfg eps True" "restricted_step still_pending"
    "\<lambda>t. tracker_inv cfg eps True t \<and> ledger t" for cfg eps
proof
  show "tracker_inv cfg eps True s \<and> ledger s" if "tracker_init cfg eps True s" for s
    using that tracker.inv_init [of s cfg eps True]
    by (simp add: ledger_def New_Tracker_def Let_def total_losses_def)
  show "tracker_inv cfg eps True t' \<and> ledger t'"
    if "tracker_inv cfg eps True t \<and> ledger t" "restricted_step still_pending t t'" for t t'
    using that tracker_ok_step [of t still_pending t'] same_setup_step [of still_pending t t'] ledger_step [of t t']
    by (auto simp: tracker_inv_def same_setup_def New_Tracker_def Let_def)
qed



section \<open>A gap filled while its NACK is in flight\<close>

lemma sendNACK_inflight: "sendNACK ds io e t = Some r \<Longrightarrow> tr_inflight (sr_tracker r) = tr_inflight t"
  unfolding sendNACK_def Let_def split_beta by (auto simp: bind_eq_Some_conv split: if_splits)

lemma reach_run_send:
  assumes "reach I tracker_step t" and "e \<in> set (tr_inflight t)" and "run_send ds io now draw e t = Some t'"
  shows "reach I tracker_step t'"
proof -
  obtain r t1 where r: "sendNACK ds io e t = Some r" "apply_outcome now draw e (sr_outcome r) (sr_tracker r) = Some t1"
    "t' = t1\<lparr>tr_inflight := remove1 e (tr_inflight t1)\<rparr>"
    using assms(3) by (auto simp: run_send_def bind_eq_Some_conv)
  have "reach I tracker_step (sr_tracker r)" by (rule reach_step [OF assms(1) step_send [OF assms(2) r(1)]])
  then show ?thesis
    using step_done [OF _ TrueI r(2)] sendNACK_inflight [OF r(1)] assms(2) r(3) by (auto intro: reach_step)
qed

lemmas observe_eval = ObserveFrom_def at_flow_cap_def Let_def observe_flow_def noteLateFill_def arrive_def
  auto_fill_def advance_stream_def new_flow_def put_flow_def ownerUnknown_def implausible_def max_jump_def
  step_gap_def word_range.simps new_gap_def int64N_def bookFill_def detected_def emits_def min_dur_def max_dur_def
  step_old_def reset_threshold_def

lemmas dispatch_eval = sweepOnce_def sweep_flow_def sweep_gap_def enqueue_def nackQueueCap_def dispatch_take_def
  dispatch_launch_def run_send_def sendNACK_def Snapshot_def recoverFor_def abandonGap_def bookAbandon_def
  is_retransmit_def minRetransmitFrame_def clamp_idx_def abandonedMax_def abandonedTTL_def

lemmas demo_eval = demo_tracker_def demo_flow_def demo_cfg_def New_Tracker_def RegisterRecover_def
  millisecond_def second_def Seed_def NewRegistry_def merged_def sort_slice_def ep_key_def seed_entry_def
  Encode_def put_head_def NACKSize_def nack_for_def

definition race_io :: send_io where
  "race_io = \<lparr>io_resolve = (\<lambda>_. True), io_listen = (\<lambda>_. True), io_write = (\<lambda>_. True), io_start = 24 * second,
     io_recv = [(24 * second, be32 nackMagic @ replicate 60 0)], io_accepts = (\<lambda>_ _. False)\<rparr>"

definition race_before :: "Tracker option" where
  "race_before =
     do { t1 \<leftarrow> ObserveFrom (21 * second) (\<lambda>_. 0) 0 3 7 42 7 (Some 1) (RegisterRecover 0 (Some 0) demo_tracker);
          let t2 = dispatch_launch (dispatch_take (sweepOnce (\<lambda>d f. d) (22 * second) t1));
          ObserveFrom (23 * second) (\<lambda>_. 0) 0 3 7 42 6 (Some 1) t2 }"

lemma race_before_reach:
  assumes "race_before = Some t"
  shows "reach (tracker_init demo_cfg [''[fd00::1]:9300'', ''[fd00::2]:9300''] True) tracker_step t"
proof -
  obtain t1 where t1: "ObserveFrom (21 * second) (\<lambda>_. 0) 0 3 7 42 7 (Some 1) (RegisterRecover 0 (Some 0) demo_tracker) = Some t1"
    "ObserveFrom (23 * second) (\<lambda>_. 0) 0 3 7 42 6 (Some 1)
       (dispatch_launch (dispatch_take (sweepOnce (\<lambda>d f. d) (22 * second) t1))) = Some t"
    using assms by (auto simp: race_before_def bind_eq_Some_conv Let_def)
  show ?thesis
    by (rule reach_step [rotated], rule step_observe [OF t1(2)], rule reach_step [rotated], rule step_launch,
        rule reach_step [rotated], rule step_take, rule reach_step [rotated], rule step_sweep,
        rule reach_step [rotated], rule step_observe [OF t1(1)], rule reach_step [rotated], rule step_recover,
        rule reach_step [rotated], rule step_observe [OF demo_tracker_run], rule reach_init, rule refl)
qed

text \<open>
  C27. Without that restriction the counters can overstate: the flow loses frame 6, the sweep
  dispatches a NACK for it, the frame itself arrives and is booked suppressed, and only then the
  sender gets the retransmit back and the pipeline rejects it. The completion books the same gap
  unrecovered as well: one gap detected, one suppressed and one unrecovered.
\<close>

theorem stale_abandon_double_books:
  "\<exists>t. reach (tracker_init demo_cfg [''[fd00::1]:9300'', ''[fd00::2]:9300''] True) tracker_step t \<and>
     booked is_det (tr_metrics t) = 1 \<and> booked is_sup (tr_metrics t) = 1 \<and> booked is_unrec (tr_metrics t) = 1"
proof -
  have "\<exists>t e q. race_before = Some t \<and> tr_inflight t = e # q \<and> (\<exists>t'. run_send [] race_io (25 * second) 0 e t = Some t' \<and>
     booked is_det (tr_metrics t') = 1 \<and> booked is_sup (tr_metrics t') = 1 \<and> booked is_unrec (tr_metrics t') = 1)"
    unfolding race_before_def
    by (simp add: observe_eval dispatch_eval demo_eval race_io_def wire_simps)
  then obtain t e q t' where t: "race_before = Some t" "tr_inflight t = e # q" "run_send [] race_io (25 * second) 0 e t = Some t'"
    "booked is_det (tr_metrics t') = 1" "booked is_sup (tr_metrics t') = 1" "booked is_unrec (tr_metrics t') = 1"
    by blast
  from reach_run_send [OF race_before_reach [OF t(1)] _ t(3)] t show ?thesis by auto
qed

end
