(* ===== verification/Tracker_Exchange.thy ===== *)
theory Tracker_Exchange
  imports Tracker_Repair
begin

text \<open>
  One NACK exchange: what is asked, of which endpoint, what may count as a repair, how a gap
  escalates through the tiers and backs off, what a sweep removes, and in which order the
  endpoints of a seeded tracker are asked.
\<close>

section \<open>Backoff and escalation\<close>

lemma jittered_wait_bounds:
  assumes "0 \<le> cap" and "cap \<le> max_dur" and "jittered_wait draw cap b = Some w"
  shows "(if b > cap \<or> b \<le> 0 then cap else b) div 2 \<le> w \<and> w \<le> (if b > cap \<or> b \<le> 0 then cap else b)"
proof -
  define c where "c = (if b > cap \<or> b \<le> 0 then cap else b)"
  have c: "0 \<le> c" "c \<le> max_dur" using assms(1,2) by (auto simp: c_def)
  have half: "c sdiv 2 = c div 2" by (rule sdiv_nonneg) (use c in auto)
  have wr: "wrap64 (c div 2 + 1) = c div 2 + 1"
    using c by (intro wrap64_id) (auto simp: min_dur_def max_dur_def)
  obtain r where r: "int64N draw (c div 2 + 1) = Some r" "w = wrap64 (c div 2 + r)"
    using assms(3) by (auto simp: jittered_wait_def Let_def half wr bind_eq_Some_conv simp flip: c_def)
  from int64N_Some [OF r(1)] have rb: "0 \<le> r" "r < c div 2 + 1" by simp_all
  have j: "c div 2 + r \<le> c" by (rule jitter_bounds(2)) (use c rb in auto)
  have "wrap64 (c div 2 + r) = c div 2 + r"
    using c rb j by (intro wrap64_id) (auto simp: min_dur_def)
  then show ?thesis using r(2) rb j by (simp flip: c_def)
qed

lemma jittered_wait_total:
  assumes "0 \<le> cap" and "cap \<le> max_dur"
  shows "\<exists>w. jittered_wait draw cap b = Some w"
proof -
  define c where "c = (if b > cap \<or> b \<le> 0 then cap else b)"
  have c: "0 \<le> c" "c \<le> max_dur" using assms by (auto simp: c_def)
  have half: "c sdiv 2 = c div 2" by (rule sdiv_nonneg) (use c in auto)
  have "wrap64 (c div 2 + 1) = c div 2 + 1"
    using c by (intro wrap64_id) (auto simp: min_dur_def max_dur_def)
  then show ?thesis using c by (simp add: jittered_wait_def Let_def half flip: c_def)
qed

text \<open>
  C25. The two ways a gap moves on after an unanswered NACK. A MISS with endpoints left escalates
  for free: the next endpoint, immediately, with the failure count cleared. Anything else counts
  one failed round and waits between half of and the whole of the backoff, which doubles per
  failed round from \<^verbatim>\<open>BackoffBase\<close> and never exceeds \<^verbatim>\<open>BackoffMax\<close> (a shift that overflows the
  duration counts as the maximum). The deadline, the identity of the gap and its speculative mark
  never change, and the update cannot panic when \<^verbatim>\<open>BackoffMax\<close> is not negative.
\<close>

theorem advance_entry_correct:
  assumes "0 < tc_BackoffBase cfg" and "0 \<le> tc_BackoffMax cfg" and "tc_BackoffMax cfg \<le> max_dur"
  shows "\<exists>e'. advance_entry cfg now draw immediate n e = Some e' \<and>
    gp_endpointIdx e' = gp_endpointIdx e + 1 \<and> gp_retries e' = gp_retries e + 1 \<and>
    gp_deadline e' = gp_deadline e \<and> gp_seqNum e' = gp_seqNum e \<and> gp_hashKey e' = gp_hashKey e \<and>
    gp_speculative e' = gp_speculative e \<and>
    (if immediate \<and> (n = 0 \<or> gp_endpointIdx e + 1 < n)
     then gp_failRounds e' = 0 \<and> gp_nextAttempt e' = now
     else gp_failRounds e' = gp_failRounds e + 1 \<and>
       gp_nextAttempt e' \<le> now + tc_BackoffMax cfg \<and>
       (let b = tc_BackoffBase cfg * 2 ^ gp_failRounds e in
        b \<le> max_dur \<longrightarrow> now + min b (tc_BackoffMax cfg) div 2 \<le> gp_nextAttempt e' \<and>
          gp_nextAttempt e' \<le> now + min b (tc_BackoffMax cfg)))"
proof (cases "immediate \<and> (n = 0 \<or> gp_endpointIdx e + 1 < n)")
  case True
  then show ?thesis by (auto simp: advance_entry_def Let_def)
next
  case False
  let ?b = "tc_BackoffBase cfg * 2 ^ gp_failRounds e"
  obtain w where w: "jittered_wait draw (tc_BackoffMax cfg) (wrap64 ?b) = Some w"
    using jittered_wait_total [OF assms(2,3)] by blast
  note bd = jittered_wait_bounds [OF assms(2,3) w]
  have ub: "w \<le> tc_BackoffMax cfg" using bd assms(2) by (auto split: if_splits)
  have pos: "0 < ?b" using assms(1) by simp
  have ex: "min ?b (tc_BackoffMax cfg) div 2 \<le> w \<and> w \<le> min ?b (tc_BackoffMax cfg)" if "?b \<le> max_dur"
  proof -
    have "wrap64 ?b = ?b" using pos that by (intro wrap64_id) (auto simp: min_dur_def)
    then show ?thesis using bd pos by (auto simp: min_def split: if_splits)
  qed
  have "advance_entry cfg now draw immediate n e =
      Some (e\<lparr>gp_retries := gp_retries e + 1, gp_endpointIdx := gp_endpointIdx e + 1,
              gp_failRounds := gp_failRounds e + 1, gp_nextAttempt := now + w\<rparr>)"
    using False w by (auto simp: advance_entry_def Let_def)
  then show ?thesis using False ub ex by (auto simp: Let_def)
qed

theorem advance_entry_correct_witness:
  "\<exists>e'. advance_entry demo_cfg (20 * second) 7 False 0 (the (new_gap demo_cfg 0 (\<lambda>_. 0) 42 3 7 None 0 6)) = Some e' \<and>
     gp_failRounds e' = 1 \<and> 20 * second + 250 * millisecond \<le> gp_nextAttempt e' \<and>
     gp_nextAttempt e' \<le> 20 * second + 500 * millisecond"
  using advance_entry_correct [of demo_cfg "20 * second" 7 False 0 "the (new_gap demo_cfg 0 (\<lambda>_. 0) 42 3 7 None 0 6)"]
  by (auto simp: demo_cfg_def millisecond_def second_def max_dur_def min_dur_def new_gap_def Let_def)

text \<open>Repeated MISS answers, each at its own time.\<close>

primrec miss_walk :: "TrackerConfig \<Rightarrow> nat \<Rightarrow> (gtime \<times> int) list \<Rightarrow> gapEntry \<Rightarrow> gapEntry option" where
  "miss_walk cfg n [] e = Some e"
| "miss_walk cfg n (c # cs) e = do { e' \<leftarrow> advance_entry cfg (fst c) (snd c) True n e; miss_walk cfg n cs e' }"

lemma miss_walk_free:
  assumes "gp_endpointIdx e + length cs < n"
  shows "\<exists>e'. miss_walk cfg n cs e = Some e' \<and> gp_endpointIdx e' = gp_endpointIdx e + length cs \<and>
     (cs \<noteq> [] \<longrightarrow> gp_failRounds e' = 0 \<and> gp_nextAttempt e' = fst (last cs))"
  using assms
proof (induction cs arbitrary: e)
  case (Cons c cs)
  let ?e = "e\<lparr>gp_retries := gp_retries e + 1, gp_endpointIdx := gp_endpointIdx e + 1, gp_failRounds := 0,
              gp_nextAttempt := fst c\<rparr>"
  have a: "advance_entry cfg (fst c) (snd c) True n e = Some ?e"
    using Cons.prems by (simp add: advance_entry_def Let_def)
  obtain e' where "miss_walk cfg n cs ?e = Some e'" "gp_endpointIdx e' = gp_endpointIdx ?e + length cs"
    "cs \<noteq> [] \<longrightarrow> gp_failRounds e' = 0 \<and> gp_nextAttempt e' = fst (last cs)"
    using Cons.IH [of ?e] Cons.prems by auto
  then show ?case using a by (cases "cs = []") auto
qed simp



section \<open>What is sent, and what counts as a repair\<close>

lemma Encode_nack_for: "\<exists>buf. Encode (nack_for e) (replicate NACKSize 0) = Some buf \<and> Decode buf = Inr (nack_for e)"
proof -
  obtain buf where "Encode (nack_for e) (replicate NACKSize 0) = Some buf" by (simp add: Encode_def)
  then show ?thesis using Decode_Encode_gen by (auto simp: nack_for_def)
qed

lemma recoverFor_registry: "recoverFor e (t\<lparr>tr_registry := reg\<rparr>) = recoverFor e t"
  by (auto simp: recoverFor_def)

lemma drain_reinjected:
  "snd (drain acc ri e n rs dl u) = Some (cb, d) \<Longrightarrow> ri = Some cb \<and> is_retransmit d \<and>
     fst (drain acc ri e n rs dl u) = (if acc cb d then Cancel else Abandon ''rejected'')"
  by (induction rs arbitrary: dl u) (auto simp: Let_def split: if_splits sum.splits)

text \<open>
  An exchange never panics. Whatever it puts on the wire is one 64-byte datagram that decodes
  to a NACK for exactly the gap's flow and sequence number, sent to the endpoint the gap has
  escalated to, or to the last one of the current snapshot once it has escalated past it. A frame
  is re-injected only into the callback resolved for the gap (its own worker's when that is
  registered), only if it looks like a retransmit, and the gap is then closed exactly when the
  pipeline accepted it.
\<close>

theorem sendNACK_asks_for_gap:
  "\<exists>r. sendNACK ds io e t = Some r \<and>
     (case sr_sent r of
        None \<Rightarrow> sr_reinjected r = None \<and> (sr_outcome r = Nothing \<or> (\<exists>n. sr_outcome r = Advance False n))
      | Some (addr, buf) \<Rightarrow> length buf = 64 \<and>
          Decode buf = Inr \<lparr>nk_MsgType = MsgTypeNACK, nk_HashKey = gp_hashKey e, nk_StartSeq = gp_seqNum e,
                            nk_EndSeq = gp_seqNum e, nk_SubtreeID = gp_subtreeID e\<rparr> \<and>
          (let snap = snd (Snapshot ds (tr_registry t))
           in snap \<noteq> [] \<and> addr = ep_Addr (snap ! min (gp_endpointIdx e) (length snap - 1)))) \<and>
     (case sr_reinjected r of
        None \<Rightarrow> True
      | Some (cb, d) \<Rightarrow> recoverFor e t = Some cb \<and> is_retransmit d \<and>
          sr_outcome r = (if io_accepts io cb d then Cancel else Abandon ''rejected''))"
proof -
  obtain buf where buf: "Encode (nack_for e) (replicate NACKSize 0) = Some buf" "Decode buf = Inr (nack_for e)"
    using Encode_nack_for by blast
  have len: "length buf = 64" using Encode_length [OF buf(1)] by (simp add: NACKSize_def)
  obtain reg snap where sn: "Snapshot ds (tr_registry t) = (reg, snap)" by force
  let ?t = "t\<lparr>tr_registry := reg\<rparr>"
  let ?ep = "snap ! clamp_idx (gp_endpointIdx e) (length snap)"
  have ri: "recoverFor e ?t = recoverFor e t" by (rule recoverFor_registry)
  have idx: "snap \<noteq> [] \<Longrightarrow> clamp_idx (gp_endpointIdx e) (length snap) = min (gp_endpointIdx e) (length snap - 1)"
    by (auto simp: clamp_idx_def)
  obtain out rj where d: "drain (io_accepts io) (recoverFor e t) e (length snap) (io_recv io)
      (io_start io + tr_respTimeout t) False = (out, rj)" by force
  have rj: "case rj of None \<Rightarrow> True | Some (cb, d) \<Rightarrow> recoverFor e t = Some cb \<and> is_retransmit d \<and>
      out = (if io_accepts io cb d then Cancel else Abandon ''rejected'')"
    using drain_reinjected [of "io_accepts io" "recoverFor e t" e "length snap" "io_recv io" "io_start io + tr_respTimeout t" False] d
    by (auto split: option.split)
  show ?thesis
    using buf len sn ri idx d rj
    unfolding sendNACK_def Let_def split_beta
    by (auto simp: nack_for_def split: if_splits option.splits)
qed

definition repair_ack :: "callback option \<Rightarrow> byte list \<Rightarrow> bool" where
  "repair_ack ri d =
     (case DecodeResponse (take 65536 d) of
        Inl _ \<Rightarrow> False
      | Inr resp \<Rightarrow> rs_MsgType resp = MsgTypeACK \<and>
          (rs_Flags resp AND respFlagUnicastSent = 0 \<or>
           ri = None \<and> rs_Flags resp AND respFlagMulticastSent \<noteq> 0))"

lemma drain_Cancel:
  "fst (drain acc ri e n rs dl u) = Cancel \<Longrightarrow>
   (\<exists>cb d. snd (drain acc ri e n rs dl u) = Some (cb, d) \<and> ri = Some cb \<and> acc cb d) \<or>
   list_ex (\<lambda>(tm, d). repair_ack ri d) rs"
proof (induction rs arbitrary: dl u)
  case (Cons c rs)
  obtain tm d where c: "c = (tm, d)" by force
  show ?case
  proof (cases "dl < tm \<or> ri \<noteq> None \<and> is_retransmit (take 65536 d)")
    case True
    then show ?thesis using Cons.prems c by (auto simp: Let_def split: if_splits)
  next
    case False
    then show ?thesis
      using Cons.prems Cons.IH [of dl u] Cons.IH [of "tm + unicastDrainWindow" True] c
      by (cases "DecodeResponse (take 65536 d)") (auto simp: Let_def repair_ack_def split: if_splits)
  qed
qed (auto split: if_splits)

text \<open>
  C22. No repair is claimed that the listener did not get: when an exchange closes a gap, either a
  data frame came back and the owning pipeline accepted it, or the endpoint acknowledged a
  multicast repair (an ACK not marked as sent by unicast, or, for a listener that cannot re-inject,
  one that names the multicast path too). A unicast-flagged ACK alone never closes a gap of a
  listener that could have consumed the data.
\<close>

theorem no_false_repair:
  assumes "sendNACK ds io e t = Some r" and "sr_outcome r = Cancel"
  shows "(\<exists>cb d. sr_reinjected r = Some (cb, d) \<and> recoverFor e t = Some cb \<and> io_accepts io cb d) \<or>
    list_ex (\<lambda>(tm, d). case DecodeResponse (take 65536 d) of
        Inl _ \<Rightarrow> False
      | Inr resp \<Rightarrow> rs_MsgType resp = MsgTypeACK \<and>
          (rs_Flags resp AND respFlagUnicastSent = 0 \<or>
           recoverFor e t = None \<and> rs_Flags resp AND respFlagMulticastSent \<noteq> 0)) (io_recv io)"
proof -
  from assms obtain n dl where
    "sr_reinjected r = snd (drain (io_accepts io) (recoverFor e t) e n (io_recv io) dl False)"
    "fst (drain (io_accepts io) (recoverFor e t) e n (io_recv io) dl False) = Cancel"
    unfolding sendNACK_def Let_def split_beta
    by (auto simp: bind_eq_Some_conv recoverFor_registry split: if_splits)
  with drain_Cancel [of "io_accepts io" "recoverFor e t" e n "io_recv io" dl False]
  show ?thesis by (auto simp: list_ex_iff repair_ack_def)
qed

definition ack_io :: send_io where
  "ack_io = \<lparr>io_resolve = (\<lambda>_. True), io_listen = (\<lambda>_. True), io_write = (\<lambda>_. True), io_start = 24 * second,
     io_recv = [(24 * second + 7, be32 nackMagic @ be16 nackProtoVer @ MsgTypeACK # respFlagMulticastSent # be64 6)],
     io_accepts = (\<lambda>_ _. False)\<rparr>"

definition demo_gap :: gapEntry where
  "demo_gap = the (new_gap demo_cfg (21 * second) (\<lambda>_. 0) 42 3 7 None 0 6)"

lemma ack_exchange:
  "\<exists>r. sendNACK [] ack_io demo_gap demo_tracker = Some r \<and> sr_outcome r = Cancel \<and> sr_reinjected r = None"
  by (simp add: dispatch_eval demo_eval ack_io_def demo_gap_def new_gap_def DecodeResponse_def ResponseSize_def
      wire_simps wire_consts respFlagMulticastSent_def respFlagUnicastSent_def min_dur_def max_dur_def Let_def)

theorem no_false_repair_witness:
  "\<exists>r. sendNACK [] ack_io demo_gap demo_tracker = Some r \<and> sr_outcome r = Cancel \<and>
     list_ex (\<lambda>(tm, d). case DecodeResponse (take 65536 d) of
        Inl _ \<Rightarrow> False
      | Inr resp \<Rightarrow> rs_MsgType resp = MsgTypeACK \<and>
          (rs_Flags resp AND respFlagUnicastSent = 0 \<or>
           recoverFor demo_gap demo_tracker = None \<and> rs_Flags resp AND respFlagMulticastSent \<noteq> 0)) (io_recv ack_io)"
proof -
  obtain r where r: "sendNACK [] ack_io demo_gap demo_tracker = Some r" "sr_outcome r = Cancel" "sr_reinjected r = None"
    using ack_exchange by blast
  from no_false_repair [OF r(1,2)] r show ?thesis by auto
qed

section \<open>What a sweep removes\<close>

definition worth_keeping :: "TrackerConfig \<Rightarrow> gtime \<Rightarrow> gapEntry \<Rightarrow> bool" where
  "worth_keeping cfg now e \<longleftrightarrow> now \<le> gp_deadline e \<and> int (gp_failRounds e) < tc_MaxRetries cfg"

lemma sweep_gap_lookup:
  assumes "map_of (fs_pending fs) m = Some e"
  shows "if worth_keeping cfg now e
    then \<exists>x. map_of (fs_pending (fst (sweep_gap cfg rc rt now m e fs q))) m = Some (e\<lparr>gp_nextAttempt := x\<rparr>)
    else map_of (fs_pending (fst (sweep_gap cfg rc rt now m e fs q))) m = None"
proof -
  have "e = e\<lparr>gp_nextAttempt := gp_nextAttempt e\<rparr>" by simp
  then have same: "\<exists>x. Some e = Some (e\<lparr>gp_nextAttempt := x\<rparr>)" by metis
  show ?thesis
    using assms same
    by (auto simp: sweep_gap_def worth_keeping_def Let_def split_beta evict_gap_pending split: option.split)
qed

lemma sweep_gaps_lookup:
  assumes "wf_map ps" and "\<And>m e. (m, e) \<in> set ps \<Longrightarrow> map_of (fs_pending fs) m = Some e"
  shows "case map_of ps k of
      None \<Rightarrow> map_of (fs_pending (fst (sweep_gaps cfg rc rt now ps fs q))) k = map_of (fs_pending fs) k
    | Some e \<Rightarrow> if worth_keeping cfg now e
        then \<exists>x. map_of (fs_pending (fst (sweep_gaps cfg rc rt now ps fs q))) k = Some (e\<lparr>gp_nextAttempt := x\<rparr>)
        else map_of (fs_pending (fst (sweep_gaps cfg rc rt now ps fs q))) k = None"
  using assms
proof (induction ps arbitrary: fs q)
  case (Cons p ps)
  obtain m e where p: "p = (m, e)" by force
  let ?r = "sweep_gap cfg rc rt now m e fs q"
  have step: "sweep_gaps cfg rc rt now (p # ps) fs q =
      (let r = sweep_gaps cfg rc rt now ps (fst ?r) (fst (snd ?r)) in (fst r, fst (snd r), snd (snd ?r) @ snd (snd r)))"
    by (simp add: p Let_def split_beta)
  have old: "map_of (fs_pending (fst ?r)) m' = Some e'" if "(m', e') \<in> set ps" for m' e'
    using sweep_gap_other [of m' m cfg rc rt now e fs q] Cons.prems that p by force
  have wf: "wf_map ps" and nk: "map_of ps m = None" using Cons.prems(1) p by (auto simp: map_of_None_iff)
  note IH = Cons.IH [OF wf old, where q = "fst (snd ?r)"]
  show ?case
  proof (cases "k = m")
    case True
    have "map_of (fs_pending fs) m = Some e" using Cons.prems(2) p by simp
    from sweep_gap_lookup [OF this, of cfg now rc rt q] IH nk True step show ?thesis by (simp add: p Let_def)
  next
    case False
    then show ?thesis
      using IH sweep_gap_other [OF False, of cfg rc rt now e fs q] step
      by (cases "map_of ps k") (simp_all add: p Let_def)
  qed
qed simp

lemma probe_worth_keeping:
  assumes "fs_pending fs = []" and "0 \<le> tc_GapTTL cfg" and "0 < tc_MaxRetries cfg"
    and "map_of (fs_pending (fst (maybeProbeTail fmul cfg rc now hk fs q))) m = Some e"
  shows "worth_keeping cfg now e"
  using assms by (auto simp: maybeProbeTail_def worth_keeping_def Let_def split: if_splits option.splits)

lemma sweep_flow_lookup:
  assumes wf: "wf_map (fs_pending fs)" and s: "sweep_flow fmul cfg rc rt now hk fs q = (r, q', ms)"
    and ttl: "0 \<le> tc_GapTTL cfg" and mr: "0 < tc_MaxRetries cfg"
  shows "(\<forall>fs'. r = Some fs' \<longrightarrow> (\<forall>m e. map_of (fs_pending fs') m = Some e \<longrightarrow> worth_keeping cfg now e)) \<and>
    (\<forall>m e. map_of (fs_pending fs) m = Some e \<longrightarrow> worth_keeping cfg now e \<longrightarrow>
      (\<exists>fs' x. r = Some fs' \<and> map_of (fs_pending fs') m = Some (e\<lparr>gp_nextAttempt := x\<rparr>)))"
proof -
  let ?f = "fs\<lparr>fs_abandoned := filter (\<lambda>(seq, since). \<not> time_sub now since > abandonedTTL) (fs_abandoned fs)\<rparr>"
  obtain fs1 q1 ms1 where g: "sweep_gaps cfg rc rt now (fs_pending ?f) ?f q = (fs1, q1, ms1)" by (rule prod_cases3)
  have l: "case map_of (fs_pending fs) k of None \<Rightarrow> map_of (fs_pending fs1) k = None
      | Some e \<Rightarrow> if worth_keeping cfg now e then \<exists>x. map_of (fs_pending fs1) k = Some (e\<lparr>gp_nextAttempt := x\<rparr>)
                 else map_of (fs_pending fs1) k = None" for k
    using sweep_gaps_lookup [where ps = "fs_pending ?f" and fs = ?f and k = k and cfg = cfg and now = now
        and rc = rc and rt = rt and q = q] wf g
    by (cases "map_of (fs_pending fs) k") auto
  have live: "worth_keeping cfg now e" if "map_of (fs_pending fs1) k = Some e" for k e
    using l [of k] that by (auto simp: worth_keeping_def split: option.splits if_splits)
  show ?thesis
  proof (cases "fs_pending fs1 = []")
    case True
    have "\<not> worth_keeping cfg now e" if "map_of (fs_pending fs) k = Some e" for k e
      using l [of k] that True by auto
    then show ?thesis
      using s g True probe_worth_keeping [OF True ttl mr, of fmul rc now hk q1]
      by (auto simp: sweep_flow_def Let_def split_beta split: if_splits)
  next
    case False
    then have r: "r = Some fs1" using s g by (auto simp: sweep_flow_def Let_def split_beta)
    have "\<exists>x. map_of (fs_pending fs1) m = Some (e\<lparr>gp_nextAttempt := x\<rparr>)"
      if "map_of (fs_pending fs) m = Some e" "worth_keeping cfg now e" for m e
      using l [of m] that by simp
    then show ?thesis using r live by blast
  qed
qed

lemma sweep_flows_lookup:
  assumes "wf_map fl"
  shows "case map_of fl hk of
      None \<Rightarrow> map_of (fst (sweep_flows fmul cfg rc rt now fl q)) hk = None
    | Some fs \<Rightarrow> \<exists>q1. map_of (fst (sweep_flows fmul cfg rc rt now fl q)) hk = fst (sweep_flow fmul cfg rc rt now hk fs q1)"
  using assms
proof (induction fl arbitrary: q)
  case (Cons f fl)
  obtain k fs where f: "f = (k, fs)" by force
  obtain r q1 ms1 where s: "sweep_flow fmul cfg rc rt now k fs q = (r, q1, ms1)" by (rule prod_cases3)
  have eq: "fst (sweep_flows fmul cfg rc rt now (f # fl) q) =
      (case r of None \<Rightarrow> fst (sweep_flows fmul cfg rc rt now fl q1)
       | Some fs' \<Rightarrow> (k, fs') # fst (sweep_flows fmul cfg rc rt now fl q1))"
    using f s by (cases r) (simp_all add: split_beta)
  have wf: "wf_map fl" "map_of fl k = None" using Cons.prems(1) f by (auto simp: map_of_None_iff)
  note IH = Cons.IH [OF wf(1), of q1]
  show ?case
  proof (cases "hk = k")
    case True
    then have "map_of (fst (sweep_flows fmul cfg rc rt now (f # fl) q)) hk = r"
      using eq IH wf(2) by (cases r) auto
    then show ?thesis using f s True by (auto intro: exI [of _ q])
  next
    case False
    then have "map_of (fst (sweep_flows fmul cfg rc rt now (f # fl) q)) hk = map_of (fst (sweep_flows fmul cfg rc rt now fl q1)) hk"
      using eq by (cases r) auto
    then show ?thesis using IH f False by (auto split: option.splits)
  qed
qed simp

lemma sweepOnce_flows:
  "tr_flows (sweepOnce fmul now t) =
     fst (sweep_flows fmul (tr_cfg t) (tr_rec t) (tr_respTimeout t) now (tr_flows t) (tr_nackQueue t))"
  by (simp add: sweepOnce_def split_beta Let_def)

text \<open>
  C23. A sweep removes exactly the gaps past their deadline or out of retries: every flow that
  survives keeps only gaps within both limits (a tail probe it may have added included), and every
  gap within both limits is still pending afterwards, in the same flow and unchanged except for
  the time of its next attempt.
\<close>

theorem sweep_keeps_exactly_live_gaps:
  assumes "tracker_ok t" and "0 \<le> tc_GapTTL (tr_cfg t)" and "0 < tc_MaxRetries (tr_cfg t)"
  shows "(\<forall>hk fs' m e. map_of (tr_flows (sweepOnce fmul now t)) hk = Some fs' \<longrightarrow> map_of (fs_pending fs') m = Some e \<longrightarrow>
      now \<le> gp_deadline e \<and> int (gp_failRounds e) < tc_MaxRetries (tr_cfg t)) \<and>
    (\<forall>hk fs m e. map_of (tr_flows t) hk = Some fs \<longrightarrow> map_of (fs_pending fs) m = Some e \<longrightarrow>
      now \<le> gp_deadline e \<longrightarrow> int (gp_failRounds e) < tc_MaxRetries (tr_cfg t) \<longrightarrow>
      (\<exists>fs' x. map_of (tr_flows (sweepOnce fmul now t)) hk = Some fs' \<and>
        map_of (fs_pending fs') m = Some (e\<lparr>gp_nextAttempt := x\<rparr>)))"
proof -
  let ?w = "worth_keeping (tr_cfg t) now" and ?fl = "tr_flows (sweepOnce fmul now t)"
  have wf: "wf_map (tr_flows t)" using assms(1) by (simp add: tracker_ok_def)
  note l = sweep_flows_lookup [OF wf, where fmul = fmul and cfg = "tr_cfg t" and rc = "tr_rec t"
      and rt = "tr_respTimeout t" and now = now and q = "tr_nackQueue t", folded sweepOnce_flows]
  have f: "(\<forall>fs'. fst (sweep_flow fmul (tr_cfg t) (tr_rec t) (tr_respTimeout t) now hk fs q) = Some fs' \<longrightarrow>
        (\<forall>m e. map_of (fs_pending fs') m = Some e \<longrightarrow> ?w e)) \<and>
      (\<forall>m e. map_of (fs_pending fs) m = Some e \<longrightarrow> ?w e \<longrightarrow>
        (\<exists>fs' x. fst (sweep_flow fmul (tr_cfg t) (tr_rec t) (tr_respTimeout t) now hk fs q) = Some fs' \<and>
          map_of (fs_pending fs') m = Some (e\<lparr>gp_nextAttempt := x\<rparr>)))"
    if "map_of (tr_flows t) hk = Some fs" for hk fs q
  proof -
    obtain r q' ms where s: "sweep_flow fmul (tr_cfg t) (tr_rec t) (tr_respTimeout t) now hk fs q = (r, q', ms)"
      by (rule prod_cases3)
    from sweep_flow_lookup [OF flow_ok_wf [OF tracker_ok_flow [OF assms(1) that]] s assms(2,3)] s
    show ?thesis by simp
  qed
  have "?w e" if "map_of ?fl hk = Some fs'" "map_of (fs_pending fs') m = Some e" for hk fs' m e
  proof (cases "map_of (tr_flows t) hk")
    case (Some fs)
    from l [where hk = hk] this obtain q1 where q1: "map_of ?fl hk =
        fst (sweep_flow fmul (tr_cfg t) (tr_rec t) (tr_respTimeout t) now hk fs q1)" by auto
    show ?thesis by (rule f [OF Some, THEN conjunct1, rule_format, OF q1 [symmetric, THEN trans, OF that(1)] that(2)])
  qed (use l [where hk = hk] that in simp)
  moreover have "\<exists>fs' x. map_of ?fl hk = Some fs' \<and> map_of (fs_pending fs') m = Some (e\<lparr>gp_nextAttempt := x\<rparr>)"
    if "map_of (tr_flows t) hk = Some fs" "map_of (fs_pending fs) m = Some e" "?w e" for hk fs m e
    using l [where hk = hk] f [OF that(1)] that by auto
  ultimately show ?thesis unfolding worth_keeping_def by blast
qed

definition gapped_tracker :: Tracker where
  "gapped_tracker = put_flow 42 (demo_flow\<lparr>fs_pending := [(6, demo_gap)]\<rparr>) [] demo_tracker"

lemma demo_gap_sel: "gp_hashKey demo_gap = 42" "gp_seqNum demo_gap = 6" "gp_failRounds demo_gap = 0"
  "gp_deadline demo_gap = 621 * second"
proof -
  have "new_gap demo_cfg (21 * second) (\<lambda>_. 0) 42 3 7 None 0 6 = Some demo_gap"
    using new_gap_total [OF demo_jitter, of "21 * second" "\<lambda>_. 0" 42 3 7 None 0 6] by (auto simp: demo_gap_def)
  from new_gap_fields [OF this] show "gp_hashKey demo_gap = 42" "gp_seqNum demo_gap = 6" "gp_failRounds demo_gap = 0"
    "gp_deadline demo_gap = 621 * second"
    by (simp_all add: demo_cfg_def)
qed

lemma gapped_tracker_ok: "tracker_ok gapped_tracker"
proof -
  have "flow_ok 42 (demo_flow\<lparr>fs_pending := [(6, demo_gap)]\<rparr>)"
    by (simp add: flow_ok_def demo_gap_sel demo_flow_def new_flow_def max_dur_def)
  then show ?thesis
    unfolding gapped_tracker_def by (intro tracker_ok_put_flow demo_tracker_ok) (simp_all add: demo_tracker_sel)
qed

theorem sweep_keeps_exactly_live_gaps_witness:
  "\<exists>fs' x. map_of (tr_flows (sweepOnce (\<lambda>d f. 4 * d) (600 * second) gapped_tracker)) 42 = Some fs' \<and>
     map_of (fs_pending fs') 6 = Some (demo_gap\<lparr>gp_nextAttempt := x\<rparr>)"
proof -
  have "tr_cfg gapped_tracker = demo_cfg" "map_of (tr_flows gapped_tracker) 42 = Some (demo_flow\<lparr>fs_pending := [(6, demo_gap)]\<rparr>)"
    by (simp_all add: gapped_tracker_def put_flow_def demo_tracker_sel)
  then show ?thesis
    using sweep_keeps_exactly_live_gaps [OF gapped_tracker_ok, of "\<lambda>d f. 4 * d" "600 * second"]
    by (simp add: demo_gap_sel demo_cfg_def second_def)
qed

section \<open>Restarts and the tail probe\<close>

lemma flush_pending_probing: "fs_probing (fst (flush_pending rc now fs)) = fs_probing fs"
proof -
  have "fs_probing (fst (fold (\<lambda>(seq, e) (f, ms). if gp_speculative e then (f, ms)
             else let (f', ms') = bookAbandon rc now seq (fs_source f) ''restart'' f in (f', ms @ ms'))
             ps (f, ms0))) = fs_probing f" for ps f ms0
    by (induction ps arbitrary: f ms0) (auto simp: Let_def split_beta)
  then show ?thesis by (simp add: flush_pending_def)
qed

lemma observed_probing:
  "map_of (fs_pending fs) seq = None \<Longrightarrow> fs_probing (observed rc now ow seq src fs) = fs_probing fs"
  by (simp add: observed_def auto_fill_def) (simp add: noteLateFill_def arrive_def Let_def split: option.split)


definition probing_tracker :: Tracker where
  "probing_tracker = demo_tracker\<lparr>tr_flows := [(42, demo_flow\<lparr>fs_lastSeqNum := 500, fs_probing := 501,
     fs_pending := [(501, demo_gap\<lparr>gp_seqNum := 501, gp_speculative := True\<rparr>)]\<rparr>)]\<rparr>"


section \<open>The order in which endpoints are asked\<close>

lemma mset_demoteSelf: "mset (demoteSelf parseIP eps self) = mset eps"
  by (simp add: demoteSelf_def)

text \<open>
  A tracker that knows its own address asks its own retry endpoint last: with at most 256
  seeds and no beacon entries, \<^verbatim>\<open>SetNACKSource\<close> makes the endpoint snapshot (whatever order the
  unstable sort picks for ties) list every remote seed in configured order and then every seed on
  this host, losing and duplicating none. This holds for every address parser.
\<close>

theorem own_endpoint_asked_last:
  assumes "length eps \<le> 256" and "addr \<noteq> []" and "2 \<le> length eps"
  shows "map ep_Addr (snd (Snapshot ds (tr_registry (SetNACKSource parseIP addr (New_Tracker cfg eps rc None))))) =
      filter (\<lambda>e. \<not> is_self parseIP addr e) eps @ filter (is_self parseIP addr) eps"
proof -
  have "length (demoteSelf parseIP eps addr) \<le> 256"
    using assms(1) mset_demoteSelf [of parseIP eps addr] by (metis mset_eq_length)
  then have "map ep_Addr (snd (Snapshot ds (Seed (demoteSelf parseIP eps addr) (Seed eps NewRegistry)))) =
      demoteSelf parseIP eps addr"
    by (intro Seed_Snapshot_order) (simp_all add: Seed_def NewRegistry_def)
  moreover have "eps \<noteq> []" using assms(3) by auto
  ultimately show ?thesis
    using assms(2,3) by (simp add: SetNACKSource_def New_Tracker_def Let_def demoteSelf_def)
qed

theorem own_endpoint_asked_last_witness:
  "map ep_Addr (snd (Snapshot [1] (tr_registry (SetNACKSource (\<lambda>_. None) ''fd00::1''
     (New_Tracker demo_cfg [''[fd00::1]:9300'', ''[fd00::2]:9300''] True None))))) =
   [''[fd00::2]:9300'', ''[fd00::1]:9300'']"
  using own_endpoint_asked_last [of "[''[fd00::1]:9300'', ''[fd00::2]:9300'']" "''fd00::1''" "[1]" "\<lambda>_. None" demo_cfg True]
  by (simp add: is_self_def SplitHost_def last_index_def sameHost_def trim_brackets_def EqualFold_def to_lower_def Let_def)

end
