(* ===== verification/Sha256.thy ===== *)
theory Sha256
  imports Prelude
begin

text \<open>
  \<^verbatim>\<open>crypto/sha256\<close> as the listener uses it: \<^verbatim>\<open>Sum256\<close> of a byte string, read as a \<^verbatim>\<open>[32]byte\<close>
  (FIPS 180-4). No theorem below depends on how it mixes bits; it is defined so that every
  definition that hashes is executable.
\<close>

text \<open>
  The constants of the standard are not listed but computed the way it defines them: the first 32
  fractional bits of the cube roots of the first 64 primes, and of the square roots of the first 8.
\<close>

definition small_primes :: "int list" where
  "small_primes = filter (\<lambda>n. list_all (\<lambda>d. n < d * d \<or> n mod d \<noteq> 0) [2..17]) [2..311]"

text \<open>The largest \<open>r < 2^n\<close> with \<open>r^e \<le> x\<close>, bit by bit from the top.\<close>

primrec root_bits :: "nat \<Rightarrow> int \<Rightarrow> nat \<Rightarrow> int \<Rightarrow> int" where
  "root_bits e x 0 r = r"
| "root_bits e x (Suc n) r = root_bits e x n (if (r + 2 ^ n) ^ e \<le> x then r + 2 ^ n else r)"

lemma root_bits_correct:
  assumes "0 \<le> r" and "r ^ e \<le> x" and "x < (r + 2 ^ n) ^ e"
  shows "r \<le> root_bits e x n r \<and> root_bits e x n r ^ e \<le> x \<and> x < (root_bits e x n r + 1) ^ e"
  using assms
proof (induction n arbitrary: r)
  case (Suc n)
  show ?case
  proof (cases "(r + 2 ^ n) ^ e \<le> x")
    case True
    then have *: "r + 2 ^ n \<le> root_bits e x n (r + 2 ^ n) \<and> root_bits e x n (r + 2 ^ n) ^ e \<le> x \<and>
        x < (root_bits e x n (r + 2 ^ n) + 1) ^ e"
      using Suc.IH [of "r + 2 ^ n"] Suc.prems(1,3) by (simp add: algebra_simps)
    moreover have "(0::int) \<le> 2 ^ n" by simp
    ultimately have "r \<le> root_bits e x n (r + 2 ^ n)" by linarith
    then show ?thesis using True * by simp
  next
    case False
    then show ?thesis using Suc.IH [of r] Suc.prems by simp
  qed
qed simp

definition frac_bits :: "nat \<Rightarrow> int \<Rightarrow> u32" where
  "frac_bits e p = word_of_int (root_bits e (p * 2 ^ (32 * e)) 36 0)"

definition round_constants :: "u32 list" where
  "round_constants = map (frac_bits 3) small_primes"

type_synonym hash_state = "u32 \<times> u32 \<times> u32 \<times> u32 \<times> u32 \<times> u32 \<times> u32 \<times> u32"

definition initial_state :: hash_state where
  "initial_state = (frac_bits 2 2, frac_bits 2 3, frac_bits 2 5, frac_bits 2 7, frac_bits 2 11, frac_bits 2 13, frac_bits 2 17, frac_bits 2 19)"

text \<open>The message schedule, most recent word first.\<close>

primrec schedule :: "nat \<Rightarrow> u32 list \<Rightarrow> u32 list" where
  "schedule 0 ws = ws"
| "schedule (Suc n) ws =
     (let w15 = ws ! 14; w2 = ws ! 1;
          s0 = word_rotr 7 w15 XOR word_rotr 18 w15 XOR drop_bit 3 w15;
          s1 = word_rotr 17 w2 XOR word_rotr 19 w2 XOR drop_bit 10 w2
      in schedule n ((ws ! 15 + s0 + ws ! 6 + s1) # ws))"

fun hash_round :: "u32 \<times> u32 \<Rightarrow> hash_state \<Rightarrow> hash_state" where
  "hash_round (k, w) (a, b, c, d, e, f, g, h) =
     (let s1 = word_rotr 6 e XOR word_rotr 11 e XOR word_rotr 25 e;
          ch = (e AND f) XOR (NOT e AND g);
          t1 = h + s1 + ch + k + w;
          s0 = word_rotr 2 a XOR word_rotr 13 a XOR word_rotr 22 a;
          maj = (a AND b) XOR (a AND c) XOR (b AND c)
      in (t1 + s0 + maj, a, b, c, d + t1, e, f, g))"

fun add_state :: "hash_state \<Rightarrow> hash_state \<Rightarrow> hash_state" where
  "add_state (a, b, c, d, e, f, g, h) (a', b', c', d', e', f', g', h') =
     (a + a', b + b', c + c', d + d', e + e', f + f', g + g', h + h')"

definition block_words :: "byte list \<Rightarrow> u32 list" where
  "block_words bs = map (\<lambda>i. word_of_bytes (sub_bytes (4 * i) (4 * i + 4) bs)) [0..<16]"

definition hash_block :: "byte list \<Rightarrow> hash_state \<Rightarrow> hash_state" where
  "hash_block bs st = add_state st (fold hash_round (zip round_constants (rev (schedule 48 (rev (block_words bs))))) st)"

definition pad_message :: "byte list \<Rightarrow> byte list" where
  "pad_message bs = bs @ [0x80] @ replicate ((119 - length bs mod 64) mod 64) 0 @ be64 (of_nat (8 * length bs))"

fun digest :: "hash_state \<Rightarrow> byte list" where
  "digest (a, b, c, d, e, f, g, h) = be32 a @ be32 b @ be32 c @ be32 d @ be32 e @ be32 f @ be32 g @ be32 h"

definition Sum256 :: "byte list \<Rightarrow> id32" where
  "Sum256 bs =
     (let p = pad_message bs;
          blocks = map (\<lambda>i. sub_bytes (64 * i) (64 * i + 64) p) [0..<length p div 64]
      in word_of_bytes (digest (fold hash_block blocks initial_state)))"

text \<open>\<^verbatim>\<open>sha256.Sum256(first[:])\<close> of a first digest: the double hash of block and object ids.\<close>

definition Sum256d :: "byte list \<Rightarrow> id32" where
  "Sum256d bs = Sum256 (id32_bytes (Sum256 bs))"

end
