(* ===== verification/Reassembly.thy ===== *)
theory Reassembly
  imports Frame_Filter Sha256
begin

text \<open>
  The BRC-130 fragment reassembly buffer of \<^verbatim>\<open>reassembly/reassembly.go\<close>: slots, the length check
  that fixes a fragment's place, completion by frame version, the memory of completed objects,
  expiry with the repair wait, and eviction at the slot cap.

  The types \<open>FragFrame\<close>, \<open>BlockFrame\<close>, \<open>SubtreeDataFrame\<close> and \<open>BEEFFrame\<close> hold the fields of the
  shard-common frames this program reads, and the record \<open>shard_common\<close> the constants and
  functions of that package it calls; every definition takes the latter as an argument. The
  repair plane behind \<^verbatim>\<open>onIncomplete\<close> and \<^verbatim>\<open>repairPending\<close> is a state of arbitrary type \<open>'r\<close>
  threaded through the operations that call them. Calls of the other hooks and callbacks, none of
  which returns a value or may call back into the buffer, are returned in order as events.
  \<^verbatim>\<open>None\<close> is a panic: a slice expression out of range or a negative capacity.
\<close>

section \<open>Frames and the package they come from\<close>

record FragFrame =
  ff_TxID :: id32
  ff_SubtreeID :: id32
  ff_HashKey :: u64
  ff_SeqNum :: u64
  ff_FragIndex :: u16
  ff_FragTotal :: u16
  ff_OrigPayloadLen :: u32
  ff_OrigFrameVer :: byte
  ff_MsgType :: byte
  ff_FragData :: "byte list"

record BlockFrame =
  bk_MsgType :: byte
  bk_ContentID :: id32
  bk_HashKey :: u64
  bk_SeqNum :: u64
  bk_Payload :: "byte list"

record SubtreeDataFrame =
  sd_MsgType :: byte
  sd_SubtreeID :: id32
  sd_HashKey :: u64
  sd_SeqNum :: u64
  sd_Payload :: "byte list"

record BEEFFrame =
  be_ContentID :: id32
  be_TopicID :: id32
  be_HashKey :: u64
  be_SeqNum :: u64
  be_DeliverCount :: byte
  be_Payload :: "byte list"

record shard_common =
  sc_FrameVerV2 :: byte
  sc_FrameVerV4 :: byte
  sc_FrameVerV5 :: byte
  sc_FrameVerV9 :: byte
  sc_HeaderSize :: nat
  sc_BEEFRecordMaxEnvelope :: int
  sc_TxSize :: "byte list \<Rightarrow> int option"
  sc_TxID :: "byte list \<Rightarrow> id32 option"

section \<open>Slots and buffers\<close>

definition payloadTxID :: "shard_common \<Rightarrow> byte list \<Rightarrow> id32 \<times> bool" where
  "payloadTxID sc p =
     (case sc_TxSize sc p of
        None \<Rightarrow> (0, False)
      | Some sz \<Rightarrow> if sz \<noteq> int (length p) then (0, False)
          else (case sc_TxID sc p of None \<Rightarrow> (0, False) | Some i \<Rightarrow> (i, True)))"

definition DefaultMaxSlots :: int where "DefaultMaxSlots = 4096"
definition DefaultTTL :: dur where "DefaultTTL = 10 * second"
definition DefaultMaxAge :: dur where "DefaultMaxAge = 120 * second"
definition DefaultEvictEvery :: dur where "DefaultEvictEvery = 50 * millisecond"
definition DefaultCompletionTTL :: dur where "DefaultCompletionTTL = 60 * second"
definition DefaultMaxObjectBytes :: int where "DefaultMaxObjectBytes = 64 * 2 ^ 20"

definition AbandonExpired :: string where "AbandonExpired = ''expired''"
definition AbandonRepairTimeout :: string where "AbandonRepairTimeout = ''repair_timeout''"
definition AbandonCapacity :: string where "AbandonCapacity = ''capacity''"

text \<open>
  \<^verbatim>\<open>payload\<close> is the tail of \<^verbatim>\<open>whole\<close> behind \<open>sl_room\<close> bytes and shares its memory, so the slot
  keeps the one list; \<^verbatim>\<open>payload == nil\<close> is \<open>sl_whole = None\<close>.
\<close>

record slot =
  sl_key :: id32
  sl_txID :: id32
  sl_subtreeID :: id32
  sl_hashKey :: u64
  sl_seqNum :: u64
  sl_origPayloadLen :: u32
  sl_fragTotal :: u16
  sl_fragSize :: nat
  sl_received :: u16
  sl_have :: "bool list"
  sl_whole :: "byte list option"
  sl_room :: nat
  sl_early :: "(u16 \<times> byte list) list"
  sl_fragSeq :: "u64 list"
  sl_groupIdx :: u32
  sl_deadline :: gtime
  sl_born :: gtime
  sl_requested :: bool
  sl_extended :: bool
  sl_origFrameVer :: byte
  sl_msgType :: byte

datatype hook = OnComplete | OnCompleteBlock | OnCompleteSubtree | OnCompleteBEEF | OnCompleteBEEFFrame
  | OnAbandoned | OnAbandonedReason | OnExtended | OnLateDone | OnStarted | OnHashMismatch
  | OnMerkleMismatch | OnLateFragment | OnBadFragment | OnOversize

datatype event = CompleteV2 "byte list" Frame | CompleteBlock "byte list" BlockFrame
  | CompleteSubtree "byte list" SubtreeDataFrame | CompleteBEEF "byte list" BEEFFrame
  | CompleteBEEFFrame "byte list" BEEFFrame
  | Abandoned | AbandonedReason string | Extended | LateDone | Started | HashMismatch
  | LateFragment | BadFragment | Oversize

fun hook_of :: "event \<Rightarrow> hook" where
  "hook_of (CompleteV2 _ _) = OnComplete"
| "hook_of (CompleteBlock _ _) = OnCompleteBlock"
| "hook_of (CompleteSubtree _ _) = OnCompleteSubtree"
| "hook_of (CompleteBEEF _ _) = OnCompleteBEEF"
| "hook_of (CompleteBEEFFrame _ _) = OnCompleteBEEFFrame"
| "hook_of Abandoned = OnAbandoned"
| "hook_of (AbandonedReason _) = OnAbandonedReason"
| "hook_of Extended = OnExtended"
| "hook_of LateDone = OnLateDone"
| "hook_of Started = OnStarted"
| "hook_of HashMismatch = OnHashMismatch"
| "hook_of LateFragment = OnLateFragment"
| "hook_of BadFragment = OnBadFragment"
| "hook_of Oversize = OnOversize"

record 'r Buffer =
  bf_slots :: "(id32 \<times> slot) list"
  bf_lastEvict :: gtime
  bf_evictEvery :: dur
  bf_insertOrder :: "id32 list"
  bf_maxSlots :: nat
  bf_ttl :: dur
  bf_verifyHash :: bool
  bf_hooks :: "hook list"
  bf_repairPending :: "(u64 \<Rightarrow> u64 list \<Rightarrow> 'r \<Rightarrow> bool) option"
  bf_maxAge :: dur
  bf_onIncomplete :: "(u64 \<Rightarrow> u32 \<Rightarrow> id32 \<Rightarrow> u64 list \<Rightarrow> 'r \<Rightarrow> 'r option) option"
  bf_groupIdxFn :: "(FragFrame \<Rightarrow> u32) option"
  bf_maxObject :: int
  bf_maxObjectV9 :: int
  bf_done :: "(id32 \<times> gtime) list"
  bf_doneOrder :: "id32 list"
  bf_completionTTL :: dur

text \<open>\<^verbatim>\<open>if b.onX != nil { b.onX(\<dots>) }\<close>\<close>

definition fires :: "'r Buffer \<Rightarrow> event \<Rightarrow> event list" where
  "fires b ev = (if hook_of ev \<in> set (bf_hooks b) then [ev] else [])"

definition promoteAfter :: "u16 \<Rightarrow> u16" where
  "promoteAfter ftotal = min ftotal (max 8 (ftotal div 16))"

text \<open>\<^verbatim>\<open>copy(dst[off:], data)\<close>\<close>

definition copy_from :: "nat \<Rightarrow> byte list \<Rightarrow> byte list \<Rightarrow> byte list option" where
  "copy_from off data dst =
     (if length dst < off then None
      else Some (put_at off (take (length dst - off) data) dst))"

definition write_payload :: "u16 \<Rightarrow> byte list \<Rightarrow> slot \<Rightarrow> slot option" where
  "write_payload index data s =
     (case sl_whole s of
        None \<Rightarrow> None
      | Some w \<Rightarrow> do { p \<leftarrow> copy_from (unat index * sl_fragSize s) data (drop (sl_room s) w);
                     Some (s\<lparr>sl_whole := Some (take (sl_room s) w @ p)\<rparr>) })"

primrec write_early :: "(u16 \<times> byte list) list \<Rightarrow> slot \<Rightarrow> slot option" where
  "write_early [] s = Some s"
| "write_early (f # fs) s = do { s' \<leftarrow> write_payload (fst f) (snd f) s; write_early fs s' }"

definition promote :: "shard_common \<Rightarrow> slot \<Rightarrow> slot option" where
  "promote sc s =
     (let room = (if sl_origFrameVer s = sc_FrameVerV9 sc then sc_HeaderSize sc else 0);
          whole = replicate (room + unat (sl_origPayloadLen s)) 0
      in do { s' \<leftarrow> write_early (sl_early s) (s\<lparr>sl_whole := Some whole, sl_room := room\<rparr>);
              Some (s'\<lparr>sl_early := []\<rparr>) })"

definition store :: "shard_common \<Rightarrow> u16 \<Rightarrow> byte list \<Rightarrow> slot \<Rightarrow> slot option" where
  "store sc index data s =
     (if sl_whole s \<noteq> None then write_payload index data s
      else let s' = s\<lparr>sl_early := sl_early s @ [(index, data)]\<rparr>
        in if (of_nat (length (sl_early s')) :: u16) \<ge> promoteAfter (sl_fragTotal s') then promote sc s'
           else Some s')"

section \<open>Construction and settings\<close>

definition New_Buffer :: "int \<Rightarrow> dur \<Rightarrow> bool \<Rightarrow> bool \<Rightarrow> 'r Buffer" where
  "New_Buffer maxSlots ttl verifyHash cb =
     \<lparr>bf_slots = [], bf_lastEvict = 0, bf_evictEvery = DefaultEvictEvery, bf_insertOrder = [],
      bf_maxSlots = nat (if maxSlots \<le> 0 then DefaultMaxSlots else maxSlots),
      bf_ttl = (if ttl \<le> 0 then DefaultTTL else ttl), bf_verifyHash = verifyHash,
      bf_hooks = (if cb then [OnComplete] else []), bf_repairPending = None, bf_maxAge = DefaultMaxAge,
      bf_onIncomplete = None, bf_groupIdxFn = None, bf_maxObject = DefaultMaxObjectBytes,
      bf_maxObjectV9 = 0, bf_done = [], bf_doneOrder = [], bf_completionTTL = DefaultCompletionTTL\<rparr>"

definition SetRepairWait :: "(u64 \<Rightarrow> u64 list \<Rightarrow> 'r \<Rightarrow> bool) option \<Rightarrow> dur \<Rightarrow> 'r Buffer \<Rightarrow> 'r Buffer" where
  "SetRepairWait pending maxAge b =
     (let b = b\<lparr>bf_repairPending := pending\<rparr> in if maxAge > 0 then b\<lparr>bf_maxAge := maxAge\<rparr> else b)"

text \<open>Installing a hook; \<open>fn\<close> is whether the function passed is non-nil.\<close>

definition set_hook :: "hook \<Rightarrow> bool \<Rightarrow> 'r Buffer \<Rightarrow> 'r Buffer" where
  "set_hook h fn b = b\<lparr>bf_hooks := (if fn then h # removeAll h (bf_hooks b) else removeAll h (bf_hooks b))\<rparr>"

definition SetAbandonedReasonHook :: "bool \<Rightarrow> 'r Buffer \<Rightarrow> 'r Buffer" where "SetAbandonedReasonHook = set_hook OnAbandonedReason"
definition SetExtendedHook :: "bool \<Rightarrow> 'r Buffer \<Rightarrow> 'r Buffer" where "SetExtendedHook = set_hook OnExtended"
definition SetLateCompleteHook :: "bool \<Rightarrow> 'r Buffer \<Rightarrow> 'r Buffer" where "SetLateCompleteHook = set_hook OnLateDone"
definition SetAbandonedHook :: "bool \<Rightarrow> 'r Buffer \<Rightarrow> 'r Buffer" where "SetAbandonedHook = set_hook OnAbandoned"
definition SetStartedHook :: "bool \<Rightarrow> 'r Buffer \<Rightarrow> 'r Buffer" where "SetStartedHook = set_hook OnStarted"
definition SetHashMismatchHook :: "bool \<Rightarrow> 'r Buffer \<Rightarrow> 'r Buffer" where "SetHashMismatchHook = set_hook OnHashMismatch"
definition SetMerkleMismatchHook :: "bool \<Rightarrow> 'r Buffer \<Rightarrow> 'r Buffer" where "SetMerkleMismatchHook = set_hook OnMerkleMismatch"
definition SetLateFragmentHook :: "bool \<Rightarrow> 'r Buffer \<Rightarrow> 'r Buffer" where "SetLateFragmentHook = set_hook OnLateFragment"
definition SetBadFragmentHook :: "bool \<Rightarrow> 'r Buffer \<Rightarrow> 'r Buffer" where "SetBadFragmentHook = set_hook OnBadFragment"
definition SetOversizeHook :: "bool \<Rightarrow> 'r Buffer \<Rightarrow> 'r Buffer" where "SetOversizeHook = set_hook OnOversize"
definition SetBlockCallback :: "bool \<Rightarrow> 'r Buffer \<Rightarrow> 'r Buffer" where "SetBlockCallback = set_hook OnCompleteBlock"
definition SetBEEFFrameCallback :: "bool \<Rightarrow> 'r Buffer \<Rightarrow> 'r Buffer" where "SetBEEFFrameCallback = set_hook OnCompleteBEEFFrame"
definition SetBEEFCallback :: "bool \<Rightarrow> 'r Buffer \<Rightarrow> 'r Buffer" where "SetBEEFCallback = set_hook OnCompleteBEEF"
definition SetSubtreeDataCallback :: "bool \<Rightarrow> 'r Buffer \<Rightarrow> 'r Buffer" where "SetSubtreeDataCallback = set_hook OnCompleteSubtree"

definition SetCompletionTTL :: "dur \<Rightarrow> 'r Buffer \<Rightarrow> 'r Buffer" where
  "SetCompletionTTL d b = (if d > 0 then b\<lparr>bf_completionTTL := d\<rparr> else b)"

definition SetMaxObjectBytes :: "int \<Rightarrow> 'r Buffer \<Rightarrow> 'r Buffer" where
  "SetMaxObjectBytes n b = (if n > 0 then b\<lparr>bf_maxObject := n\<rparr> else b)"

definition SetMaxObjectBytesV9 :: "int \<Rightarrow> 'r Buffer \<Rightarrow> 'r Buffer" where
  "SetMaxObjectBytesV9 n b = b\<lparr>bf_maxObjectV9 := n\<rparr>"

definition SetIncompleteHook ::
  "(u64 \<Rightarrow> u32 \<Rightarrow> id32 \<Rightarrow> u64 list \<Rightarrow> 'r \<Rightarrow> 'r option) option \<Rightarrow> 'r Buffer \<Rightarrow> 'r Buffer" where
  "SetIncompleteHook fn b = b\<lparr>bf_onIncomplete := fn\<rparr>"

definition SetGroupIdxFunc :: "(FragFrame \<Rightarrow> u32) option \<Rightarrow> 'r Buffer \<Rightarrow> 'r Buffer" where
  "SetGroupIdxFunc fn b = b\<lparr>bf_groupIdxFn := fn\<rparr>"

definition groupIdxOf :: "(FragFrame \<Rightarrow> u32) option \<Rightarrow> FragFrame \<Rightarrow> u32" where
  "groupIdxOf fn ff = (case fn of None \<Rightarrow> 0 | Some f \<Rightarrow> f ff)"

section \<open>Missing fragments\<close>

text \<open>The loop over growing distances \<^verbatim>\<open>d\<close> to the nearest received neighbour.\<close>

primrec nearest :: "bool list \<Rightarrow> nat \<Rightarrow> nat \<Rightarrow> nat list \<Rightarrow> nat option" where
  "nearest haves ftotal i [] = None"
| "nearest haves ftotal i (d # ds) =
     (if d \<le> i \<and> haves ! (i - d) then Some (i - d)
      else if i + d < ftotal \<and> haves ! (i + d) then Some (i + d)
      else nearest haves ftotal i ds)"

definition missing_at :: "slot \<Rightarrow> nat \<Rightarrow> u64 list" where
  "missing_at s i =
     (let ftotal = unat (sl_fragTotal s) in
      if sl_have s ! i then []
      else case nearest (sl_have s) ftotal i [1..<ftotal] of
        None \<Rightarrow> []
      | Some best \<Rightarrow>
          let v = wrap64 (sint (sl_fragSeq s ! best) + (int i - int best))
          in if v < 0 then [] else [word_of_int v])"

definition missingSeqNums :: "slot \<Rightarrow> u64 list option" where
  "missingSeqNums s =
     (if sl_received s = 0 then Some []
      else if sl_fragTotal s < sl_received s then None
      else Some (concat (map (missing_at s) [0..<unat (sl_fragTotal s)])))"

definition notifyIncomplete :: "'r Buffer \<Rightarrow> slot \<Rightarrow> 'r \<Rightarrow> 'r option" where
  "notifyIncomplete b s r =
     (case bf_onIncomplete b of
        None \<Rightarrow> Some r
      | Some f \<Rightarrow> do { missing \<leftarrow> missingSeqNums s;
                     if 0 < length missing then f (sl_hashKey s) (sl_groupIdx s) (sl_subtreeID s) missing r
                     else Some r })"

section \<open>Completion memory, expiry, eviction\<close>

definition removeSlot :: "id32 \<Rightarrow> 'r Buffer \<Rightarrow> 'r Buffer" where
  "removeSlot txID b = b\<lparr>bf_slots := map_del txID (bf_slots b)\<rparr>"

definition markDone :: "gtime \<Rightarrow> id32 \<Rightarrow> 'r Buffer \<Rightarrow> 'r Buffer" where
  "markDone now key b =
     (let b = (if map_of (bf_done b) key = None
               then let b = (if length (bf_done b) \<ge> bf_maxSlots b \<and> length (bf_doneOrder b) > 0
                             then b\<lparr>bf_doneOrder := tl (bf_doneOrder b), bf_done := map_del (hd (bf_doneOrder b)) (bf_done b)\<rparr>
                             else b)
                 in b\<lparr>bf_doneOrder := bf_doneOrder b @ [key]\<rparr>
               else b)
      in b\<lparr>bf_done := map_put key (now + bf_completionTTL b) (bf_done b)\<rparr>)"

primrec sweep_done_loop :: "gtime \<Rightarrow> id32 list \<Rightarrow> (id32 \<times> gtime) list \<Rightarrow> id32 list \<times> (id32 \<times> gtime) list" where
  "sweep_done_loop now [] m = ([], m)"
| "sweep_done_loop now (k # ks) m =
     (case map_of m k of
        None \<Rightarrow> sweep_done_loop now ks m
      | Some ex \<Rightarrow> if now > ex then sweep_done_loop now ks (map_del k m)
          else let (live, m') = sweep_done_loop now ks m in (k # live, m'))"

definition sweepDone :: "gtime \<Rightarrow> 'r Buffer \<Rightarrow> 'r Buffer" where
  "sweepDone now b =
     (if length (bf_done b) = 0 then b
      else let (live, m) = sweep_done_loop now (bf_doneOrder b) (bf_done b)
        in b\<lparr>bf_doneOrder := live, bf_done := m\<rparr>)"

definition abandon :: "id32 \<Rightarrow> string \<Rightarrow> 'r Buffer \<Rightarrow> 'r Buffer \<times> event list" where
  "abandon key reason b = (removeSlot key b, fires b Abandoned @ fires b (AbandonedReason reason))"

text \<open>\<open>None\<close> as the reason is \<^verbatim>\<open>keep\<close>; the slot is returned because its fields are updated in place.\<close>

definition holdForRepair ::
  "(u64 \<Rightarrow> u64 list \<Rightarrow> 'r \<Rightarrow> bool) \<Rightarrow> gtime \<Rightarrow> slot \<Rightarrow> 'r Buffer \<Rightarrow> 'r
     \<Rightarrow> (string option \<times> slot \<times> 'r \<times> event list) option" where
  "holdForRepair repairPending now s b r =
     do { missing \<leftarrow> missingSeqNums s;
          if length missing = 0 then Some (Some AbandonExpired, s, r, [])
          else let limit = sl_born s + bf_maxAge b in
            do { (s, r) \<leftarrow> (if \<not> sl_requested s \<and> now < limit
                   then (case bf_onIncomplete b of
                           None \<Rightarrow> Some (s\<lparr>sl_requested := True\<rparr>, r)
                         | Some f \<Rightarrow> do { r' \<leftarrow> f (sl_hashKey s) (sl_groupIdx s) (sl_subtreeID s) missing r;
                                        Some (s\<lparr>sl_requested := True\<rparr>, r') })
                   else Some (s, r));
                 let pending = repairPending (sl_hashKey s) missing r;
                 if \<not> now < limit \<and> pending then Some (Some AbandonRepairTimeout, s, r, [])
                 else if \<not> pending then Some (Some AbandonExpired, s, r, [])
                 else let s' = s\<lparr>sl_deadline := (if now + bf_ttl b > limit then limit else now + bf_ttl b)\<rparr>
                   in if sl_extended s' then Some (None, s', r, [])
                      else Some (None, s'\<lparr>sl_extended := True\<rparr>, r, fires b Extended) } }"

text \<open>One turn of the loop over \<^verbatim>\<open>insertOrder\<close>.\<close>

definition expire_one :: "gtime \<Rightarrow> id32 \<Rightarrow> 'r Buffer \<Rightarrow> 'r \<Rightarrow> ('r Buffer \<times> 'r \<times> event list) option" where
  "expire_one now txID b r =
     (case map_of (bf_slots b) txID of
        None \<Rightarrow> Some (b, r, [])
      | Some s \<Rightarrow>
          if \<not> now > sl_deadline s then Some (b, r, [])
          else case bf_repairPending b of
            None \<Rightarrow> do { r' \<leftarrow> notifyIncomplete b s r;
                       let (b', es) = abandon txID AbandonExpired b;
                       Some (b', r', es) }
          | Some pend \<Rightarrow>
              do { (reason, s', r', es) \<leftarrow> holdForRepair pend now s b r;
                   let b1 = b\<lparr>bf_slots := map_put txID s' (bf_slots b)\<rparr>;
                   (case reason of
                      None \<Rightarrow> Some (b1, r', es)
                    | Some why \<Rightarrow> let (b2, es') = abandon txID why b1 in Some (b2, r', es @ es')) })"

primrec expire_loop :: "gtime \<Rightarrow> id32 list \<Rightarrow> 'r Buffer \<Rightarrow> 'r \<Rightarrow> ('r Buffer \<times> 'r \<times> event list) option" where
  "expire_loop now [] b r = Some (b, r, [])"
| "expire_loop now (k # ks) b r =
     do { (b1, r1, es1) \<leftarrow> expire_one now k b r;
          (b2, r2, es2) \<leftarrow> expire_loop now ks b1 r1;
          Some (b2, r2, es1 @ es2) }"

definition evictExpired :: "gtime \<Rightarrow> 'r Buffer \<Rightarrow> 'r \<Rightarrow> ('r Buffer \<times> 'r \<times> event list) option" where
  "evictExpired now b r =
     (let b = sweepDone now b in
      do { (b, r, es) \<leftarrow> expire_loop now (bf_insertOrder b) b r;
           Some (b\<lparr>bf_insertOrder := filter (\<lambda>k. map_of (bf_slots b) k \<noteq> None) (bf_insertOrder b)\<rparr>, r, es) })"

text \<open>The first live key of the order, with what precedes and follows it.\<close>

primrec first_live :: "(id32 \<times> slot) list \<Rightarrow> id32 list \<Rightarrow> (id32 list \<times> id32 \<times> id32 list) option" where
  "first_live m [] = None"
| "first_live m (k # ks) =
     (if map_of m k \<noteq> None then Some ([], k, ks)
      else case first_live m ks of None \<Rightarrow> None | Some (pre, k', post) \<Rightarrow> Some (k # pre, k', post))"

definition evictOldest :: "'r Buffer \<Rightarrow> 'r Buffer \<times> event list" where
  "evictOldest b =
     (case first_live (bf_slots b) (bf_insertOrder b) of
        None \<Rightarrow> (b, [])
      | Some (pre, txID, post) \<Rightarrow>
          let (b', es) = abandon txID AbandonCapacity b in (b'\<lparr>bf_insertOrder := pre @ post\<rparr>, es))"

section \<open>One fragment\<close>

definition slotKey :: "shard_common \<Rightarrow> FragFrame \<Rightarrow> id32" where
  "slotKey sc ff =
     (if ff_OrigFrameVer ff \<noteq> sc_FrameVerV9 sc then ff_TxID ff
      else Sum256 (id32_bytes (ff_TxID ff) @ id32_bytes (ff_SubtreeID ff)))"

definition checkFragLen :: "slot \<Rightarrow> FragFrame \<Rightarrow> nat option" where
  "checkFragLen s ff =
     (let n = int (length (ff_FragData ff)); ftotal = int (unat (sl_fragTotal s));
          objLen = int (unat (sl_origPayloadLen s));
          agree = (\<lambda>fragSize. if sl_fragSize s \<noteq> 0 \<and> int (sl_fragSize s) \<noteq> fragSize then None else Some (nat fragSize))
      in if n \<le> 0 then None
         else if ftotal = 1 then (if n \<noteq> objLen then None else agree n)
         else if int (unat (ff_FragIndex ff)) = ftotal - 1
         then let rem = objLen - n in
           if rem \<le> 0 \<or> rem smod (ftotal - 1) \<noteq> 0 then None else agree (rem sdiv (ftotal - 1))
         else if objLen \<le> n * (ftotal - 1) then None else agree n)"

text \<open>The dispatch on \<^verbatim>\<open>origFrameVer\<close>, with the slot already removed.\<close>

definition dispatch_object :: "shard_common \<Rightarrow> slot \<Rightarrow> byte list \<Rightarrow> byte list \<Rightarrow> 'r Buffer \<Rightarrow> event list" where
  "dispatch_object sc s whole payload b =
     (if sl_origFrameVer s = sc_FrameVerV4 sc
      then fires b (CompleteBlock payload
             \<lparr>bk_MsgType = sl_msgType s, bk_ContentID = sl_txID s, bk_HashKey = sl_hashKey s,
              bk_SeqNum = sl_seqNum s, bk_Payload = payload\<rparr>)
      else if sl_origFrameVer s = sc_FrameVerV5 sc
      then fires b (CompleteSubtree payload
             \<lparr>sd_MsgType = sl_msgType s, sd_SubtreeID = sl_txID s, sd_HashKey = sl_hashKey s,
              sd_SeqNum = sl_seqNum s, sd_Payload = payload\<rparr>)
      else if sl_origFrameVer s = sc_FrameVerV9 sc
      then (if bf_verifyHash b \<and> Sum256d payload \<noteq> sl_txID s then fires b HashMismatch
            else let bf = \<lparr>be_ContentID = sl_txID s, be_TopicID = sl_subtreeID s, be_HashKey = sl_hashKey s,
                    be_SeqNum = sl_seqNum s, be_DeliverCount = sl_msgType s, be_Payload = payload\<rparr>
              in if OnCompleteBEEFFrame \<in> set (bf_hooks b) then fires b (CompleteBEEFFrame whole bf)
                 else fires b (CompleteBEEF payload bf))
      else let (computed, oneTx) = payloadTxID sc payload in
           if bf_verifyHash b \<and> (\<not> oneTx \<or> computed \<noteq> sl_txID s) then fires b HashMismatch
           else fires b (CompleteV2 payload
             \<lparr>fr_Version = sc_FrameVerV2 sc, fr_TxID = sl_txID s, fr_SubtreeID = sl_subtreeID s,
              fr_HashKey = sl_hashKey s, fr_SeqNum = sl_seqNum s, fr_Payload = payload\<rparr>))"

definition complete :: "shard_common \<Rightarrow> gtime \<Rightarrow> slot \<Rightarrow> 'r Buffer \<Rightarrow> ('r Buffer \<times> event list) option" where
  "complete sc now s b =
     (let b1 = markDone now (sl_key s) b;
          late = (if sl_extended s then fires b1 LateDone else [])
      in do {
        s' \<leftarrow> (if sl_whole s = None then promote sc s else Some s);
        let whole = the (sl_whole s');
        let payload = drop (sl_room s') whole;
        let b2 = removeSlot (sl_key s) b1;
        Some (b2, late @ dispatch_object sc s whole payload b2) })"

text \<open>The part of \<^verbatim>\<open>Observe\<close> after the slot is found or opened.\<close>

definition accept :: "shard_common \<Rightarrow> gtime \<Rightarrow> FragFrame \<Rightarrow> slot \<Rightarrow> 'r Buffer \<Rightarrow> ('r Buffer \<times> event list) option" where
  "accept sc now ff s b =
     (if ff_FragTotal ff \<noteq> sl_fragTotal s \<or> ff_FragIndex ff \<ge> sl_fragTotal s then Some (b, [])
      else let i = unat (ff_FragIndex ff) in
      if sl_have s ! i then Some (b, [])
      else case checkFragLen s ff of
        None \<Rightarrow> let b' = removeSlot (sl_key s) b in Some (b', fires b' BadFragment)
      | Some fragSize \<Rightarrow>
          do { s1 \<leftarrow> store sc (ff_FragIndex ff) (ff_FragData ff) (s\<lparr>sl_fragSize := fragSize\<rparr>);
               let s2 = s1\<lparr>sl_have := (sl_have s1)[i := True], sl_fragSeq := (sl_fragSeq s1)[i := ff_SeqNum ff],
                           sl_received := sl_received s1 + 1\<rparr>;
               let b' = b\<lparr>bf_slots := map_put (sl_key s) s2 (bf_slots b)\<rparr>;
               if sl_received s2 < sl_fragTotal s2 then Some (b', []) else complete sc now s2 b' })"

definition new_slot :: "gtime \<Rightarrow> id32 \<Rightarrow> FragFrame \<Rightarrow> 'r Buffer \<Rightarrow> slot" where
  "new_slot now key ff b =
     \<lparr>sl_key = key, sl_txID = ff_TxID ff, sl_subtreeID = ff_SubtreeID ff, sl_hashKey = ff_HashKey ff,
      sl_seqNum = ff_SeqNum ff, sl_origPayloadLen = ff_OrigPayloadLen ff, sl_fragTotal = ff_FragTotal ff,
      sl_fragSize = 0, sl_received = 0, sl_have = replicate (unat (ff_FragTotal ff)) False, sl_whole = None,
      sl_room = 0, sl_early = [], sl_fragSeq = replicate (unat (ff_FragTotal ff)) 0,
      sl_groupIdx = groupIdxOf (bf_groupIdxFn b) ff, sl_deadline = now + bf_ttl b, sl_born = now,
      sl_requested = False, sl_extended = False, sl_origFrameVer = ff_OrigFrameVer ff, sl_msgType = ff_MsgType ff\<rparr>"

definition sweep_interval :: "'r Buffer \<Rightarrow> dur" where
  "sweep_interval b = (if bf_ttl b > 0 \<and> bf_ttl b sdiv 2 < bf_evictEvery b then bf_ttl b sdiv 2 else bf_evictEvery b)"

definition object_cap :: "shard_common \<Rightarrow> FragFrame \<Rightarrow> 'r Buffer \<Rightarrow> int" where
  "object_cap sc ff b =
     (if ff_OrigFrameVer ff = sc_FrameVerV9 sc \<and> bf_maxObjectV9 b > 0
      then bf_maxObjectV9 b + sc_BEEFRecordMaxEnvelope sc else bf_maxObject b)"

definition lazy_evict :: "gtime \<Rightarrow> 'r Buffer \<Rightarrow> 'r \<Rightarrow> ('r Buffer \<times> 'r \<times> event list) option" where
  "lazy_evict now b r =
     (if time_sub now (bf_lastEvict b) \<ge> sweep_interval b
      then do { (b', r', es) \<leftarrow> evictExpired now b r; Some (b'\<lparr>bf_lastEvict := now\<rparr>, r', es) }
      else Some (b, r, []))"

text \<open>Guards on the first fragment of an object, and the opening of its slot.\<close>

definition open_slot :: "shard_common \<Rightarrow> gtime \<Rightarrow> gtime \<Rightarrow> FragFrame \<Rightarrow> 'r Buffer \<Rightarrow> ('r Buffer \<times> event list) option" where
  "open_slot sc now now' ff b =
     (let key = slotKey sc ff in
      if map_of (bf_done b) key \<noteq> None then Some (b, fires b LateFragment)
      else if ff_FragTotal ff = 0 \<or> ff_FragIndex ff \<ge> ff_FragTotal ff then Some (b, [])
      else if ff_OrigPayloadLen ff = 0 \<or> (ucast (ff_FragTotal ff) :: u32) > ff_OrigPayloadLen ff + 1 then Some (b, [])
      else if object_cap sc ff b > 0 \<and> int (unat (ff_OrigPayloadLen ff)) > object_cap sc ff b
      then Some (b, fires b Oversize)
      else let (b1, es1) = (if length (bf_slots b) \<ge> bf_maxSlots b then evictOldest b else (b, []));
               s = new_slot now key ff b1;
               b2 = b1\<lparr>bf_slots := map_put key s (bf_slots b1), bf_insertOrder := bf_insertOrder b1 @ [key]\<rparr>
        in do { (b3, es3) \<leftarrow> accept sc now' ff s b2; Some (b3, es1 @ fires b2 Started @ es3) })"

text \<open>\<open>now\<close> is the clock read on entry, \<open>now'\<close> the one read by \<^verbatim>\<open>markDone\<close>.\<close>

definition Observe_Buffer ::
  "shard_common \<Rightarrow> gtime \<Rightarrow> gtime \<Rightarrow> FragFrame \<Rightarrow> 'r Buffer \<Rightarrow> 'r \<Rightarrow> ('r Buffer \<times> 'r \<times> event list) option" where
  "Observe_Buffer sc now now' ff b r =
     do { (b1, r1, es1) \<leftarrow> lazy_evict now b r;
          (b2, es2) \<leftarrow> (case map_of (bf_slots b1) (slotKey sc ff) of
             Some s \<Rightarrow> accept sc now' ff s b1
           | None \<Rightarrow> open_slot sc now now' ff b1);
          Some (b2, r1, es1 @ es2) }"

section \<open>Housekeeping\<close>

definition Tick :: "gtime \<Rightarrow> 'r Buffer \<Rightarrow> 'r \<Rightarrow> ('r Buffer \<times> 'r \<times> event list) option" where
  "Tick now b r = evictExpired now b r"

definition Stats :: "'r Buffer \<Rightarrow> nat" where
  "Stats b = length (bf_slots b)"

definition Len_Buffer :: "'r Buffer \<Rightarrow> nat" where
  "Len_Buffer b = length (bf_slots b)"

definition Purge :: "'r Buffer \<Rightarrow> 'r Buffer \<times> event list" where
  "Purge b =
     (b\<lparr>bf_slots := [], bf_insertOrder := [], bf_done := [], bf_doneOrder := []\<rparr>,
      concat (map (\<lambda>_. fires b Abandoned) (bf_slots b)))"

definition validateFragment :: "FragFrame \<Rightarrow> string option" where
  "validateFragment ff =
     (if ff_FragTotal ff = 0 then Some ''FragTotal=0''
      else if ff_FragIndex ff \<ge> ff_FragTotal ff then Some ''FragIndex >= FragTotal''
      else None)"

end
