(* ===== verification/Reassembly_Slot.thy ===== *)
theory Reassembly_Slot
  imports Reassembly
begin

text \<open>
  What a reassembly slot holds. The abstract value of a slot is the partial map from fragment
  index to fragment bytes; \<open>slot_holds\<close> relates a slot to it, whichever of the two
  representations (fragments waiting in \<^verbatim>\<open>early\<close>, or bytes at their offsets in \<^verbatim>\<open>payload\<close>) it is
  in. Storing a fragment updates the map at its index, never panics, and a complete slot's payload
  is the concatenation of the map's values.
\<close>

section \<open>Overwriting a buffer in place\<close>

lemma sub_put_at_same:
  "off + length xs \<le> length bs \<Longrightarrow> sub_bytes off (off + length xs) (put_at off xs bs) = xs"
  by (simp add: sub_bytes_def put_at_def)

lemma sub_put_at_other:
  assumes "off + length xs \<le> length bs" and "hi \<le> length bs" and "hi \<le> off \<or> off + length xs \<le> lo"
  shows "sub_bytes lo hi (put_at off xs bs) = sub_bytes lo hi bs"
proof (cases "lo < hi")
  case True
  show ?thesis
    by (rule nth_equalityI) (use assms True in \<open>auto simp: nth_sub_bytes nth_put_at\<close>)
qed (simp add: sub_bytes_def)

lemma put_at_drop:
  "r \<le> length w \<Longrightarrow> take r w @ put_at off xs (drop r w) = put_at (r + off) xs w"
  using add.commute [of r "off + length xs"] by (simp only: put_at_def take_add drop_drop append_assoc add.assoc)

section \<open>The shape of an object\<close>

abbreviation frag_total :: "slot \<Rightarrow> nat" where
  "frag_total s \<equiv> unat (sl_fragTotal s)"

abbreviation obj_len :: "slot \<Rightarrow> nat" where
  "obj_len s \<equiv> unat (sl_origPayloadLen s)"

definition frag_len :: "slot \<Rightarrow> nat \<Rightarrow> nat" where
  "frag_len s i = (if Suc i = frag_total s then obj_len s - sl_fragSize s * (frag_total s - 1) else sl_fragSize s)"

definition slot_room :: "shard_common \<Rightarrow> slot \<Rightarrow> nat" where
  "slot_room sc s = (if sl_origFrameVer s = sc_FrameVerV9 sc then sc_HeaderSize sc else 0)"

definition shaped :: "slot \<Rightarrow> bool" where
  "shaped s \<longleftrightarrow> 0 < sl_fragSize s \<and> sl_fragSize s * (frag_total s - 1) < obj_len s \<and>
     (frag_total s = 1 \<longrightarrow> sl_fragSize s = obj_len s)"

definition frag_at :: "slot \<Rightarrow> nat \<Rightarrow> byte list \<Rightarrow> byte list" where
  "frag_at s i w = sub_bytes (sl_room s + i * sl_fragSize s) (sl_room s + i * sl_fragSize s + frag_len s i) w"

lemma frag_end:
  assumes "shaped s" and "i < frag_total s"
  shows "i * sl_fragSize s + frag_len s i \<le> obj_len s"
proof (cases "Suc i = frag_total s")
  case True
  then have "frag_total s - 1 = i" by simp
  then show ?thesis using assms True by (simp add: frag_len_def shaped_def mult.commute)
next
  case False
  then have "Suc i \<le> frag_total s - 1" using assms(2) by simp
  then have "Suc i * sl_fragSize s \<le> (frag_total s - 1) * sl_fragSize s" by (rule mult_le_mono1)
  then have "Suc i * sl_fragSize s \<le> obj_len s" using assms(1) by (simp add: shaped_def mult.commute)
  then show ?thesis using False by (simp add: frag_len_def)
qed

lemma frags_disjoint:
  assumes "shaped s" and "i < frag_total s" and "j < frag_total s" and "i < j"
  shows "i * sl_fragSize s + frag_len s i \<le> j * sl_fragSize s"
proof -
  have "Suc i * sl_fragSize s \<le> j * sl_fragSize s" using assms(4) by (intro mult_le_mono1) simp
  moreover have "frag_len s i = sl_fragSize s" using assms by (simp add: frag_len_def)
  ultimately show ?thesis by simp
qed

section \<open>The length check\<close>

declare of_nat_unat [simp del]

lemma index_of_nat [simp]: "(of_nat (unat (x :: u16)) :: u16) = x"
  by (simp add: of_nat_unat)

lemma smod_pos: "0 \<le> (a::int) \<Longrightarrow> 0 < b \<Longrightarrow> a smod b = a mod b"
  by (cases "a = 0") (simp_all add: signed_modulo_int_def sdiv_nonneg minus_div_mult_eq_mod)

definition fits :: "slot \<Rightarrow> FragFrame \<Rightarrow> nat \<Rightarrow> bool" where
  "fits s ff fs \<longleftrightarrow> (let s' = s\<lparr>sl_fragSize := fs\<rparr> in
     shaped s' \<and> length (ff_FragData ff) = frag_len s' (unat (ff_FragIndex ff)) \<and>
     (sl_fragSize s = 0 \<or> sl_fragSize s = fs))"

lemma exact_quotient:
  fixes n l k fs :: nat
  assumes "0 < k" and "0 < n"
  shows "(0 < int l - int n \<and> (int l - int n) mod int k = 0 \<and> fs = nat ((int l - int n) div int k)) \<longleftrightarrow>
    (0 < fs \<and> fs * k < l \<and> n = l - fs * k)"
proof (cases "n < l")
  case True
  then have d: "int l - int n = int (l - n)" by simp
  have "(int l - int n) mod int k = int ((l - n) mod k)" "(int l - int n) div int k = int ((l - n) div k)"
    unfolding d by (simp_all only: of_nat_mod of_nat_div)
  then have "?thesis \<longleftrightarrow> ((l - n) mod k = 0 \<and> fs = (l - n) div k) = (0 < fs \<and> fs * k < l \<and> n = l - fs * k)"
    using True by simp
  moreover have "\<dots>"
  proof
    assume a: "(l - n) mod k = 0 \<and> fs = (l - n) div k"
    then have m: "fs * k = l - n" by (metis add.right_neutral div_mult_mod_eq)
    then have "0 < fs" using True by (cases fs) simp_all
    then show "0 < fs \<and> fs * k < l \<and> n = l - fs * k" using m True assms(2) by simp
  next
    assume "0 < fs \<and> fs * k < l \<and> n = l - fs * k"
    then have "l - n = fs * k" by simp
    then show "(l - n) mod k = 0 \<and> fs = (l - n) div k" using assms(1) by simp
  qed
  ultimately show ?thesis by simp
next
  case False
  then show ?thesis using assms by auto
qed

lemma final_fragment_size:
  fixes n l t fs :: nat
  assumes "1 < t" and "0 < n"
  shows "(int l - int n > 0 \<and> (int l - int n) mod (int t - 1) = 0 \<and> fs = nat ((int l - int n) div (int t - 1))) \<longleftrightarrow>
    (0 < fs \<and> fs * (t - 1) < l \<and> n = l - fs * (t - 1))"
proof -
  have "int t - 1 = int (t - 1)" "0 < t - 1" using assms(1) by simp_all
  then show ?thesis using exact_quotient [of "t - 1" n l fs] assms(2) by simp
qed

lemma agree_Some:
  "0 \<le> x \<Longrightarrow> (if cur \<noteq> 0 \<and> int cur \<noteq> x then None else Some (nat x)) = Some fs \<longleftrightarrow> nat x = fs \<and> (cur = 0 \<or> cur = fs)"
  by auto

lemma checkFragLen_single:
  assumes "frag_total s = 1" and "unat (ff_FragIndex ff) = 0" and "0 < length (ff_FragData ff)"
  shows "checkFragLen s ff = Some fs \<longleftrightarrow> fits s ff fs"
proof -
  have "checkFragLen s ff = Some fs \<longleftrightarrow> length (ff_FragData ff) = obj_len s \<and> length (ff_FragData ff) = fs \<and>
      (sl_fragSize s = 0 \<or> sl_fragSize s = fs)"
    unfolding checkFragLen_def Let_def using assms agree_Some [of "int (length (ff_FragData ff))" "sl_fragSize s" fs]
    by auto
  moreover obtain n where "length (ff_FragData ff) = Suc n" using assms(3) by (cases "length (ff_FragData ff)") auto
  ultimately show ?thesis using assms(1,2) by (auto simp: fits_def frag_len_def shaped_def Let_def)
qed

lemma checked_division:
  fixes r k :: int
  assumes "0 < k"
  shows "(if r \<le> 0 \<or> r smod k \<noteq> 0 then None
      else if cur \<noteq> 0 \<and> int cur \<noteq> r sdiv k then None else Some (nat (r sdiv k))) = Some fs \<longleftrightarrow>
    (0 < r \<and> r mod k = 0 \<and> fs = nat (r div k)) \<and> (cur = 0 \<or> cur = fs)"
proof (cases "0 < r")
  case True
  then have "0 \<le> r div k" using assms by (simp add: pos_imp_zdiv_nonneg_iff)
  then show ?thesis using True assms by (auto simp: smod_pos sdiv_nonneg)
qed simp

lemma checkFragLen_final:
  assumes "1 < frag_total s" and "Suc (unat (ff_FragIndex ff)) = frag_total s" and "0 < length (ff_FragData ff)"
  shows "checkFragLen s ff = Some fs \<longleftrightarrow> fits s ff fs"
proof -
  let ?r = "int (obj_len s) - int (length (ff_FragData ff))" and ?k = "int (frag_total s) - 1"
  have i: "int (unat (ff_FragIndex ff)) = ?k" using assms(2) by simp
  have k: "0 < ?k" using assms(1) by simp
  have "checkFragLen s ff = (if ?r \<le> 0 \<or> ?r smod ?k \<noteq> 0 then None
      else if sl_fragSize s \<noteq> 0 \<and> int (sl_fragSize s) \<noteq> ?r sdiv ?k then None else Some (nat (?r sdiv ?k)))"
    using assms(1,3) unfolding checkFragLen_def Let_def i by simp
  then have "checkFragLen s ff = Some fs \<longleftrightarrow>
      (0 < ?r \<and> ?r mod ?k = 0 \<and> fs = nat (?r div ?k)) \<and> (sl_fragSize s = 0 \<or> sl_fragSize s = fs)"
    by (simp only: checked_division [OF k])
  also have "\<dots> \<longleftrightarrow> fits s ff fs"
    unfolding final_fragment_size [OF assms(1,3)] using assms by (auto simp: fits_def frag_len_def shaped_def Let_def)
  finally show ?thesis .
qed

lemma checkFragLen_interior:
  assumes "Suc (unat (ff_FragIndex ff)) < frag_total s" and "0 < length (ff_FragData ff)"
  shows "checkFragLen s ff = Some fs \<longleftrightarrow> fits s ff fs"
proof -
  let ?n = "length (ff_FragData ff)" and ?t = "frag_total s"
  have "int ?t - 1 = int (?t - 1)" using assms(1) by (simp add: of_nat_diff)
  then have le: "int (obj_len s) \<le> int ?n * (int ?t - 1) \<longleftrightarrow> obj_len s \<le> ?n * (?t - 1)"
    by (simp only: of_nat_mult [symmetric] of_nat_le_iff)
  have i: "int (unat (ff_FragIndex ff)) \<noteq> int ?t - 1" "int ?t \<noteq> 1" "\<not> int ?n \<le> 0" using assms by simp_all
  have "checkFragLen s ff = Some fs \<longleftrightarrow> \<not> obj_len s \<le> ?n * (?t - 1) \<and> ?n = fs \<and> (sl_fragSize s = 0 \<or> sl_fragSize s = fs)"
  proof (cases "obj_len s \<le> ?n * (?t - 1)")
    case False
    then have "checkFragLen s ff = (if sl_fragSize s \<noteq> 0 \<and> int (sl_fragSize s) \<noteq> int ?n then None else Some (nat (int ?n)))"
      unfolding checkFragLen_def Let_def using i by (simp only: le if_False)
    then show ?thesis using False agree_Some [of "int ?n" "sl_fragSize s" fs] by (simp only: nat_int) simp
  qed (unfold checkFragLen_def Let_def, use i in \<open>simp only: le if_False if_True\<close>, simp)
  moreover have "fits s ff fs \<longleftrightarrow> (0 < fs \<and> fs * (?t - 1) < obj_len s) \<and> ?n = fs \<and> (sl_fragSize s = 0 \<or> sl_fragSize s = fs)"
    using assms(1) by (simp add: fits_def frag_len_def shaped_def Let_def)
  ultimately show ?thesis using assms(2) by (metis linorder_not_le)
qed

lemma checkFragLen_iff:
  assumes "unat (ff_FragIndex ff) < frag_total s"
  shows "checkFragLen s ff = Some fs \<longleftrightarrow> fits s ff fs"
proof (cases "length (ff_FragData ff)")
  case 0
  then show ?thesis using assms by (auto simp: checkFragLen_def fits_def frag_len_def shaped_def Let_def)
next
  case (Suc n)
  then have n: "0 < length (ff_FragData ff)" by simp
  consider "frag_total s = 1" | "1 < frag_total s" "Suc (unat (ff_FragIndex ff)) = frag_total s"
    | "Suc (unat (ff_FragIndex ff)) < frag_total s"
    using assms by linarith
  then show ?thesis
    by cases (use n assms checkFragLen_single checkFragLen_final checkFragLen_interior in auto)
qed

section \<open>What a slot holds\<close>

definition stores :: "shard_common \<Rightarrow> slot \<Rightarrow> (nat \<rightharpoonup> byte list) \<Rightarrow> bool" where
  "stores sc s c \<longleftrightarrow>
     (c = Map.empty \<and> sl_fragSize s = 0 \<or>
      c \<noteq> Map.empty \<and> shaped s \<and> (\<forall>i d. c i = Some d \<longrightarrow> length d = frag_len s i)) \<and>
     (case sl_whole s of
        None \<Rightarrow> distinct (map fst (sl_early s)) \<and>
          (\<forall>i d. c i = Some d \<longleftrightarrow> i < frag_total s \<and> (of_nat i, d) \<in> set (sl_early s)) \<and>
          (\<forall>(i, d)\<in>set (sl_early s). unat i < frag_total s)
      | Some w \<Rightarrow> sl_early s = [] \<and> sl_room s = slot_room sc s \<and> length w = sl_room s + obj_len s \<and>
          (\<forall>i d. c i = Some d \<longrightarrow> frag_at s i w = d))"

definition slot_holds :: "shard_common \<Rightarrow> slot \<Rightarrow> (nat \<rightharpoonup> byte list) \<Rightarrow> bool" where
  "slot_holds sc s c \<longleftrightarrow>
     length (sl_have s) = frag_total s \<and> length (sl_fragSeq s) = frag_total s \<and>
     dom c = {i. i < frag_total s \<and> sl_have s ! i} \<and> unat (sl_received s) = card (dom c) \<and> stores sc s c"

text \<open>The fields an accepted fragment does not change.\<close>

definition same_object :: "slot \<Rightarrow> slot \<Rightarrow> bool" where
  "same_object s s' \<longleftrightarrow> s'\<lparr>sl_fragSize := sl_fragSize s, sl_received := sl_received s, sl_have := sl_have s,
     sl_whole := sl_whole s, sl_room := sl_room s, sl_early := sl_early s, sl_fragSeq := sl_fragSeq s\<rparr> = s"

lemma same_object_refl [simp]: "same_object s s"
  by (simp add: same_object_def)

lemma same_object_trans: "same_object s s' \<Longrightarrow> same_object s' s'' \<Longrightarrow> same_object s s''"
  by (cases s; cases s'; cases s'') (simp add: same_object_def)

lemma same_object_sel:
  assumes "same_object s s'"
  shows "sl_key s' = sl_key s" "sl_txID s' = sl_txID s" "sl_subtreeID s' = sl_subtreeID s"
    "sl_hashKey s' = sl_hashKey s" "sl_seqNum s' = sl_seqNum s" "sl_origPayloadLen s' = sl_origPayloadLen s"
    "sl_fragTotal s' = sl_fragTotal s" "sl_groupIdx s' = sl_groupIdx s" "sl_deadline s' = sl_deadline s"
    "sl_born s' = sl_born s" "sl_requested s' = sl_requested s" "sl_extended s' = sl_extended s"
    "sl_origFrameVer s' = sl_origFrameVer s" "sl_msgType s' = sl_msgType s"
  using assms by (cases s; cases s'; simp add: same_object_def)+

lemma write_payload_ok:
  assumes "sl_whole s = Some w" and "length w = sl_room s + obj_len s" and "shaped s"
    and "unat i < frag_total s" and "length d = frag_len s (unat i)"
  shows "\<exists>w'. write_payload i d s = Some (s\<lparr>sl_whole := Some w'\<rparr>) \<and> length w' = length w \<and>
    frag_at s (unat i) w' = d \<and>
    (\<forall>j < frag_total s. j \<noteq> unat i \<longrightarrow> frag_at s j w' = frag_at s j w) \<and> take (sl_room s) w' = take (sl_room s) w"
proof -
  let ?o = "unat i * sl_fragSize s" and ?r = "sl_room s"
  have e: "?o + length d \<le> obj_len s" using frag_end [OF assms(3,4)] assms(5) by simp
  then have fit: "(?r + ?o) + length d \<le> length w" using assms(2) by simp
  let ?w = "put_at (?r + ?o) d w"
  have "write_payload i d s = Some (s\<lparr>sl_whole := Some ?w\<rparr>)"
    using assms(1,2) e put_at_drop [of ?r w ?o d] by (simp add: write_payload_def copy_from_def)
  moreover have "frag_at s (unat i) ?w = d"
    using sub_put_at_same [OF fit] assms(5) by (simp add: frag_at_def)
  moreover have "frag_at s j ?w = frag_at s j w" if "j < frag_total s" "j \<noteq> unat i" for j
    unfolding frag_at_def
  proof (rule sub_put_at_other [OF fit])
    show "?r + j * sl_fragSize s + frag_len s j \<le> length w" using frag_end [OF assms(3) that(1)] assms(2) by simp
    show "?r + j * sl_fragSize s + frag_len s j \<le> ?r + ?o \<or> ?r + ?o + length d \<le> ?r + j * sl_fragSize s"
      using frags_disjoint [OF assms(3) that(1) assms(4)] frags_disjoint [OF assms(3,4) that(1)] that(2) assms(5)
      by (cases "j < unat i") simp_all
  qed
  moreover have "take ?r ?w = take ?r w" using fit by (simp add: put_at_def)
  ultimately show ?thesis using fit by (intro exI [of _ ?w]) simp
qed

lemma write_early_ok:
  assumes "sl_whole s = Some w" and "length w = sl_room s + obj_len s" and "shaped s"
    and "\<forall>(i, d)\<in>set es. unat i < frag_total s \<and> length d = frag_len s (unat i)" and "distinct (map fst es)"
  shows "\<exists>w'. write_early es s = Some (s\<lparr>sl_whole := Some w'\<rparr>) \<and> length w' = length w \<and>
    (\<forall>(i, d)\<in>set es. frag_at s (unat i) w' = d) \<and>
    (\<forall>j < frag_total s. j \<notin> unat ` fst ` set es \<longrightarrow> frag_at s j w' = frag_at s j w)"
  using assms
proof (induction es arbitrary: s w)
  case Nil
  then have "s\<lparr>sl_whole := Some w\<rparr> = s" by (cases s) simp
  then show ?case by (intro exI [of _ w]) simp
next
  case (Cons e es)
  obtain i d where e: "e = (i, d)" by force
  with Cons.prems have i: "unat i < frag_total s" and d: "length d = frag_len s (unat i)" by auto
  from write_payload_ok [OF Cons.prems(1-3) i d] obtain w1 where w1:
    "write_payload i d s = Some (s\<lparr>sl_whole := Some w1\<rparr>)" "length w1 = length w" "frag_at s (unat i) w1 = d"
    "\<forall>j < frag_total s. j \<noteq> unat i \<longrightarrow> frag_at s j w1 = frag_at s j w" by blast
  let ?s = "s\<lparr>sl_whole := Some w1\<rparr>"
  have fr: "frag_at ?s = frag_at s" "frag_len ?s = frag_len s" "shaped ?s = shaped s"
    by (simp_all add: frag_at_def frag_len_def shaped_def fun_eq_iff)
  have tot: "sl_fragTotal ?s = sl_fragTotal s" by simp
  have "\<exists>w'. write_early es ?s = Some (?s\<lparr>sl_whole := Some w'\<rparr>) \<and> length w' = length w1 \<and>
      (\<forall>(i, d)\<in>set es. frag_at ?s (unat i) w' = d) \<and>
      (\<forall>j < frag_total ?s. j \<notin> unat ` fst ` set es \<longrightarrow> frag_at ?s j w' = frag_at ?s j w1)"
  proof (rule Cons.IH)
    show "\<forall>(i, d)\<in>set es. unat i < frag_total ?s \<and> length d = frag_len ?s (unat i)"
      unfolding fr tot using Cons.prems(4) by simp
  qed (use Cons.prems w1(2) fr in simp_all)
  then obtain w2 where w2: "write_early es ?s = Some (?s\<lparr>sl_whole := Some w2\<rparr>)" "length w2 = length w1"
    "\<forall>(i, d)\<in>set es. frag_at s (unat i) w2 = d"
    "\<forall>j < frag_total s. j \<notin> unat ` fst ` set es \<longrightarrow> frag_at s j w2 = frag_at s j w1"
    unfolding fr tot by blast
  have "unat i \<notin> unat ` fst ` set es" 
  proof
    assume "unat i \<in> unat ` fst ` set es"
    then obtain a where "a \<in> fst ` set es" "unat i = unat a" by (rule imageE)
    then have "i \<in> fst ` set es" using word_unat_eq_iff [of i a] by simp
    then show False using Cons.prems(5) e by simp
  qed
  then have "frag_at s (unat i) w2 = d" using w2(4) i w1(3) by simp
  moreover have "frag_at s j w2 = frag_at s j w" if "j < frag_total s" "j \<notin> unat ` fst ` set (e # es)" for j
    using that w2(4) w1(4) e by simp
  ultimately show ?case using w1(1,2) w2(1-3) e by (intro exI [of _ w2]) simp
qed

lemma promote_ok:
  assumes h: "stores sc s c" and "sl_whole s = None" and ne: "c \<noteq> Map.empty"
  shows "\<exists>w. promote sc s = Some (s\<lparr>sl_whole := Some w, sl_room := slot_room sc s, sl_early := []\<rparr>) \<and>
    stores sc (s\<lparr>sl_whole := Some w, sl_room := slot_room sc s, sl_early := []\<rparr>) c"
proof -
  let ?s = "s\<lparr>sl_whole := Some (replicate (slot_room sc s + obj_len s) 0), sl_room := slot_room sc s\<rparr>"
  have sh: "shaped s" and len: "\<And>i d. c i = Some d \<Longrightarrow> length d = frag_len s i" using h ne by (auto simp: stores_def)
  have ea: "distinct (map fst (sl_early s))" "\<forall>(i, d)\<in>set (sl_early s). unat i < frag_total s"
    and c: "\<And>i d. c i = Some d \<longleftrightarrow> i < frag_total s \<and> (of_nat i, d) \<in> set (sl_early s)"
    using h assms(2) by (simp_all add: stores_def)
  have fr: "frag_len ?s = frag_len s" "shaped ?s = shaped s" by (simp_all add: frag_len_def shaped_def fun_eq_iff)
  have "\<forall>(i, d)\<in>set (sl_early s). unat i < frag_total s \<and> length d = frag_len s (unat i)"
  proof (intro ballI, clarify)
    fix i d assume "(i, d) \<in> set (sl_early s)"
    then have "c (unat i) = Some d" "unat i < frag_total s" using c [of "unat i" d] ea(2) by auto
    then show "unat i < frag_total s \<and> length d = frag_len s (unat i)" using len by simp
  qed
  then obtain w where w: "write_early (sl_early s) ?s = Some (?s\<lparr>sl_whole := Some w\<rparr>)"
      "length w = slot_room sc s + obj_len s" "\<forall>(i, d)\<in>set (sl_early s). frag_at ?s (unat i) w = d"
    using write_early_ok [of ?s "replicate (slot_room sc s + obj_len s) 0" "sl_early s"] ea(1) sh by (auto simp: fr)
  let ?t = "s\<lparr>sl_whole := Some w, sl_room := slot_room sc s, sl_early := []\<rparr>"
  have at: "frag_at ?t i w = d" if "c i = Some d" for i d
  proof -
    have "i < frag_total s" and mem: "(of_nat i, d) \<in> set (sl_early s)" using that c by blast+
    then have "i < 2 ^ 16" using unat_lt2p [of "sl_fragTotal s"] by simp
    then have "unat (of_nat i :: u16) = i" by (simp add: unat_of_nat)
    then have "frag_at ?s i w = d" using bspec [OF w(3) mem] by simp
    moreover have "frag_len ?t i = frag_len ?s i" by (simp add: frag_len_def)
    ultimately show ?thesis by (simp add: frag_at_def)
  qed
  have "promote sc s = Some ?t" using w(1) by (simp add: promote_def slot_room_def Let_def)
  moreover have "stores sc ?t c"
  proof -
    have fr: "frag_len ?t = frag_len s" "shaped ?t = shaped s" "slot_room sc ?t = slot_room sc s"
      by (simp_all add: frag_len_def shaped_def slot_room_def fun_eq_iff)
    show ?thesis unfolding stores_def fr using sh len ne w(2) at by simp
  qed
  ultimately show ?thesis by blast
qed

lemma fits_shaped: "fits s ff fs \<Longrightarrow> shaped (s\<lparr>sl_fragSize := fs\<rparr>)"
  by (simp add: fits_def Let_def)

lemma fits_frag_len: "fits s ff fs \<Longrightarrow> length (ff_FragData ff) = frag_len (s\<lparr>sl_fragSize := fs\<rparr>) (unat (ff_FragIndex ff))"
  by (simp add: fits_def Let_def)

lemma store_written:
  assumes h: "stores sc s c" and f: "fits s ff fs" and i: "unat (ff_FragIndex ff) < frag_total s"
    and new: "c (unat (ff_FragIndex ff)) = None" and dom: "\<forall>i d. c i = Some d \<longrightarrow> i < frag_total s"
    and w: "sl_whole s = Some w"
  shows "\<exists>s1. store sc (ff_FragIndex ff) (ff_FragData ff) (s\<lparr>sl_fragSize := fs\<rparr>) = Some s1 \<and>
    stores sc s1 (c(unat (ff_FragIndex ff) \<mapsto> ff_FragData ff)) \<and> same_object s s1 \<and>
    sl_have s1 = sl_have s \<and> sl_fragSeq s1 = sl_fragSeq s \<and> sl_received s1 = sl_received s"
proof -
  let ?i = "unat (ff_FragIndex ff)" and ?d = "ff_FragData ff" and ?s = "s\<lparr>sl_fragSize := fs\<rparr>"
  have hw: "sl_early s = []" "sl_room s = slot_room sc s" "length w = sl_room s + obj_len s"
    "\<And>i d. c i = Some d \<Longrightarrow> frag_at s i w = d" using h w by (simp_all add: stores_def)
  have old: "?s = s \<and> (\<forall>i d. c i = Some d \<longrightarrow> length d = frag_len s i)" if "c \<noteq> Map.empty"
  proof -
    have "sl_fragSize s = fs" using h f that by (auto simp: stores_def fits_def shaped_def Let_def)
    then have "?s = s" by (cases s) simp
    then show ?thesis using h that by (simp add: stores_def)
  qed
  have ww: "sl_whole ?s = Some w" "length w = sl_room ?s + obj_len ?s" using w hw(3) by simp_all
  have ii: "unat (ff_FragIndex ff) < frag_total ?s" using i by simp
  from write_payload_ok [OF ww fits_shaped [OF f] ii fits_frag_len [OF f]] obtain w' where
    w': "write_payload (ff_FragIndex ff) ?d ?s = Some (?s\<lparr>sl_whole := Some w'\<rparr>)" "length w' = length w"
      "frag_at ?s ?i w' = ?d" "\<forall>j < frag_total ?s. j \<noteq> ?i \<longrightarrow> frag_at ?s j w' = frag_at ?s j w" by blast
  let ?t = "?s\<lparr>sl_whole := Some w'\<rparr>"
  have fr: "frag_at ?t = frag_at ?s" "frag_len ?t = frag_len ?s" "shaped ?t = shaped ?s" "slot_room sc ?t = slot_room sc s"
    by (simp_all add: frag_at_def frag_len_def shaped_def slot_room_def fun_eq_iff)
  have at: "frag_at ?s j w' = d \<and> length d = frag_len ?s j" if "(c(?i \<mapsto> ?d)) j = Some d" for j d
  proof (cases "j = ?i")
    case False
    with that have c: "c j = Some d" by simp
    then have ne: "c \<noteq> Map.empty" by auto
    show ?thesis using w'(4) False dom [rule_format, OF c] hw(4) [OF c] old [OF ne] c by simp
  qed (use that w'(3) fits_frag_len [OF f] in simp)
  have "stores sc ?t (c(?i \<mapsto> ?d))"
    unfolding stores_def fr using at fits_shaped [OF f] hw(1-3) w'(2) by simp
  moreover have "store sc (ff_FragIndex ff) ?d ?s = Some ?t" using w w'(1) by (simp add: store_def)
  moreover have "same_object s ?t" by (simp add: same_object_def)
  ultimately show ?thesis by (intro exI [of _ ?t]) simp
qed

lemma store_waiting:
  assumes h: "stores sc s c" and f: "fits s ff fs" and i: "unat (ff_FragIndex ff) < frag_total s"
    and new: "c (unat (ff_FragIndex ff)) = None" and w: "sl_whole s = None"
  shows "\<exists>s1. store sc (ff_FragIndex ff) (ff_FragData ff) (s\<lparr>sl_fragSize := fs\<rparr>) = Some s1 \<and>
    stores sc s1 (c(unat (ff_FragIndex ff) \<mapsto> ff_FragData ff)) \<and> same_object s s1 \<and>
    sl_have s1 = sl_have s \<and> sl_fragSeq s1 = sl_fragSeq s \<and> sl_received s1 = sl_received s"
proof -
  let ?i = "unat (ff_FragIndex ff)" and ?d = "ff_FragData ff"
  let ?s = "s\<lparr>sl_fragSize := fs, sl_early := sl_early s @ [(ff_FragIndex ff, ff_FragData ff)]\<rparr>" and ?c = "c(?i \<mapsto> ?d)"
  have hw: "distinct (map fst (sl_early s))" "\<forall>(i, d)\<in>set (sl_early s). unat i < frag_total s"
    "\<And>i d. c i = Some d \<longleftrightarrow> i < frag_total s \<and> (of_nat i, d) \<in> set (sl_early s)"
    using h w by (simp_all add: stores_def)
  have fresh: "ff_FragIndex ff \<notin> fst ` set (sl_early s)"
  proof
    assume "ff_FragIndex ff \<in> fst ` set (sl_early s)"
    then obtain d where "(ff_FragIndex ff, d) \<in> set (sl_early s)" by force
    then have "c ?i = Some d" using hw(3) [of ?i d] i by simp
    then show False using new by simp
  qed
  have fr: "frag_len ?s = frag_len (s\<lparr>sl_fragSize := fs\<rparr>)" "shaped ?s = shaped (s\<lparr>sl_fragSize := fs\<rparr>)"
    by (simp_all add: frag_len_def shaped_def fun_eq_iff)
  have idx: "(of_nat j :: u16) = ff_FragIndex ff \<longleftrightarrow> j = ?i" if "j < frag_total s" for j
  proof -
    have "j < 2 ^ 16" using that unat_lt2p [of "sl_fragTotal s"] by simp
    then have "unat (of_nat j :: u16) = j" by (simp add: unat_of_nat)
    then show ?thesis by (metis index_of_nat)
  qed
  have c': "?c j = Some d \<longleftrightarrow> j < frag_total s \<and> (of_nat j, d) \<in> set (sl_early ?s)" for j d
    using hw(3) [of j d] idx [of j] i fresh new by auto
  have len: "length d = frag_len ?s j" if "?c j = Some d" for j d
  proof (cases "j = ?i")
    case False
    with that have "c j = Some d" by simp
    then have "c \<noteq> Map.empty" "length d = frag_len s j" "sl_fragSize s = fs"
      using h f by (auto simp: stores_def fits_def shaped_def Let_def)
    then show ?thesis unfolding fr by (simp add: frag_len_def)
  qed (use that fits_frag_len [OF f] fr in simp)
  have st: "stores sc ?s ?c"
    unfolding stores_def using len c' fits_shaped [OF f] hw(1,2) fresh w fr i by simp
  have eq: "store sc (ff_FragIndex ff) ?d (s\<lparr>sl_fragSize := fs\<rparr>) =
      (if promoteAfter (sl_fragTotal s) \<le> of_nat (length (sl_early ?s)) then promote sc ?s else Some ?s)"
    using w by (simp add: store_def Let_def)
  show ?thesis
  proof (cases "promoteAfter (sl_fragTotal s) \<le> of_nat (length (sl_early ?s))")
    case True
    have "sl_whole ?s = None" "?c \<noteq> Map.empty" using w by simp_all
    from promote_ok [OF st this] obtain v where v:
      "promote sc ?s = Some (?s\<lparr>sl_whole := Some v, sl_room := slot_room sc ?s, sl_early := []\<rparr>)"
      "stores sc (?s\<lparr>sl_whole := Some v, sl_room := slot_room sc ?s, sl_early := []\<rparr>) ?c" by blast
    then show ?thesis unfolding eq using True
      by (intro exI [of _ "?s\<lparr>sl_whole := Some v, sl_room := slot_room sc ?s, sl_early := []\<rparr>"])
         (simp add: same_object_def)
  next
    case False
    then show ?thesis unfolding eq using st by (intro exI [of _ ?s]) (simp add: same_object_def)
  qed
qed

lemma slot_holds_dom: "slot_holds sc s c \<Longrightarrow> c i = Some d \<Longrightarrow> i < frag_total s"
  by (auto simp: slot_holds_def)

lemma slot_holds_have: "slot_holds sc s c \<Longrightarrow> i < frag_total s \<Longrightarrow> sl_have s ! i \<longleftrightarrow> c i \<noteq> None"
  by (auto simp: slot_holds_def)

lemma slot_holds_finite: "slot_holds sc s c \<Longrightarrow> dom c \<subseteq> {..<frag_total s}"
  by (auto simp: slot_holds_def)

text \<open>The slot after one accepted fragment.\<close>

definition with_fragment :: "FragFrame \<Rightarrow> slot \<Rightarrow> slot" where
  "with_fragment ff s =
     s\<lparr>sl_have := (sl_have s)[unat (ff_FragIndex ff) := True],
       sl_fragSeq := (sl_fragSeq s)[unat (ff_FragIndex ff) := ff_SeqNum ff], sl_received := sl_received s + 1\<rparr>"

lemma store_fragment:
  assumes h: "slot_holds sc s c" and f: "fits s ff fs" and i: "unat (ff_FragIndex ff) < frag_total s"
    and new: "\<not> sl_have s ! unat (ff_FragIndex ff)"
  shows "\<exists>s1. store sc (ff_FragIndex ff) (ff_FragData ff) (s\<lparr>sl_fragSize := fs\<rparr>) = Some s1 \<and>
    slot_holds sc (with_fragment ff s1) (c(unat (ff_FragIndex ff) \<mapsto> ff_FragData ff)) \<and>
    same_object s (with_fragment ff s1) \<and>
    unat (sl_received (with_fragment ff s1)) = Suc (unat (sl_received s)) \<and>
    sl_fragSeq (with_fragment ff s1) = (sl_fragSeq s)[unat (ff_FragIndex ff) := ff_SeqNum ff]"
proof -
  let ?i = "unat (ff_FragIndex ff)" and ?c = "c(unat (ff_FragIndex ff) \<mapsto> ff_FragData ff)"
  have st: "stores sc s c" and hs: "length (sl_have s) = frag_total s" "length (sl_fragSeq s) = frag_total s"
    "dom c = {i. i < frag_total s \<and> sl_have s ! i}" "unat (sl_received s) = card (dom c)"
    using h by (simp_all add: slot_holds_def)
  have none: "c ?i = None" using slot_holds_have [OF h i] new by simp
  obtain s1 where s1: "store sc (ff_FragIndex ff) (ff_FragData ff) (s\<lparr>sl_fragSize := fs\<rparr>) = Some s1"
      "stores sc s1 ?c" "same_object s s1" "sl_have s1 = sl_have s" "sl_fragSeq s1 = sl_fragSeq s"
      "sl_received s1 = sl_received s"
  proof (cases "sl_whole s")
    case None
    from store_waiting [OF st f i none None] show ?thesis using that by blast
  next
    case (Some w)
    have dm: "\<forall>i d. c i = Some d \<longrightarrow> i < frag_total s" using slot_holds_dom [OF h] by blast
    from store_written [OF st f i none dm Some] show ?thesis using that by blast
  qed
  have fin: "finite (dom c)" using slot_holds_finite [OF h] finite_subset by blast
  have d: "dom ?c = insert ?i (dom c)" "?i \<notin> dom c" using none by auto
  have "insert ?i (dom c) \<subseteq> {..<frag_total s}" using slot_holds_finite [OF h] i by auto
  then have "card (insert ?i (dom c)) \<le> frag_total s" by (metis card_lessThan card_mono finite_lessThan)
  then have "Suc (card (dom c)) \<le> frag_total s" using d(2) fin by simp
  then have "Suc (unat (sl_received s)) < 2 ^ 16" using hs(4) unat_lt2p [of "sl_fragTotal s"] by simp
  then have rec: "unat (sl_received s + 1) = Suc (card (dom c))" using hs(4) by (simp add: unat_word_ariths)
  have tot: "sl_fragTotal s1 = sl_fragTotal s" by (rule same_object_sel [OF s1(3)])
  let ?t = "with_fragment ff s1"
  have fr: "frag_len ?t = frag_len s1" "shaped ?t = shaped s1" "slot_room sc ?t = slot_room sc s1" "frag_at ?t = frag_at s1"
    by (simp_all add: frag_len_def shaped_def slot_room_def frag_at_def with_fragment_def fun_eq_iff)
  have "stores sc ?t ?c"
    using s1(2) unfolding stores_def fr by (cases "sl_whole s1") (simp_all add: with_fragment_def)
  have E: "dom ?c = {j. j < frag_total ?t \<and> sl_have ?t ! j}"
    unfolding d(1) using hs(1,3) i tot s1(4) by (auto simp: nth_list_update with_fragment_def)
  have C: "unat (sl_received ?t) = card (dom ?c)"
    unfolding d(1) using rec s1(6) fin d(2) by (simp add: with_fragment_def)
  have "length (sl_have ?t) = frag_total ?t" "length (sl_fragSeq ?t) = frag_total ?t"
    using hs(1,2) s1(4,5) tot by (simp_all add: with_fragment_def)
  with E C \<open>stores sc ?t ?c\<close> have "slot_holds sc ?t ?c" unfolding slot_holds_def by blast
  moreover have "same_object s ?t"
    using s1(3) by (cases s; cases s1) (simp add: same_object_def with_fragment_def)
  moreover have "unat (sl_received ?t) = Suc (unat (sl_received s))" using rec hs(4) s1(6) by (simp add: with_fragment_def)
  ultimately show ?thesis using s1(1,5) by (intro exI [of _ s1]) (simp add: with_fragment_def)
qed

lemma full_slot:
  assumes "slot_holds sc s c" and "\<not> sl_received s < sl_fragTotal s"
  shows "dom c = {..<frag_total s}"
proof (rule card_subset_eq [OF finite_lessThan slot_holds_finite [OF assms(1)]])
  have "card (dom c) \<le> frag_total s"
    using card_mono [OF finite_lessThan slot_holds_finite [OF assms(1)]] by simp
  then show "card (dom c) = card {..<frag_total s}"
    using assms by (simp add: slot_holds_def word_less_nat_alt)
qed

lemma concat_interior:
  assumes "shaped s" and "k \<le> frag_total s - 1"
  shows "concat (map (\<lambda>i. sub_bytes (i * sl_fragSize s) (i * sl_fragSize s + frag_len s i) p) [0..<k]) = take (k * sl_fragSize s) p"
  using assms(2)
proof (induction k)
  case (Suc k)
  then have "Suc k \<noteq> frag_total s" by linarith
  then have "frag_len s k = sl_fragSize s" by (simp add: frag_len_def)
  with Suc show ?case by (simp add: sub_bytes_def take_add [symmetric] add.commute)
qed simp

lemma concat_frags:
  assumes "shaped s" and "0 < frag_total s" and "length p = obj_len s"
  shows "concat (map (\<lambda>i. sub_bytes (i * sl_fragSize s) (i * sl_fragSize s + frag_len s i) p) [0..<frag_total s]) = p"
proof -
  let ?k = "frag_total s - 1"
  have k: "frag_total s = Suc ?k" using assms(2) by simp
  have "?k * sl_fragSize s + frag_len s ?k = obj_len s"
    using assms(1) k by (simp add: frag_len_def shaped_def mult.commute)
  then have "sub_bytes (?k * sl_fragSize s) (?k * sl_fragSize s + frag_len s ?k) p = drop (?k * sl_fragSize s) p"
    using assms(3) by (simp add: sub_bytes_def)
  then show ?thesis
    using concat_interior [OF assms(1), of ?k p] by (subst k) (simp del: One_nat_def)
qed

lemma sub_bytes_drop: "sub_bytes a b (drop r w) = sub_bytes (r + a) (r + b) w"
  by (simp add: sub_bytes_def add.commute)

text \<open>The assembled payload of a full slot.\<close>

lemma assembled:
  assumes h: "slot_holds sc s c" and full: "dom c = {..<frag_total s}" and pos: "0 < frag_total s"
  shows "\<exists>s' w. (if sl_whole s = None then promote sc s else Some s) = Some s' \<and> sl_whole s' = Some w \<and>
    sl_room s' = slot_room sc s \<and> length w = slot_room sc s + obj_len s \<and>
    drop (slot_room sc s) w = concat (map (\<lambda>i. the (c i)) [0..<frag_total s])"
proof -
  have st: "stores sc s c" using h by (simp add: slot_holds_def)
  have ne: "c \<noteq> Map.empty" using full pos by auto
  obtain s' w where s': "(if sl_whole s = None then promote sc s else Some s) = Some s'" "sl_whole s' = Some w"
    "stores sc s' c" "sl_room s' = slot_room sc s" "sl_origPayloadLen s' = sl_origPayloadLen s"
    "sl_fragTotal s' = sl_fragTotal s"
  proof (cases "sl_whole s")
    case None
    from promote_ok [OF st None ne] obtain w where
      "promote sc s = Some (s\<lparr>sl_whole := Some w, sl_room := slot_room sc s, sl_early := []\<rparr>)"
      "stores sc (s\<lparr>sl_whole := Some w, sl_room := slot_room sc s, sl_early := []\<rparr>) c" by blast
    then show ?thesis using None by (intro that [of "s\<lparr>sl_whole := Some w, sl_room := slot_room sc s, sl_early := []\<rparr>" w]) simp_all
  next
    case (Some w)
    then show ?thesis using st by (intro that [of s w]) (simp_all add: stores_def)
  qed
  let ?p = "drop (slot_room sc s) w"
  have sh: "shaped s'" and w: "length w = slot_room sc s + obj_len s" and at: "\<And>i d. c i = Some d \<Longrightarrow> frag_at s' i w = d"
    using s'(2-5) ne by (simp_all add: stores_def)
  have "sub_bytes (i * sl_fragSize s') (i * sl_fragSize s' + frag_len s' i) ?p = the (c i)" if "i < frag_total s" for i
  proof -
    have "i \<in> dom c" using full that by simp
    then obtain d where "c i = Some d" by (auto simp: dom_def)
    with at [OF this] show ?thesis by (simp add: frag_at_def sub_bytes_drop s'(4) add.assoc)
  qed
  then have "map (\<lambda>i. sub_bytes (i * sl_fragSize s') (i * sl_fragSize s' + frag_len s' i) ?p) [0..<frag_total s'] =
      map (\<lambda>i. the (c i)) [0..<frag_total s]" by (simp add: s'(6))
  moreover have "concat (map (\<lambda>i. sub_bytes (i * sl_fragSize s') (i * sl_fragSize s' + frag_len s' i) ?p) [0..<frag_total s']) = ?p"
    by (rule concat_frags [OF sh]) (use pos w s'(5,6) in simp_all)
  ultimately have "?p = concat (map (\<lambda>i. the (c i)) [0..<frag_total s])" by (simp only:)
  then show ?thesis using s'(1,2,4) w by blast
qed

lemma new_slot_holds: "slot_holds sc (new_slot now key ff b) Map.empty"
  by (simp add: slot_holds_def stores_def new_slot_def)

end
