(* ===== verification/Reassembly_Buffer.thy ===== *)
theory Reassembly_Buffer
  imports Reassembly_Slot
begin

text \<open>
  The invariant of the reassembly buffer and what it delivers. \<open>buffer_ok\<close> says that the slot
  table is within its cap, keyed correctly and listed in the eviction order, that every slot is
  well formed and still incomplete, and that the memory of completed objects is a bounded FIFO.
  It is indexed by a partial map from slot keys to the objects sent under them: the slots of
  those objects hold only their bytes.
\<close>

section \<open>Objects and their fragments\<close>

record object =
  ob_txID :: id32
  ob_subtreeID :: id32
  ob_total :: nat
  ob_fragSize :: nat
  ob_payload :: "byte list"
  ob_ver :: byte
  ob_msgType :: byte

text \<open>BRC-130: all fragments but the last have one length, and the last has what is left.\<close>

definition object_ok :: "object \<Rightarrow> bool" where
  "object_ok ob \<longleftrightarrow> 0 < ob_total ob \<and> ob_total ob < 2 ^ 16 \<and> 0 < ob_fragSize ob \<and>
     ob_fragSize ob * (ob_total ob - 1) < length (ob_payload ob) \<and> length (ob_payload ob) < 2 ^ 32 - 1"

definition piece :: "object \<Rightarrow> nat \<Rightarrow> byte list" where
  "piece ob i = (if Suc i = ob_total ob then drop (i * ob_fragSize ob) (ob_payload ob)
     else sub_bytes (i * ob_fragSize ob) (i * ob_fragSize ob + ob_fragSize ob) (ob_payload ob))"

definition fragment_of :: "object \<Rightarrow> FragFrame \<Rightarrow> bool" where
  "fragment_of ob ff \<longleftrightarrow> ff_TxID ff = ob_txID ob \<and> ff_SubtreeID ff = ob_subtreeID ob \<and>
     ff_OrigFrameVer ff = ob_ver ob \<and> ff_MsgType ff = ob_msgType ob \<and>
     ff_FragTotal ff = of_nat (ob_total ob) \<and> unat (ff_FragIndex ff) < ob_total ob \<and>
     ff_OrigPayloadLen ff = of_nat (length (ob_payload ob)) \<and> ff_FragData ff = piece ob (unat (ff_FragIndex ff))"

lemma concat_pieces:
  assumes "object_ok ob"
  shows "concat (map (piece ob) [0..<ob_total ob]) = ob_payload ob"
proof -
  let ?fs = "ob_fragSize ob" and ?k = "ob_total ob - 1" and ?p = "ob_payload ob"
  have k: "ob_total ob = Suc ?k" using assms by (simp add: object_ok_def)
  have "concat (map (piece ob) [0..<j]) = take (j * ?fs) ?p" if "j \<le> ?k" for j
    using that
  proof (induction j)
    case (Suc j)
    then have "Suc j \<noteq> ob_total ob" by linarith
    then have "piece ob j = take ?fs (drop (j * ?fs) ?p)" by (simp add: piece_def sub_bytes_def)
    with Suc show ?case by (simp add: take_add [symmetric] add.commute)
  qed simp
  from this [of ?k] have "concat (map (piece ob) [0..<?k]) = take (?k * ?fs) ?p" by simp
  moreover have "piece ob ?k = drop (?k * ?fs) ?p" using k by (simp add: piece_def)
  ultimately show ?thesis by (subst k) (simp del: One_nat_def)
qed

section \<open>The invariant\<close>

definition of_object :: "object \<Rightarrow> slot \<Rightarrow> (nat \<rightharpoonup> byte list) \<Rightarrow> bool" where
  "of_object ob s c \<longleftrightarrow> sl_txID s = ob_txID ob \<and> sl_subtreeID s = ob_subtreeID ob \<and> sl_origFrameVer s = ob_ver ob \<and>
     sl_msgType s = ob_msgType ob \<and> sl_fragTotal s = of_nat (ob_total ob) \<and>
     sl_origPayloadLen s = of_nat (length (ob_payload ob)) \<and> (\<forall>i d. c i = Some d \<longrightarrow> d = piece ob i)"

definition slot_ok :: "shard_common \<Rightarrow> (id32 \<rightharpoonup> object) \<Rightarrow> dur \<Rightarrow> id32 \<Rightarrow> slot \<Rightarrow> bool" where
  "slot_ok sc obj age k s \<longleftrightarrow> sl_key s = k \<and> sl_received s < sl_fragTotal s \<and>
     sl_deadline s \<le> sl_born s + age \<and>
     (\<exists>c. slot_holds sc s c \<and> (\<forall>ob. obj k = Some ob \<longrightarrow> of_object ob s c))"

abbreviation slot_age :: "'r Buffer \<Rightarrow> dur" where
  "slot_age b \<equiv> max (bf_ttl b) (bf_maxAge b)"

definition memory_ok :: "'r Buffer \<Rightarrow> bool" where
  "memory_ok b \<longleftrightarrow> wf_map (bf_done b) \<and> distinct (bf_doneOrder b) \<and>
     set (bf_doneOrder b) = fst ` set (bf_done b) \<and> length (bf_done b) \<le> bf_maxSlots b"

definition table_ok :: "shard_common \<Rightarrow> (id32 \<rightharpoonup> object) \<Rightarrow> 'r Buffer \<Rightarrow> bool" where
  "table_ok sc obj b \<longleftrightarrow> wf_map (bf_slots b) \<and> length (bf_slots b) \<le> bf_maxSlots b \<and> 0 < bf_maxSlots b \<and>
     fst ` set (bf_slots b) \<subseteq> set (bf_insertOrder b) \<and> list_all (\<lambda>(k, s). slot_ok sc obj (slot_age b) k s) (bf_slots b)"

definition buffer_ok :: "shard_common \<Rightarrow> (id32 \<rightharpoonup> object) \<Rightarrow> 'r Buffer \<Rightarrow> bool" where
  "buffer_ok sc obj b \<longleftrightarrow> table_ok sc obj b \<and> memory_ok b"

text \<open>The settings no operation after construction changes.\<close>

definition same_settings :: "'r Buffer \<Rightarrow> 'r Buffer \<Rightarrow> bool" where
  "same_settings b b' \<longleftrightarrow> b'\<lparr>bf_slots := bf_slots b, bf_lastEvict := bf_lastEvict b, bf_insertOrder := bf_insertOrder b,
     bf_done := bf_done b, bf_doneOrder := bf_doneOrder b\<rparr> = b"

lemma same_settings_refl [simp]: "same_settings b b"
  by (simp add: same_settings_def)

lemma same_settings_trans: "same_settings b b' \<Longrightarrow> same_settings b' b'' \<Longrightarrow> same_settings b b''"
  by (cases b; cases b'; cases b'') (simp add: same_settings_def)

lemma same_settings_sel:
  assumes "same_settings b b'"
  shows "bf_evictEvery b' = bf_evictEvery b" "bf_maxSlots b' = bf_maxSlots b" "bf_ttl b' = bf_ttl b"
    "bf_verifyHash b' = bf_verifyHash b" "bf_hooks b' = bf_hooks b" "bf_repairPending b' = bf_repairPending b"
    "bf_maxAge b' = bf_maxAge b" "bf_onIncomplete b' = bf_onIncomplete b" "bf_groupIdxFn b' = bf_groupIdxFn b"
    "bf_maxObject b' = bf_maxObject b" "bf_maxObjectV9 b' = bf_maxObjectV9 b" "bf_completionTTL b' = bf_completionTTL b"
  using assms by (cases b; cases b'; simp add: same_settings_def)+

lemma same_settings_upd [simp]:
  "same_settings b (b'\<lparr>bf_slots := x\<rparr>) = same_settings b b'" "same_settings b (b'\<lparr>bf_lastEvict := n\<rparr>) = same_settings b b'"
  "same_settings b (b'\<lparr>bf_insertOrder := ks\<rparr>) = same_settings b b'" "same_settings b (b'\<lparr>bf_done := m\<rparr>) = same_settings b b'"
  "same_settings b (b'\<lparr>bf_doneOrder := ks\<rparr>) = same_settings b b'"
  by (cases b; cases b'; simp add: same_settings_def)+

lemma table_ok_slot: "table_ok sc obj b \<Longrightarrow> map_of (bf_slots b) k = Some s \<Longrightarrow> slot_ok sc obj (slot_age b) k s"
  by (auto simp: table_ok_def list_all_iff dest: map_of_SomeD)

lemma table_ok_removeSlot: "table_ok sc obj b \<Longrightarrow> table_ok sc obj (removeSlot k b)"
  using length_del_le [of k "bf_slots b"]
  by (auto simp: table_ok_def removeSlot_def list_all_iff dest!: subsetD [OF set_del_subset])

lemma table_ok_put:
  assumes "table_ok sc obj b" and "slot_ok sc obj (slot_age b) k s" and "k \<in> fst ` set (bf_slots b)"
  shows "table_ok sc obj (b\<lparr>bf_slots := map_put k s (bf_slots b)\<rparr>)"
  using assms by (auto simp: table_ok_def list_all_iff length_put dest!: subsetD [OF set_put_subset])

lemma table_ok_insert:
  assumes "table_ok sc obj b" and "slot_ok sc obj (slot_age b) k s" and "length (bf_slots b) < bf_maxSlots b"
  shows "table_ok sc obj (b\<lparr>bf_slots := map_put k s (bf_slots b), bf_insertOrder := bf_insertOrder b @ [k]\<rparr>)"
  using assms by (auto simp: table_ok_def list_all_iff length_put dest!: subsetD [OF set_put_subset])

lemma table_ok_irrelevant [simp]:
  "table_ok sc obj (b\<lparr>bf_lastEvict := n\<rparr>) = table_ok sc obj b" "table_ok sc obj (b\<lparr>bf_done := m\<rparr>) = table_ok sc obj b"
  "table_ok sc obj (b\<lparr>bf_doneOrder := ks\<rparr>) = table_ok sc obj b"
  by (simp_all add: table_ok_def)

lemma memory_ok_irrelevant [simp]:
  "memory_ok (b\<lparr>bf_lastEvict := n\<rparr>) = memory_ok b" "memory_ok (b\<lparr>bf_slots := m\<rparr>) = memory_ok b"
  "memory_ok (b\<lparr>bf_insertOrder := ks\<rparr>) = memory_ok b" "memory_ok (removeSlot k b) = memory_ok b"
  by (simp_all add: memory_ok_def removeSlot_def)

section \<open>The memory of completed objects\<close>

lemma markDone_fields [simp]:
  "bf_slots (markDone now k b) = bf_slots b" "bf_insertOrder (markDone now k b) = bf_insertOrder b"
  "same_settings b (markDone now k b)" "table_ok sc obj (markDone now k b) = table_ok sc obj b"
  by (simp_all add: markDone_def Let_def table_ok_def)

lemma markDone_ok:
  assumes "memory_ok b" and "0 < bf_maxSlots b"
  shows "memory_ok (markDone now k b)" and "map_of (bf_done (markDone now k b)) k = Some (now + bf_completionTTL b)"
proof -
  show "map_of (bf_done (markDone now k b)) k = Some (now + bf_completionTTL b)" by (simp add: markDone_def Let_def)
  show "memory_ok (markDone now k b)"
  proof (cases "map_of (bf_done b) k")
    case (Some ex)
    then have "k \<in> fst ` set (bf_done b)" by (rule map_of_in_keys)
    then show ?thesis using assms Some by (auto simp: memory_ok_def markDone_def Let_def length_put)
  next
    case None
    then have k: "k \<notin> fst ` set (bf_done b)" by (simp add: map_of_None_iff)
    show ?thesis
    proof (cases "bf_maxSlots b \<le> length (bf_done b)")
      case True
      then obtain d ds where d: "bf_doneOrder b = d # ds" using assms
        by (cases "bf_doneOrder b") (auto simp: memory_ok_def)
      then have "d \<in> fst ` set (bf_done b)" using assms by (auto simp: memory_ok_def)
      then have "Suc (length (map_del d (bf_done b))) = length (bf_done b)" using assms by (simp add: memory_ok_def length_del)
      then show ?thesis using assms True d k None by (auto simp: memory_ok_def markDone_def Let_def length_put)
    next
      case False
      then show ?thesis using assms k None by (auto simp: memory_ok_def markDone_def Let_def length_put)
    qed
  qed
qed

lemma sweep_done_loop_eq:
  assumes "wf_map m" and "distinct ks"
  shows "sweep_done_loop now ks m =
    (filter (\<lambda>k. case map_of m k of None \<Rightarrow> False | Some ex \<Rightarrow> now \<le> ex) ks,
     filter (\<lambda>(k, ex). \<not> (k \<in> set ks \<and> now > ex)) m)"
  using assms
proof (induction ks arbitrary: m)
  case (Cons k ks)
  show ?case
  proof (cases "map_of m k")
    case None
    then have "k \<notin> fst ` set m" by (simp add: map_of_None_iff)
    then have "filter (\<lambda>(j, ex). \<not> (j \<in> set (k # ks) \<and> now > ex)) m = filter (\<lambda>(j, ex). \<not> (j \<in> set ks \<and> now > ex)) m"
      by (intro filter_cong) force+
    then show ?thesis using None Cons by simp
  next
    case (Some ex)
    have kex: "(k, ex) \<in> set m" using Some by (rule map_of_SomeD)
    have uniq: "e = ex" if "(k, e) \<in> set m" for e
      using that kex Cons.prems(1) by (metis eq_key_imp_eq_value)
    show ?thesis
    proof (cases "now > ex")
      case True
      have "filter (\<lambda>(j, e). \<not> (j \<in> set ks \<and> now > e)) (map_del k m) = filter (\<lambda>(j, e). \<not> (j \<in> set (k # ks) \<and> now > e)) m"
        unfolding AList.delete_eq filter_filter using True uniq by (intro filter_cong) auto
      moreover have "filter (\<lambda>j. case map_of (map_del k m) j of None \<Rightarrow> False | Some e \<Rightarrow> now \<le> e) ks =
          filter (\<lambda>j. case map_of m j of None \<Rightarrow> False | Some e \<Rightarrow> now \<le> e) ks"
        using Cons.prems(2) by (intro filter_cong) auto
      ultimately show ?thesis using Cons.IH [OF wf_map_del [OF Cons.prems(1)]] Cons.prems(2) Some True by simp
    next
      case False
      have "filter (\<lambda>(j, e). \<not> (j \<in> set (k # ks) \<and> now > e)) m = filter (\<lambda>(j, e). \<not> (j \<in> set ks \<and> now > e)) m"
        using False uniq by (intro filter_cong) auto
      then show ?thesis using Cons.IH [OF Cons.prems(1)] Cons.prems(2) Some False by simp
    qed
  qed
qed simp

lemma sweepDone_fields [simp]:
  "bf_slots (sweepDone now b) = bf_slots b" "bf_insertOrder (sweepDone now b) = bf_insertOrder b"
  "same_settings b (sweepDone now b)" "table_ok sc obj (sweepDone now b) = table_ok sc obj b"
  "bf_lastEvict (sweepDone now b) = bf_lastEvict b"
  by (simp_all add: sweepDone_def Let_def split_beta)

lemma sweepDone_done:
  assumes "memory_ok b"
  shows "bf_done (sweepDone now b) = filter (\<lambda>(k, ex). now \<le> ex) (bf_done b)"
    and "bf_doneOrder (sweepDone now b) = filter (\<lambda>k. case map_of (bf_done b) k of None \<Rightarrow> False | Some ex \<Rightarrow> now \<le> ex) (bf_doneOrder b)"
proof -
  have w: "wf_map (bf_done b)" "distinct (bf_doneOrder b)" and k: "set (bf_doneOrder b) = fst ` set (bf_done b)"
    using assms by (simp_all add: memory_ok_def)
  have "filter (\<lambda>(k, ex). \<not> (k \<in> set (bf_doneOrder b) \<and> now > ex)) (bf_done b) = filter (\<lambda>(k, ex). now \<le> ex) (bf_done b)"
    unfolding k by (intro filter_cong) force+
  then show "bf_done (sweepDone now b) = filter (\<lambda>(k, ex). now \<le> ex) (bf_done b)"
    and "bf_doneOrder (sweepDone now b) = filter (\<lambda>k. case map_of (bf_done b) k of None \<Rightarrow> False | Some ex \<Rightarrow> now \<le> ex) (bf_doneOrder b)"
    using k by (simp_all add: sweepDone_def sweep_done_loop_eq [OF w])
qed

lemma sweepDone_lookup:
  "memory_ok b \<Longrightarrow> map_of (bf_done (sweepDone now b)) k =
     (case map_of (bf_done b) k of None \<Rightarrow> None | Some ex \<Rightarrow> if now \<le> ex then Some ex else None)"
  by (simp add: sweepDone_done map_of_filter memory_ok_def split: option.split)

lemma sweepDone_ok:
  assumes "memory_ok b"
  shows "memory_ok (sweepDone now b)"
proof -
  have w: "wf_map (bf_done b)" and k: "set (bf_doneOrder b) = fst ` set (bf_done b)" using assms by (simp_all add: memory_ok_def)
  have "set (filter (\<lambda>k. case map_of (bf_done b) k of None \<Rightarrow> False | Some ex \<Rightarrow> now \<le> ex) (bf_doneOrder b)) =
      fst ` set (filter (\<lambda>(k, ex). now \<le> ex) (bf_done b))"
  proof (rule set_eqI)
    fix x
    show "x \<in> set (filter (\<lambda>k. case map_of (bf_done b) k of None \<Rightarrow> False | Some ex \<Rightarrow> now \<le> ex) (bf_doneOrder b)) \<longleftrightarrow>
      x \<in> fst ` set (filter (\<lambda>(k, ex). now \<le> ex) (bf_done b))"
      using map_of_filter [OF w, of "\<lambda>(k, ex). now \<le> ex" x] k
        map_of_None_iff [of "filter (\<lambda>(k, ex). now \<le> ex) (bf_done b)" x] map_of_None_iff [of "bf_done b" x]
      by (cases "map_of (bf_done b) x") (auto split: if_splits)
  qed
  moreover have "length (filter (\<lambda>(k, ex). now \<le> ex) (bf_done b)) \<le> bf_maxSlots b"
    by (rule order_trans [OF length_filter_le]) (use assms in \<open>simp add: memory_ok_def\<close>)
  ultimately show ?thesis
    using assms same_settings_sel(2) [OF sweepDone_fields(3), of now b]
    by (simp add: memory_ok_def sweepDone_done [OF assms])
qed

section \<open>Expiry\<close>

definition hook_total :: "('r \<Rightarrow> bool) \<Rightarrow> 'r Buffer \<Rightarrow> bool" where
  "hook_total I b \<longleftrightarrow> (\<forall>f hk g sid ms r. bf_onIncomplete b = Some f \<longrightarrow> I r \<longrightarrow> (\<exists>r'. f hk g sid ms r = Some r' \<and> I r'))"

lemma hook_total_same: "same_settings b b' \<Longrightarrow> hook_total I b' = hook_total I b"
  using same_settings_sel(8) [of b b'] by (simp add: hook_total_def)

fun delivered :: "event \<Rightarrow> (id32 \<times> byte list) option" where
  "delivered (CompleteV2 p f) = Some (fr_TxID f, p)"
| "delivered (CompleteBlock p f) = Some (bk_ContentID f, p)"
| "delivered (CompleteSubtree p f) = Some (sd_SubtreeID f, p)"
| "delivered (CompleteBEEF p f) = Some (be_ContentID f, p)"
| "delivered (CompleteBEEFFrame w f) = Some (be_ContentID f, be_Payload f)"
| "delivered _ = None"

definition quiet :: "event list \<Rightarrow> bool" where
  "quiet es \<longleftrightarrow> list_all (\<lambda>ev. delivered ev = None) es"

lemma quiet_simps [simp]: "quiet []" "quiet (es @ es') \<longleftrightarrow> quiet es \<and> quiet es'"
  by (simp_all add: quiet_def)

lemma quiet_fires [simp]: "delivered ev = None \<Longrightarrow> quiet (fires b ev)"
  by (simp add: quiet_def fires_def)

lemma missingSeqNums_total: "slot_ok sc obj age k s \<Longrightarrow> \<exists>ms. missingSeqNums s = Some ms"
  by (auto simp: slot_ok_def missingSeqNums_def dest: less_imp_not_less)

text \<open>The fields of a slot that the repair wait changes.\<close>

definition held_as :: "slot \<Rightarrow> slot \<Rightarrow> bool" where
  "held_as s s' \<longleftrightarrow> s'\<lparr>sl_deadline := sl_deadline s, sl_requested := sl_requested s, sl_extended := sl_extended s\<rparr> = s"

lemma held_as_upd [simp]:
  "held_as s s" "held_as s (s'\<lparr>sl_deadline := d\<rparr>) = held_as s s'" "held_as s (s'\<lparr>sl_requested := q\<rparr>) = held_as s s'"
  "held_as s (s'\<lparr>sl_extended := x\<rparr>) = held_as s s'"
  by (simp_all add: held_as_def)

lemma held_as_sel:
  assumes "held_as s s'"
  shows "sl_key s' = sl_key s" "sl_received s' = sl_received s" "sl_fragTotal s' = sl_fragTotal s" "sl_born s' = sl_born s"
    "slot_holds sc s' c = slot_holds sc s c" "of_object ob s' c = of_object ob s c"
    "missingSeqNums s' = missingSeqNums s" "sl_hashKey s' = sl_hashKey s"
proof -
  obtain d q x where s': "s' = s\<lparr>sl_deadline := d, sl_requested := q, sl_extended := x\<rparr>"
  proof
    show "s' = s\<lparr>sl_deadline := sl_deadline s', sl_requested := sl_requested s', sl_extended := sl_extended s'\<rparr>"
      using assms by (cases s; cases s') (simp add: held_as_def)
  qed
  then have fr: "frag_len s' = frag_len s" "shaped s' = shaped s" "slot_room sc s' = slot_room sc s" "frag_at s' = frag_at s"
    by (simp_all add: frag_len_def shaped_def slot_room_def frag_at_def fun_eq_iff)
  have "stores sc s' c = stores sc s c" unfolding stores_def fr by (cases "sl_whole s") (simp_all add: s')
  then show "slot_holds sc s' c = slot_holds sc s c" by (simp add: slot_holds_def s')
  show "of_object ob s' c = of_object ob s c" by (simp add: of_object_def s')
  have "missing_at s' = missing_at s" by (rule ext) (simp add: missing_at_def s' Let_def split: option.split)
  then show "missingSeqNums s' = missingSeqNums s" by (simp add: missingSeqNums_def s')
  show "sl_key s' = sl_key s" "sl_received s' = sl_received s" "sl_fragTotal s' = sl_fragTotal s" "sl_born s' = sl_born s"
    "sl_hashKey s' = sl_hashKey s" by (simp_all add: s')
qed

lemma slot_ok_held:
  assumes "slot_ok sc obj age k s" and "held_as s s'" and "sl_deadline s' \<le> sl_born s + age"
  shows "slot_ok sc obj age k s'"
  using assms held_as_sel [OF assms(2)] by (simp add: slot_ok_def)

text \<open>The request a slot makes at its first expiry.\<close>

definition hold_request :: "gtime \<Rightarrow> slot \<Rightarrow> u64 list \<Rightarrow> 'r Buffer \<Rightarrow> 'r \<Rightarrow> (slot \<times> 'r) option" where
  "hold_request now s ms b r =
     (if \<not> sl_requested s \<and> now < sl_born s + bf_maxAge b
      then (case bf_onIncomplete b of
              None \<Rightarrow> Some (s\<lparr>sl_requested := True\<rparr>, r)
            | Some f \<Rightarrow> do { r' \<leftarrow> f (sl_hashKey s) (sl_groupIdx s) (sl_subtreeID s) ms r;
                           Some (s\<lparr>sl_requested := True\<rparr>, r') })
      else Some (s, r))"

lemma holdForRepair_request:
  assumes "missingSeqNums s = Some ms" and "ms \<noteq> []"
  shows "holdForRepair pend now s b r =
    do { (s1, r1) \<leftarrow> hold_request now s ms b r;
         if \<not> pend (sl_hashKey s1) ms r1 then Some (Some AbandonExpired, s1, r1, [])
         else if \<not> now < sl_born s + bf_maxAge b then Some (Some AbandonRepairTimeout, s1, r1, [])
         else Some (None, s1\<lparr>sl_deadline := min (now + bf_ttl b) (sl_born s + bf_maxAge b), sl_extended := True\<rparr>, r1,
                    if sl_extended s1 then [] else fires b Extended) }"
proof -
  have raw: "holdForRepair pend now s b r =
    do { (s1, r1) \<leftarrow> hold_request now s ms b r;
         let pending = pend (sl_hashKey s1) ms r1;
         if \<not> now < sl_born s + bf_maxAge b \<and> pending then Some (Some AbandonRepairTimeout, s1, r1, [])
         else if \<not> pending then Some (Some AbandonExpired, s1, r1, [])
         else let s' = s1\<lparr>sl_deadline := (if now + bf_ttl b > sl_born s + bf_maxAge b then sl_born s + bf_maxAge b else now + bf_ttl b)\<rparr>
           in if sl_extended s' then Some (None, s', r1, [])
              else Some (None, s'\<lparr>sl_extended := True\<rparr>, r1, fires b Extended) }"
    using assms unfolding holdForRepair_def hold_request_def Let_def by simp
  have m: "(if now + bf_ttl b > l then l else now + bf_ttl b) = min (now + bf_ttl b) l" for l by (simp add: min_def)
  show ?thesis
  proof (cases "hold_request now s ms b r")
    case (Some sr)
    obtain s1 r1 where sr: "sr = (s1, r1)" by force
    have "s1\<lparr>sl_deadline := d, sl_extended := True\<rparr> = s1\<lparr>sl_deadline := d\<rparr>" if "sl_extended s1" for d
      using that by (cases s1) simp
    then show ?thesis unfolding raw m Let_def Some sr by simp
  qed (simp add: raw)
qed

lemma hold_request_total:
  assumes "I r" and "hook_total I b"
  shows "\<exists>s1 r1. hold_request now s ms b r = Some (s1, r1) \<and> I r1 \<and> held_as s s1 \<and> sl_deadline s1 = sl_deadline s \<and>
    sl_extended s1 = sl_extended s"
proof (cases "bf_onIncomplete b")
  case None
  then show ?thesis using assms(1) by (simp add: hold_request_def)
next
  case (Some f)
  obtain r' where "f (sl_hashKey s) (sl_groupIdx s) (sl_subtreeID s) ms r = Some r'" "I r'"
    using assms Some unfolding hook_total_def by blast
  then show ?thesis using assms(1) Some by (simp add: hold_request_def)
qed

lemma holdForRepair_ok:
  assumes ok: "slot_ok sc obj (slot_age b) k s" and "I r" and "hook_total I b"
  shows "\<exists>reason s' r' es. holdForRepair pend now s b r = Some (reason, s', r', es) \<and> I r' \<and> held_as s s' \<and> quiet es \<and>
    sl_deadline s' \<le> sl_born s + slot_age b"
proof -
  obtain ms where ms: "missingSeqNums s = Some ms" using missingSeqNums_total [OF ok] by blast
  have dl: "sl_deadline s \<le> sl_born s + slot_age b" using ok by (simp add: slot_ok_def)
  show ?thesis
  proof (cases "ms = []")
    case True
    then show ?thesis using ms assms(2) dl by (simp add: holdForRepair_def)
  next
    case False
    obtain s1 r1 where s1: "hold_request now s ms b r = Some (s1, r1)" "I r1" "held_as s s1" "sl_deadline s1 = sl_deadline s"
      using hold_request_total [where now = now and s = s and ms = ms, OF assms(2,3)] by blast
    moreover have "min (now + bf_ttl b) (sl_born s + bf_maxAge b) \<le> sl_born s + slot_age b" by linarith
    ultimately show ?thesis using dl by (simp add: holdForRepair_request [OF ms False])
  qed
qed

lemma notifyIncomplete_ok:
  assumes "slot_ok sc obj age k s" and "I r" and "hook_total I b"
  shows "\<exists>r'. notifyIncomplete b s r = Some r' \<and> I r'"
proof (cases "bf_onIncomplete b")
  case None
  then show ?thesis using assms(2) by (simp add: notifyIncomplete_def)
next
  case (Some f)
  obtain ms where ms: "missingSeqNums s = Some ms" using missingSeqNums_total [OF assms(1)] by blast
  have "\<exists>r'. f (sl_hashKey s) (sl_groupIdx s) (sl_subtreeID s) ms r = Some r' \<and> I r'"
    using assms(2,3) Some unfolding hook_total_def by blast
  then show ?thesis using ms Some assms(2) by (simp add: notifyIncomplete_def)
qed

lemma expire_one_ok:
  assumes ok: "table_ok sc obj b" and "I r" and "hook_total I b"
  shows "\<exists>b' r' es. expire_one now k b r = Some (b', r', es) \<and> table_ok sc obj b' \<and> I r' \<and> same_settings b b' \<and> quiet es \<and>
    bf_insertOrder b' = bf_insertOrder b \<and> bf_done b' = bf_done b \<and> bf_doneOrder b' = bf_doneOrder b \<and>
    bf_lastEvict b' = bf_lastEvict b"
proof (cases "map_of (bf_slots b) k")
  case None
  then show ?thesis using assms by (simp add: expire_one_def)
next
  case (Some s)
  have sok: "slot_ok sc obj (slot_age b) k s" by (rule table_ok_slot [OF ok Some])
  have rem: "table_ok sc obj (removeSlot k b)" by (rule table_ok_removeSlot [OF ok])
  show ?thesis
  proof (cases "sl_deadline s < now")
    case False
    then show ?thesis using assms Some by (simp add: expire_one_def)
  next
    case True
    show ?thesis
    proof (cases "bf_repairPending b")
      case None
      obtain r' where "notifyIncomplete b s r = Some r'" "I r'" using notifyIncomplete_ok [OF sok assms(2,3)] by blast
      then show ?thesis using Some True None rem by (simp add: expire_one_def abandon_def) (simp add: removeSlot_def)
    next
      case (Some pend)
      obtain reason s' r' es where h: "holdForRepair pend now s b r = Some (reason, s', r', es)" "I r'" "held_as s s'"
        "quiet es" "sl_deadline s' \<le> sl_born s + slot_age b" using holdForRepair_ok [OF sok assms(2,3)] by blast
      have "table_ok sc obj (b\<lparr>bf_slots := map_put k s' (bf_slots b)\<rparr>)"
        by (rule table_ok_put [OF ok slot_ok_held [OF sok h(3,5)]]) (rule map_of_in_keys [OF \<open>map_of (bf_slots b) k = Some s\<close>])
      with table_ok_removeSlot [OF this, of k] show ?thesis
        using \<open>map_of (bf_slots b) k = Some s\<close> True Some h
        by (cases reason) (simp_all add: expire_one_def abandon_def Let_def, simp_all add: removeSlot_def)
    qed
  qed
qed

lemma expire_loop_ok:
  assumes "table_ok sc obj b" and "I r" and "hook_total I b"
  shows "\<exists>b' r' es. expire_loop now ks b r = Some (b', r', es) \<and> table_ok sc obj b' \<and> I r' \<and> same_settings b b' \<and> quiet es \<and>
    bf_insertOrder b' = bf_insertOrder b \<and> bf_done b' = bf_done b \<and> bf_doneOrder b' = bf_doneOrder b \<and>
    bf_lastEvict b' = bf_lastEvict b"
  using assms
proof (induction ks arbitrary: b r)
  case (Cons k ks)
  obtain b1 r1 es1 where 1: "expire_one now k b r = Some (b1, r1, es1)" "table_ok sc obj b1" "I r1" "same_settings b b1" "quiet es1"
    "bf_insertOrder b1 = bf_insertOrder b" "bf_done b1 = bf_done b" "bf_doneOrder b1 = bf_doneOrder b" "bf_lastEvict b1 = bf_lastEvict b"
    using expire_one_ok [OF Cons.prems] by blast
  have "hook_total I b1" using Cons.prems(3) hook_total_same [OF 1(4)] by simp
  from Cons.IH [OF 1(2,3) this] obtain b2 r2 es2 where 2: "expire_loop now ks b1 r1 = Some (b2, r2, es2)" "table_ok sc obj b2" "I r2"
    "same_settings b1 b2" "quiet es2" "bf_insertOrder b2 = bf_insertOrder b1" "bf_done b2 = bf_done b1"
    "bf_doneOrder b2 = bf_doneOrder b1" "bf_lastEvict b2 = bf_lastEvict b1" by blast
  then show ?case using 1 same_settings_trans [OF 1(4) 2(4)] by simp
qed simp

lemma evictExpired_ok:
  assumes "buffer_ok sc obj b" and "I r" and "hook_total I b"
  shows "\<exists>b' r' es. evictExpired now b r = Some (b', r', es) \<and> buffer_ok sc obj b' \<and> I r' \<and> same_settings b b' \<and> quiet es \<and>
    bf_done b' = bf_done (sweepDone now b)"
proof -
  let ?b = "sweepDone now b"
  have t: "table_ok sc obj ?b" and m: "memory_ok ?b" using assms(1) sweepDone_ok by (auto simp: buffer_ok_def)
  have h: "hook_total I ?b" using assms(3) hook_total_same [OF sweepDone_fields(3)] by blast
  obtain b1 r1 es where 1: "expire_loop now (bf_insertOrder ?b) ?b r = Some (b1, r1, es)" "table_ok sc obj b1" "I r1"
    "same_settings ?b b1" "quiet es" "bf_insertOrder b1 = bf_insertOrder ?b" "bf_done b1 = bf_done ?b" "bf_doneOrder b1 = bf_doneOrder ?b"
    using expire_loop_ok [OF t assms(2) h] by blast
  let ?b' = "b1\<lparr>bf_insertOrder := filter (\<lambda>k. map_of (bf_slots b1) k \<noteq> None) (bf_insertOrder b1)\<rparr>"
  have "table_ok sc obj ?b'"
    using 1(2) by (auto simp: table_ok_def map_of_None_iff)
  moreover have "memory_ok ?b'" using m 1(7,8) same_settings_sel(2) [OF 1(4)] by (simp add: memory_ok_def)
  ultimately show ?thesis
    using 1 same_settings_trans [OF sweepDone_fields(3) 1(4)] by (simp add: evictExpired_def buffer_ok_def)
qed

lemma lazy_evict_ok:
  assumes "buffer_ok sc obj b" and "I r" and "hook_total I b"
  shows "\<exists>b' r' es. lazy_evict now b r = Some (b', r', es) \<and> buffer_ok sc obj b' \<and> I r' \<and> same_settings b b' \<and> quiet es \<and>
    (bf_done b' = bf_done b \<or> bf_done b' = bf_done (sweepDone now b))"
proof -
  obtain b' r' es where "evictExpired now b r = Some (b', r', es)" "buffer_ok sc obj b'" "I r'" "same_settings b b'" "quiet es"
    "bf_done b' = bf_done (sweepDone now b)" using evictExpired_ok [OF assms] by blast
  then show ?thesis using assms by (simp add: lazy_evict_def buffer_ok_def)
qed

section \<open>Capacity\<close>

lemma first_live_None: "first_live m ks = None \<Longrightarrow> k \<in> set ks \<Longrightarrow> map_of m k = None"
  by (induction ks) (auto split: if_splits option.splits)

lemma first_live_Some: "first_live m ks = Some (pre, k, post) \<Longrightarrow> ks = pre @ k # post \<and> map_of m k \<noteq> None"
  by (induction ks arbitrary: pre) (auto split: if_splits option.splits)

lemma evictOldest_ok:
  assumes "buffer_ok sc obj b" and "bf_maxSlots b \<le> length (bf_slots b)" and "evictOldest b = (b', es)"
  shows "buffer_ok sc obj b' \<and> length (bf_slots b') < bf_maxSlots b \<and> same_settings b b' \<and> quiet es \<and>
    bf_done b' = bf_done b"
proof -
  have t: "table_ok sc obj b" and m: "memory_ok b" using assms(1) by (simp_all add: buffer_ok_def)
  have "bf_slots b \<noteq> []" using assms(2) t by (auto simp: table_ok_def)
  then obtain k s ps where ks: "bf_slots b = (k, s) # ps" by (cases "bf_slots b") auto
  have "k \<in> set (bf_insertOrder b)" using t ks by (auto simp: table_ok_def)
  then obtain pre j post where j: "first_live (bf_slots b) (bf_insertOrder b) = Some (pre, j, post)"
    using first_live_None [of "bf_slots b" "bf_insertOrder b" k] ks
    by (cases "first_live (bf_slots b) (bf_insertOrder b)") auto
  from first_live_Some [OF j] have o: "bf_insertOrder b = pre @ j # post" and jj: "j \<in> fst ` set (bf_slots b)"
    by (auto simp: map_of_None_iff)
  have b': "b' = (removeSlot j b)\<lparr>bf_insertOrder := pre @ post\<rparr>" "es = fires b Abandoned @ fires b (AbandonedReason AbandonCapacity)"
    using assms(3) j by (simp_all add: evictOldest_def abandon_def)
  have len: "Suc (length (map_del j (bf_slots b))) = length (bf_slots b)" using t jj by (simp add: table_ok_def length_del)
  have "fst ` set (map_del j (bf_slots b)) \<subseteq> set (pre @ post)"
    using t o by (auto simp: table_ok_def)
  with table_ok_removeSlot [OF t, of j] have "table_ok sc obj b'" by (simp add: table_ok_def b' removeSlot_def)
  then show ?thesis using len t m b' by (simp add: buffer_ok_def table_ok_def removeSlot_def memory_ok_def)
qed

section \<open>Completion\<close>

definition delivers :: "id32 \<Rightarrow> byte list \<Rightarrow> event list \<Rightarrow> bool" where
  "delivers i p es \<longleftrightarrow> list_all (\<lambda>ev. delivered ev = None \<or> delivered ev = Some (i, p)) es"

lemma delivers_simps [simp]: "delivers i p []" "delivers i p (es @ es') \<longleftrightarrow> delivers i p es \<and> delivers i p es'"
  by (simp_all add: delivers_def)

lemma quiet_delivers: "quiet es \<Longrightarrow> delivers i p es"
  by (auto simp: quiet_def delivers_def list_all_iff)

lemma delivers_fires: "delivered ev = None \<or> delivered ev = Some (i, p) \<Longrightarrow> delivers i p (fires b ev)"
  by (simp add: delivers_def fires_def)

lemma dispatch_delivers: "delivers (sl_txID s) payload (dispatch_object sc s whole payload b)"
  by (auto simp: dispatch_object_def Let_def split_beta intro!: delivers_fires)

lemma complete_ok:
  assumes "slot_holds sc s c" and "dom c = {..<frag_total s}" and "0 < frag_total s"
  shows "\<exists>w es. complete sc now s b = Some (removeSlot (sl_key s) (markDone now (sl_key s) b), es) \<and>
    delivers (sl_txID s) (concat (map (\<lambda>i. the (c i)) [0..<frag_total s])) es \<and>
    (\<exists>late. quiet late \<and> es = late @ dispatch_object sc s w (concat (map (\<lambda>i. the (c i)) [0..<frag_total s]))
       (removeSlot (sl_key s) (markDone now (sl_key s) b)))"
proof -
  let ?p = "concat (map (\<lambda>i. the (c i)) [0..<frag_total s])" and ?b = "removeSlot (sl_key s) (markDone now (sl_key s) b)"
  let ?late = "if sl_extended s then fires (markDone now (sl_key s) b) LateDone else []"
  from assembled [OF assms] obtain s' w where "(if sl_whole s = None then promote sc s else Some s) = Some s'"
    "sl_whole s' = Some w" "drop (sl_room s') w = ?p" by auto
  then have "complete sc now s b = Some (?b, ?late @ dispatch_object sc s w ?p ?b)"
    by (simp add: complete_def Let_def)
  moreover have "quiet ?late" by simp
  ultimately show ?thesis using dispatch_delivers [of s ?p sc w ?b] quiet_delivers by (intro exI [of _ w]) auto
qed

section \<open>One fragment\<close>

definition genuine :: "shard_common \<Rightarrow> (id32 \<rightharpoonup> object) \<Rightarrow> FragFrame \<Rightarrow> bool" where
  "genuine sc obj ff \<longleftrightarrow> (\<forall>ob. obj (slotKey sc ff) = Some ob \<longrightarrow> object_ok ob \<and> fragment_of ob ff)"

text \<open>What a fragment of a known object lets the buffer deliver.\<close>

definition faithful :: "(id32 \<rightharpoonup> object) \<Rightarrow> id32 \<Rightarrow> event list \<Rightarrow> bool" where
  "faithful obj k es \<longleftrightarrow> (\<forall>ob. obj k = Some ob \<longrightarrow> delivers (ob_txID ob) (ob_payload ob) es)"

lemma faithful_simps [simp]: "faithful obj k (es @ es') \<longleftrightarrow> faithful obj k es \<and> faithful obj k es'"
  by (auto simp: faithful_def)

lemma quiet_faithful: "quiet es \<Longrightarrow> faithful obj k es"
  by (simp add: faithful_def quiet_delivers)

lemma accept_cases:
  assumes ok: "slot_holds sc s c"
  obtains (ignore) "accept sc now ff s b = Some (b, [])"
      "ff_FragTotal ff \<noteq> sl_fragTotal s \<or> sl_fragTotal s \<le> ff_FragIndex ff \<or> c (unat (ff_FragIndex ff)) \<noteq> None"
  | (bad) "accept sc now ff s b = Some (removeSlot (sl_key s) b, fires (removeSlot (sl_key s) b) BadFragment)"
      "unat (ff_FragIndex ff) < frag_total s" "c (unat (ff_FragIndex ff)) = None" "ff_FragTotal ff = sl_fragTotal s" "checkFragLen s ff = None"
  | (partial) s2 where "accept sc now ff s b = Some (b\<lparr>bf_slots := map_put (sl_key s) s2 (bf_slots b)\<rparr>, [])"
      "slot_holds sc s2 (c(unat (ff_FragIndex ff) \<mapsto> ff_FragData ff))" "same_object s s2" "sl_received s2 < sl_fragTotal s2"
      "unat (ff_FragIndex ff) < frag_total s" "c (unat (ff_FragIndex ff)) = None" "ff_FragTotal ff = sl_fragTotal s"
  | (full) s2 where
      "accept sc now ff s b = complete sc now s2 (b\<lparr>bf_slots := map_put (sl_key s) s2 (bf_slots b)\<rparr>)"
      "slot_holds sc s2 (c(unat (ff_FragIndex ff) \<mapsto> ff_FragData ff))" "same_object s s2" "dom (c(unat (ff_FragIndex ff) \<mapsto> ff_FragData ff)) = {..<frag_total s2}"
      "unat (ff_FragIndex ff) < frag_total s" "c (unat (ff_FragIndex ff)) = None" "ff_FragTotal ff = sl_fragTotal s"
proof (cases "ff_FragTotal ff \<noteq> sl_fragTotal s \<or> sl_fragTotal s \<le> ff_FragIndex ff \<or> c (unat (ff_FragIndex ff)) \<noteq> None")
  case True
  have "sl_have s ! unat (ff_FragIndex ff)" if "\<not> sl_fragTotal s \<le> ff_FragIndex ff" "c (unat (ff_FragIndex ff)) \<noteq> None"
    using slot_holds_have [OF ok, of "unat (ff_FragIndex ff)"] that by (simp add: word_le_nat_alt)
  then have "accept sc now ff s b = Some (b, [])" using True unfolding accept_def by (auto simp: Let_def)
  then show thesis using True by (rule ignore)
next
  case False
  then have i: "unat (ff_FragIndex ff) < frag_total s" and new: "c (unat (ff_FragIndex ff)) = None" and tot: "ff_FragTotal ff = sl_fragTotal s"
    by (auto simp: word_le_nat_alt)
  have nh: "\<not> sl_have s ! unat (ff_FragIndex ff)" using slot_holds_have [OF ok i] new by simp
  show thesis
  proof (cases "checkFragLen s ff")
    case None
    then show thesis using False nh i new tot by (intro bad) (simp_all add: accept_def Let_def)
  next
    case (Some fs)
    then have "fits s ff fs" using checkFragLen_iff [of ff s fs] i by simp
    from store_fragment [OF ok this i nh] obtain s1 where s1:
      "store sc (ff_FragIndex ff) (ff_FragData ff) (s\<lparr>sl_fragSize := fs\<rparr>) = Some s1"
      "slot_holds sc (with_fragment ff s1) (c(unat (ff_FragIndex ff) \<mapsto> ff_FragData ff))" "same_object s (with_fragment ff s1)"
      by blast
    have acc: "accept sc now ff s b =
        (let b' = b\<lparr>bf_slots := map_put (sl_key s) (with_fragment ff s1) (bf_slots b)\<rparr>
         in if sl_received (with_fragment ff s1) < sl_fragTotal (with_fragment ff s1) then Some (b', [])
            else complete sc now (with_fragment ff s1) b')"
      using False nh Some s1(1) by (simp add: accept_def with_fragment_def Let_def)
    show thesis
    proof (cases "sl_received (with_fragment ff s1) < sl_fragTotal (with_fragment ff s1)")
      case True
      then show thesis using acc s1 i new tot by (intro partial) (simp_all add: Let_def)
    next
      case False
      then show thesis using acc s1 i new tot full_slot [OF s1(2) False] by (intro full) (simp_all add: Let_def)
    qed
  qed
qed

lemma of_object_step:
  assumes "of_object ob s c" and "fragment_of ob ff" and "same_object s s2"
  shows "of_object ob s2 (c(unat (ff_FragIndex ff) \<mapsto> ff_FragData ff))"
  using assms same_object_sel [OF assms(3)] by (simp add: of_object_def fragment_of_def)

lemma of_object_payload:
  assumes "of_object ob s c" and "object_ok ob" and "dom c = {..<frag_total s}"
  shows "concat (map (\<lambda>i. the (c i)) [0..<frag_total s]) = ob_payload ob"
proof -
  have t: "frag_total s = ob_total ob" using assms(1,2) by (simp add: of_object_def object_ok_def unat_of_nat)
  have "the (c i) = piece ob i" if "i < frag_total s" for i
  proof -
    have "i \<in> dom c" using that assms(3) by simp
    then show ?thesis using assms(1) by (auto simp: of_object_def)
  qed
  then have "map (\<lambda>i. the (c i)) [0..<frag_total s] = map (piece ob) [0..<ob_total ob]" using t by simp
  then show ?thesis using concat_pieces [OF assms(2)] by simp
qed

lemma accept_ok:
  assumes ok: "buffer_ok sc obj b" and k: "map_of (bf_slots b) (slotKey sc ff) = Some s" and gen: "genuine sc obj ff"
  shows "\<exists>b' es. accept sc now ff s b = Some (b', es) \<and> buffer_ok sc obj b' \<and> same_settings b b' \<and>
    faithful obj (slotKey sc ff) es"
proof -
  let ?k = "slotKey sc ff" and ?i = "unat (ff_FragIndex ff)"
  have t: "table_ok sc obj b" and m: "memory_ok b" using ok by (simp_all add: buffer_ok_def)
  have sok: "slot_ok sc obj (slot_age b) ?k s" by (rule table_ok_slot [OF t k])
  then obtain c where c: "slot_holds sc s c" and ob: "\<And>ob. obj ?k = Some ob \<Longrightarrow> of_object ob s c" and key: "sl_key s = ?k"
    and dl: "sl_deadline s \<le> sl_born s + slot_age b" by (auto simp: slot_ok_def)
  have step: "of_object ob s2 (c(?i \<mapsto> ff_FragData ff)) \<and> object_ok ob" if "obj ?k = Some ob" "same_object s s2" for ob s2
    using of_object_step [OF ob [OF that(1)] _ that(2)] gen that(1) by (simp add: genuine_def)
  from c show ?thesis
  proof (cases rule: accept_cases [where now = now and ff = ff and b = b])
    case ignore
    then show ?thesis using ok by (simp add: quiet_faithful)
  next
    case bad
    then show ?thesis using m table_ok_removeSlot [OF t] by (simp add: buffer_ok_def quiet_faithful) (simp add: removeSlot_def)
  next
    case (partial s2)
    note sel = same_object_sel [OF partial(3)]
    have "slot_ok sc obj (slot_age b) ?k s2"
      using partial(2,4) sel key dl step [OF _ partial(3)] by (auto simp: slot_ok_def)
    from table_ok_put [OF t this map_of_in_keys [OF k]] show ?thesis
      using partial(1) m key by (simp add: buffer_ok_def quiet_faithful)
  next
    case (full s2)
    note sel = same_object_sel [OF full(3)]
    let ?b = "b\<lparr>bf_slots := map_put (sl_key s) s2 (bf_slots b)\<rparr>"
    let ?p = "concat (map (\<lambda>j. the ((c(?i \<mapsto> ff_FragData ff)) j)) [0..<frag_total s2])"
    have pos: "0 < frag_total s2" using full(5) sel(7) by simp
    from complete_ok [OF full(2,4) pos, of now ?b] obtain es where
      es: "complete sc now s2 ?b = Some (removeSlot (sl_key s2) (markDone now (sl_key s2) ?b), es)" "delivers (sl_txID s2) ?p es" by blast
    have "bf_slots (removeSlot (sl_key s2) (markDone now (sl_key s2) ?b)) = map_del ?k (bf_slots b)"
      using key sel(1) by (simp add: removeSlot_def map_del_put)
    then have "table_ok sc obj (removeSlot (sl_key s2) (markDone now (sl_key s2) ?b))"
      using table_ok_removeSlot [OF t, of ?k]
        same_settings_sel [OF markDone_fields(3) [of ?b now "sl_key s2"]]
      by (simp add: table_ok_def removeSlot_def)
    moreover have "memory_ok (removeSlot (sl_key s2) (markDone now (sl_key s2) ?b))"
      using markDone_ok(1) [of ?b now] m t by (simp add: table_ok_def)
    moreover have "faithful obj ?k es"
      unfolding faithful_def
    proof (intro allI impI)
      fix ob assume "obj ?k = Some ob"
      from step [OF this full(3)] have o: "of_object ob s2 (c(?i \<mapsto> ff_FragData ff))" "object_ok ob" by simp_all
      then show "delivers (ob_txID ob) (ob_payload ob) es"
        using es(2) of_object_payload [OF o full(4)] by (simp add: of_object_def)
    qed
    moreover have "same_settings b (removeSlot (sl_key s2) (markDone now (sl_key s2) ?b))"
      using markDone_fields(3) [of ?b now "sl_key s2"] by (simp add: removeSlot_def)
        (rule same_settings_trans [of _ ?b], simp_all)
    ultimately show ?thesis using full(1) es(1) by (simp add: buffer_ok_def)
  qed
qed

lemma new_slot_ok:
  assumes "genuine sc obj ff" and "ff_FragTotal ff \<noteq> 0"
  shows "slot_ok sc obj (slot_age b) (slotKey sc ff) (new_slot now (slotKey sc ff) ff b)"
proof -
  have "of_object ob (new_slot now (slotKey sc ff) ff b) Map.empty" if "obj (slotKey sc ff) = Some ob" for ob
    using assms(1) that by (simp add: genuine_def fragment_of_def of_object_def new_slot_def)
  moreover have "0 < ff_FragTotal ff" using assms(2) by (simp add: word_neq_0_conv)
  ultimately show ?thesis
    unfolding slot_ok_def using new_slot_holds [of sc now "slotKey sc ff" ff b] by (auto simp: new_slot_def)
qed

lemma open_slot_ok:
  assumes ok: "buffer_ok sc obj b" and gen: "genuine sc obj ff"
  shows "\<exists>b' es. open_slot sc now now' ff b = Some (b', es) \<and> buffer_ok sc obj b' \<and> same_settings b b' \<and>
    faithful obj (slotKey sc ff) es"
proof -
  let ?k = "slotKey sc ff"
  consider (drop) es where "open_slot sc now now' ff b = Some (b, es)" "quiet es"
    | (opened) "ff_FragTotal ff \<noteq> 0" "open_slot sc now now' ff b =
        (let (b1, es1) = (if length (bf_slots b) \<ge> bf_maxSlots b then evictOldest b else (b, []));
             s = new_slot now ?k ff b1;
             b2 = b1\<lparr>bf_slots := map_put ?k s (bf_slots b1), bf_insertOrder := bf_insertOrder b1 @ [?k]\<rparr>
         in do { (b3, es3) \<leftarrow> accept sc now' ff s b2; Some (b3, es1 @ fires b2 Started @ es3) })"
  proof (cases "map_of (bf_done b) ?k \<noteq> None \<or> (ff_FragTotal ff = 0 \<or> ff_FragIndex ff \<ge> ff_FragTotal ff) \<or>
      (ff_OrigPayloadLen ff = 0 \<or> (ucast (ff_FragTotal ff) :: u32) > ff_OrigPayloadLen ff + 1) \<or>
      (object_cap sc ff b > 0 \<and> int (unat (ff_OrigPayloadLen ff)) > object_cap sc ff b)")
    case True
    then have "open_slot sc now now' ff b \<in> {Some (b, fires b LateFragment), Some (b, []), Some (b, fires b Oversize)}"
      by (auto simp: open_slot_def Let_def [of "slotKey sc ff"])
    then show thesis using that(1) by auto
  next
    case False
    show thesis by (rule that(2)) (use False in \<open>auto simp: open_slot_def Let_def\<close>)
  qed
  then show ?thesis
  proof cases
    case drop
    then show ?thesis using ok by (simp add: quiet_faithful)
  next
    case opened
    obtain b1 es1 where e: "(if length (bf_slots b) \<ge> bf_maxSlots b then evictOldest b else (b, [])) = (b1, es1)" by force
    have b1: "buffer_ok sc obj b1" "length (bf_slots b1) < bf_maxSlots b1" "same_settings b b1" "quiet es1"
    proof -
      have "buffer_ok sc obj b1 \<and> length (bf_slots b1) < bf_maxSlots b \<and> same_settings b b1 \<and> quiet es1"
        using evictOldest_ok [OF ok, of b1 es1] e ok by (auto split: if_splits)
      then show "buffer_ok sc obj b1" "length (bf_slots b1) < bf_maxSlots b1" "same_settings b b1" "quiet es1"
        using same_settings_sel(2) [of b b1] by auto
    qed
    let ?s = "new_slot now ?k ff b1"
    let ?b2 = "b1\<lparr>bf_slots := map_put ?k ?s (bf_slots b1), bf_insertOrder := bf_insertOrder b1 @ [?k]\<rparr>"
    have "table_ok sc obj ?b2"
      using table_ok_insert [OF _ new_slot_ok [OF gen opened(1)] b1(2)] b1(1) by (simp add: buffer_ok_def)
    then have "buffer_ok sc obj ?b2" using b1(1) by (simp add: buffer_ok_def)
    from accept_ok [OF this _ gen, of ?s now'] obtain b3 es3 where
      "accept sc now' ff ?s ?b2 = Some (b3, es3)" "buffer_ok sc obj b3" "same_settings ?b2 b3" "faithful obj ?k es3" by auto
    moreover have "same_settings b ?b2" using b1(3) by simp
    ultimately show ?thesis
      using opened(2) e b1(4) same_settings_trans [of b ?b2 b3] by (simp add: Let_def quiet_faithful)
  qed
qed

text \<open>Every fragment is processed without a panic, keeping the invariant.\<close>

lemma Observe_Buffer_ok:
  assumes ok: "buffer_ok sc obj b" and gen: "genuine sc obj ff" and "I r" and "hook_total I b"
  shows "\<exists>b' r' es. Observe_Buffer sc now now' ff b r = Some (b', r', es) \<and> buffer_ok sc obj b' \<and> I r' \<and>
    same_settings b b' \<and> faithful obj (slotKey sc ff) es"
proof -
  obtain b1 r1 es1 where 1: "lazy_evict now b r = Some (b1, r1, es1)" "buffer_ok sc obj b1" "I r1" "same_settings b b1" "quiet es1"
    using lazy_evict_ok [OF ok assms(3,4)] by blast
  have "\<exists>b2 es2. (case map_of (bf_slots b1) (slotKey sc ff) of Some s \<Rightarrow> accept sc now' ff s b1
      | None \<Rightarrow> open_slot sc now now' ff b1) = Some (b2, es2) \<and> buffer_ok sc obj b2 \<and> same_settings b1 b2 \<and>
      faithful obj (slotKey sc ff) es2"
    using accept_ok [OF 1(2) _ gen] open_slot_ok [OF 1(2) gen] by (cases "map_of (bf_slots b1) (slotKey sc ff)") simp_all
  then obtain b2 es2 where 2: "(case map_of (bf_slots b1) (slotKey sc ff) of Some s \<Rightarrow> accept sc now' ff s b1
      | None \<Rightarrow> open_slot sc now now' ff b1) = Some (b2, es2)" "buffer_ok sc obj b2" "same_settings b1 b2"
      "faithful obj (slotKey sc ff) es2" by blast
  then have "Observe_Buffer sc now now' ff b r = Some (b2, r1, es1 @ es2)"
    by (cases "map_of (bf_slots b1) (slotKey sc ff)") (simp_all add: Observe_Buffer_def 1(1))
  then show ?thesis using 1(3,4,5) 2 same_settings_trans quiet_faithful by fastforce
qed

end
