(* ===== verification/Reassembly_Delivery.thy ===== *)
theory Reassembly_Delivery
  imports Reassembly_Buffer
begin

text \<open>
  What the reassembly buffer promises over whole runs: its memory is bounded and it never panics;
  what it delivers of a known object is that object, whatever the order, duplication, loss and
  interleaving of the fragments; an object all of whose fragments arrive within the slot lifetime
  is delivered exactly once; the sequence numbers it asks for are those of the missing fragments.
\<close>

section \<open>Reachable buffers\<close>

definition fresh_buffer :: "'r Buffer \<Rightarrow> bool" where
  "fresh_buffer b \<longleftrightarrow> bf_slots b = [] \<and> bf_insertOrder b = [] \<and> bf_done b = [] \<and> bf_doneOrder b = [] \<and> 0 < bf_maxSlots b"

lemma fresh_New: "fresh_buffer (New_Buffer n ttl vh cb)"
  by (simp add: fresh_buffer_def New_Buffer_def DefaultMaxSlots_def)

lemma fresh_settings:
  "fresh_buffer (SetRepairWait pend age b) = fresh_buffer b" "fresh_buffer (set_hook h on b) = fresh_buffer b"
  "fresh_buffer (SetCompletionTTL d b) = fresh_buffer b" "fresh_buffer (SetMaxObjectBytes n b) = fresh_buffer b"
  "fresh_buffer (SetMaxObjectBytesV9 n b) = fresh_buffer b" "fresh_buffer (SetIncompleteHook f b) = fresh_buffer b"
  "fresh_buffer (SetGroupIdxFunc g b) = fresh_buffer b"
  by (simp_all add: fresh_buffer_def SetRepairWait_def set_hook_def SetCompletionTTL_def SetMaxObjectBytes_def
      SetMaxObjectBytesV9_def SetIncompleteHook_def SetGroupIdxFunc_def Let_def)

inductive buffer_step :: "shard_common \<Rightarrow> (id32 \<rightharpoonup> object) \<Rightarrow> 'r Buffer \<times> 'r \<Rightarrow> 'r Buffer \<times> 'r \<Rightarrow> bool"
  for sc obj where
  step_fragment: "genuine sc obj ff \<Longrightarrow> Observe_Buffer sc now now' ff b r = Some (b', r', es) \<Longrightarrow>
    buffer_step sc obj (b, r) (b', r')"
| step_tick: "Tick now b r = Some (b', r', es) \<Longrightarrow> buffer_step sc obj (b, r) (b', r')"
| step_purge: "Purge b = (b', es) \<Longrightarrow> buffer_step sc obj (b, r) (b', r)"

definition buffer_init :: "('r \<Rightarrow> bool) \<Rightarrow> 'r Buffer \<times> 'r \<Rightarrow> bool" where
  "buffer_init I = (\<lambda>(b, r). fresh_buffer b \<and> hook_total I b \<and> I r)"

definition buffer_inv :: "shard_common \<Rightarrow> (id32 \<rightharpoonup> object) \<Rightarrow> ('r \<Rightarrow> bool) \<Rightarrow> 'r Buffer \<times> 'r \<Rightarrow> bool" where
  "buffer_inv sc obj I = (\<lambda>(b, r). buffer_ok sc obj b \<and> hook_total I b \<and> I r)"

lemma Purge_ok: "buffer_ok sc obj b \<Longrightarrow> Purge b = (b', es) \<Longrightarrow> buffer_ok sc obj b' \<and> same_settings b b'"
  by (auto simp: Purge_def buffer_ok_def table_ok_def memory_ok_def same_settings_def)

interpretation buffer: step_invariant "buffer_init I" "buffer_step sc obj" "buffer_inv sc obj I"
proof
  fix s :: "'a Buffer \<times> 'a"
  assume "buffer_init I s"
  then show "buffer_inv sc obj I s"
    by (auto simp: buffer_init_def buffer_inv_def buffer_ok_def table_ok_def memory_ok_def fresh_buffer_def)
next
  fix s t :: "'a Buffer \<times> 'a"
  assume inv: "buffer_inv sc obj I s" and step: "buffer_step sc obj s t"
  from step inv show "buffer_inv sc obj I t"
  proof cases
    case (step_fragment ff now now' b r b' r' es)
    with Observe_Buffer_ok [of sc obj b ff I r now now'] inv show ?thesis
      by (auto simp: buffer_inv_def hook_total_same)
  next
    case (step_tick now b r b' r' es)
    with evictExpired_ok [of sc obj b I r now] inv show ?thesis
      by (auto simp: buffer_inv_def hook_total_same Tick_def)
  next
    case (step_purge b b' es r)
    with Purge_ok [of sc obj b b' es] inv show ?thesis by (auto simp: buffer_inv_def hook_total_same)
  qed
qed

text \<open>
  C28. The reassembly buffer is bounded and never panics. In every state reachable by any sequence
  of fragments (forged ones included), ticks and purges there are at most \<^verbatim>\<open>maxSlots\<close> slots and at
  most \<^verbatim>\<open>maxSlots\<close> remembered completions; every slot is filed under its own key, is incomplete,
  and has a deadline no later than the longer of the TTL and the maximum age after it opened; and
  the next fragment or tick, whatever it is, is handled without an out-of-range slice or a
  negative allocation, provided the repair hook returns.
\<close>

theorem reassembly_bounded:
  assumes "reach (buffer_init I) (buffer_step sc Map.empty) (b, r)"
  shows "length (bf_slots b) \<le> bf_maxSlots b \<and> length (bf_done b) \<le> bf_maxSlots b \<and> distinct (map fst (bf_slots b)) \<and>
    list_all (\<lambda>(k, s). sl_key s = k \<and> sl_received s < sl_fragTotal s \<and>
      sl_deadline s \<le> sl_born s + max (bf_ttl b) (bf_maxAge b)) (bf_slots b) \<and>
    Observe_Buffer sc now now' ff b r \<noteq> None \<and> Tick now b r \<noteq> None"
proof -
  have inv: "buffer_ok sc Map.empty b" "hook_total I b" "I r"
    using buffer.reach_inv [OF assms] by (simp_all add: buffer_inv_def)
  have "genuine sc Map.empty ff" by (simp add: genuine_def)
  from Observe_Buffer_ok [OF inv(1) this inv(3,2), of now now'] evictExpired_ok [OF inv(1,3,2), of now]
  have "Observe_Buffer sc now now' ff b r \<noteq> None" "Tick now b r \<noteq> None" by (auto simp: Tick_def)
  then show ?thesis
    using inv(1) by (auto simp: buffer_ok_def table_ok_def memory_ok_def list_all_iff slot_ok_def)
qed

text \<open>
  C4. What is delivered is what was sent. Let a partial map assign to slot keys the objects sent
  under them, and let every observed fragment whose key has an object be a fragment of that object.
  Then in every reachable state, whatever fragments of it or of other objects (genuine or forged)
  came in whatever order, with duplicates, losses, expiries, evictions and purges, any delivery a
  fragment of such an object triggers carries exactly that object's id and payload.
\<close>

theorem reassembly_faithful:
  assumes "reach (buffer_init I) (buffer_step sc obj) (b, r)" and "genuine sc obj ff"
    and "Observe_Buffer sc now now' ff b r = Some (b', r', es)" and "obj (slotKey sc ff) = Some ob"
  shows "list_all (\<lambda>ev. delivered ev = None \<or> delivered ev = Some (ob_txID ob, ob_payload ob)) es"
proof -
  have inv: "buffer_ok sc obj b" "hook_total I b" "I r"
    using buffer.reach_inv [OF assms(1)] by (simp_all add: buffer_inv_def)
  from Observe_Buffer_ok [OF inv(1) assms(2) inv(3,2), of now now'] assms(3,4)
  show ?thesis by (auto simp: faithful_def delivers_def)
qed

section \<open>What expiry leaves alone\<close>

lemma expire_one_frame:
  assumes "expire_one now j b r = Some (b', r', es)"
  shows "map_of (bf_slots b) k = None \<Longrightarrow> map_of (bf_slots b') k = None"
    and "map_of (bf_slots b) k = Some s \<Longrightarrow> now \<le> sl_deadline s \<Longrightarrow> map_of (bf_slots b') k = Some s"
  using assms
  by (auto simp: expire_one_def abandon_def removeSlot_def Let_def bind_eq_Some_conv split: option.splits if_splits prod.splits)

lemma expire_loop_frame:
  assumes "expire_loop now ks b r = Some (b', r', es)"
  shows "map_of (bf_slots b) k = None \<Longrightarrow> map_of (bf_slots b') k = None"
    and "map_of (bf_slots b) k = Some s \<Longrightarrow> now \<le> sl_deadline s \<Longrightarrow> map_of (bf_slots b') k = Some s"
  using assms
proof (induction ks arbitrary: b r es)
  case (Cons j ks)
  {
    case 1
    from 1(2) obtain b1 r1 es1 es2 where e: "expire_one now j b r = Some (b1, r1, es1)" "expire_loop now ks b1 r1 = Some (b', r', es2)"
      by (auto simp: bind_eq_Some_conv)
    show ?case by (rule Cons.IH(1) [OF expire_one_frame(1) [OF e(1) 1(1)] e(2)])
  next
    case 2
    from 2(3) obtain b1 r1 es1 es2 where e: "expire_one now j b r = Some (b1, r1, es1)" "expire_loop now ks b1 r1 = Some (b', r', es2)"
      by (auto simp: bind_eq_Some_conv)
    show ?case by (rule Cons.IH(2) [OF expire_one_frame(2) [OF e(1) 2(1,2)] 2(2) e(2)])
  }
qed simp_all

lemma lazy_evict_frame:
  assumes "lazy_evict now b r = Some (b', r', es)"
  shows "map_of (bf_slots b) k = None \<Longrightarrow> map_of (bf_slots b') k = None"
    and "map_of (bf_slots b) k = Some s \<Longrightarrow> now \<le> sl_deadline s \<Longrightarrow> map_of (bf_slots b') k = Some s"
  using assms expire_loop_frame [of now _ "sweepDone now b" r]
  by (fastforce simp: lazy_evict_def evictExpired_def Let_def bind_eq_Some_conv split: if_splits)+

lemma lazy_evict_remembers:
  assumes "buffer_ok sc obj b" and "I r" and "hook_total I b" and "lazy_evict now b r = Some (b', r', es)"
  shows "map_of (bf_done b) k = None \<Longrightarrow> map_of (bf_done b') k = None"
    and "map_of (bf_done b) k = Some ex \<Longrightarrow> now \<le> ex \<Longrightarrow> map_of (bf_done b') k = Some ex"
proof -
  have d: "bf_done b' = bf_done b \<or> bf_done b' = bf_done (sweepDone now b)"
    using lazy_evict_ok [OF assms(1-3), of now] assms(4) by auto
  have m: "memory_ok b" using assms(1) by (simp add: buffer_ok_def)
  show "map_of (bf_done b) k = None \<Longrightarrow> map_of (bf_done b') k = None"
    using d sweepDone_lookup [OF m, of now k] by auto
  show "map_of (bf_done b) k = Some ex \<Longrightarrow> now \<le> ex \<Longrightarrow> map_of (bf_done b') k = Some ex"
    using d sweepDone_lookup [OF m, of now k] by auto
qed

section \<open>Delivery\<close>

primrec observe_all ::
  "shard_common \<Rightarrow> (gtime \<times> gtime \<times> FragFrame) list \<Rightarrow> 'r Buffer \<Rightarrow> 'r \<Rightarrow> ('r Buffer \<times> 'r \<times> event list) option" where
  "observe_all sc [] b r = Some (b, r, [])"
| "observe_all sc (x # xs) b r =
     do { (b1, r1, es1) \<leftarrow> Observe_Buffer sc (fst x) (fst (snd x)) (snd (snd x)) b r;
          (b2, r2, es2) \<leftarrow> observe_all sc xs b1 r1;
          Some (b2, r2, es1 @ es2) }"

text \<open>The buffer has a consumer for the object's kind, and verification, if on, accepts it.\<close>

definition deliverable :: "shard_common \<Rightarrow> object \<Rightarrow> 'r Buffer \<Rightarrow> bool" where
  "deliverable sc ob b \<longleftrightarrow>
     (if ob_ver ob = sc_FrameVerV4 sc then OnCompleteBlock \<in> set (bf_hooks b)
      else if ob_ver ob = sc_FrameVerV5 sc then OnCompleteSubtree \<in> set (bf_hooks b)
      else if ob_ver ob = sc_FrameVerV9 sc
      then (OnCompleteBEEFFrame \<in> set (bf_hooks b) \<or> OnCompleteBEEF \<in> set (bf_hooks b)) \<and>
        (bf_verifyHash b \<longrightarrow> Sum256d (ob_payload ob) = ob_txID ob)
      else OnComplete \<in> set (bf_hooks b) \<and> (bf_verifyHash b \<longrightarrow> payloadTxID sc (ob_payload ob) = (ob_txID ob, True)))"

definition deliveries :: "event list \<Rightarrow> (id32 \<times> byte list) list" where
  "deliveries es = List.map_filter delivered es"

lemma deliveries_simps [simp]:
  "deliveries [] = []" "deliveries (es @ es') = deliveries es @ deliveries es'"
  by (simp_all add: deliveries_def List.map_filter_def)

lemma quiet_deliveries: "quiet es \<Longrightarrow> deliveries es = []"
  by (induction es) (simp_all add: quiet_def deliveries_def List.map_filter_def)

lemma deliveries_fires:
  "hook_of ev \<in> set (bf_hooks b) \<Longrightarrow> delivered ev = Some d \<Longrightarrow> deliveries (fires b ev) = [d]"
  by (simp add: fires_def deliveries_def List.map_filter_def)

lemma dispatch_deliveries:
  assumes "deliverable sc ob b" and "of_object ob s c"
  shows "deliveries (dispatch_object sc s w (ob_payload ob) b) = [(ob_txID ob, ob_payload ob)]"
  using assms by (auto simp: dispatch_object_def deliverable_def of_object_def Let_def deliveries_fires)

text \<open>Where the buffer stands with one object: not opened, open with some fragments, or done.\<close>

datatype progress = Unopened | Open "nat set" | Done

definition in_progress :: "shard_common \<Rightarrow> id32 \<Rightarrow> object \<Rightarrow> gtime \<Rightarrow> progress \<Rightarrow> 'r Buffer \<Rightarrow> bool" where
  "in_progress sc k ob until pg b \<longleftrightarrow>
     (case pg of
        Unopened \<Rightarrow> map_of (bf_slots b) k = None \<and> map_of (bf_done b) k = None
      | Open js \<Rightarrow> js \<noteq> {..<ob_total ob} \<and> (\<exists>s c. map_of (bf_slots b) k = Some s \<and> until \<le> sl_deadline s \<and> sl_key s = k \<and>
          slot_holds sc s c \<and> of_object ob s c \<and> dom c = js)
      | Done \<Rightarrow> map_of (bf_slots b) k = None \<and> (\<exists>ex. map_of (bf_done b) k = Some ex \<and> until \<le> ex))"

lemma in_progress_lazy:
  assumes p: "in_progress sc k ob until pg b" and "buffer_ok sc obj b" and "I r" and "hook_total I b"
    and e: "lazy_evict now b r = Some (b', r', es)" and "now \<le> until"
  shows "in_progress sc k ob until pg b'"
proof (cases pg)
  case Unopened
  then show ?thesis using p lazy_evict_frame(1) [OF e] lazy_evict_remembers(1) [OF assms(2-5)] by (simp add: in_progress_def)
next
  case (Open js)
  then obtain s c where s: "js \<noteq> {..<ob_total ob}" "map_of (bf_slots b) k = Some s" "until \<le> sl_deadline s" "sl_key s = k"
    "slot_holds sc s c" "of_object ob s c" "dom c = js" using p by (auto simp: in_progress_def)
  have "map_of (bf_slots b') k = Some s" using lazy_evict_frame(2) [OF e s(2)] s(3) assms(6) by simp
  then show ?thesis using Open s by (auto simp: in_progress_def)
next
  case Done
  then obtain ex where ex: "map_of (bf_slots b) k = None" "map_of (bf_done b) k = Some ex" "until \<le> ex"
    using p by (auto simp: in_progress_def)
  have "map_of (bf_done b') k = Some ex" using lazy_evict_remembers(2) [OF assms(2-5) ex(2)] ex(3) assms(6) by simp
  then show ?thesis using Done ex lazy_evict_frame(1) [OF e ex(1)] by (simp add: in_progress_def)
qed

fun advance :: "nat \<Rightarrow> nat \<Rightarrow> progress \<Rightarrow> progress \<times> bool" where
  "advance n i Done = (Done, False)"
| "advance n i Unopened = (if {i} = {..<n} then (Done, True) else (Open {i}, False))"
| "advance n i (Open js) = (if insert i js = {..<n} then (Done, True) else (Open (insert i js), False))"

lemma length_piece:
  assumes "object_ok ob" and "i < ob_total ob"
  shows "length (piece ob i) = (if Suc i = ob_total ob then length (ob_payload ob) - ob_fragSize ob * (ob_total ob - 1) else ob_fragSize ob)"
proof (cases "Suc i = ob_total ob")
  case True
  then have "ob_total ob - 1 = i" by simp
  then show ?thesis using True by (simp add: piece_def mult.commute)
next
  case False
  then have "Suc i \<le> ob_total ob - 1" using assms(2) by simp
  then have "Suc i * ob_fragSize ob \<le> (ob_total ob - 1) * ob_fragSize ob" by (rule mult_le_mono1)
  then have "Suc i * ob_fragSize ob \<le> length (ob_payload ob)"
    using assms(1) by (simp add: object_ok_def mult.commute)
  then show ?thesis using False by (simp add: piece_def)
qed

text \<open>A genuine fragment always passes the length check of its own slot.\<close>

lemma genuine_fits:
  assumes ok: "object_ok ob" and ff: "fragment_of ob ff" and h: "slot_holds sc s c" and o: "of_object ob s c"
  shows "checkFragLen s ff \<noteq> None"
proof -
  let ?t = "ob_total ob" and ?l = "length (ob_payload ob)" and ?i = "unat (ff_FragIndex ff)"
  let ?fs = "if ?t = 1 then ?l else ob_fragSize ob"
  have t: "frag_total s = ?t" and l: "obj_len s = ?l"
    using o ok by (simp_all add: of_object_def object_ok_def unat_of_nat)
  have pos: "0 < ?t" "0 < ob_fragSize ob" "ob_fragSize ob * (?t - 1) < ?l" using ok by (simp_all add: object_ok_def)
  have i: "?i < ?t" using ff by (simp add: fragment_of_def)
  have sh: "shaped (s\<lparr>sl_fragSize := ?fs\<rparr>)" using pos t l by (auto simp: shaped_def)
  have len: "length (ff_FragData ff) = frag_len (s\<lparr>sl_fragSize := ?fs\<rparr>) ?i"
    using ff length_piece [OF ok i] i t l by (auto simp: fragment_of_def frag_len_def)
  have "sl_fragSize s = 0 \<or> sl_fragSize s = ?fs"
  proof (cases "c = Map.empty")
    case True
    then show ?thesis using h by (simp add: slot_holds_def stores_def)
  next
    case False
    then have ss: "shaped s" and cl: "\<And>j d. c j = Some d \<Longrightarrow> length d = frag_len s j"
      using h by (simp_all add: slot_holds_def stores_def)
    from False obtain j d where c: "c j = Some d" by fastforce
    have j: "j < ?t" using slot_holds_dom [OF h c] t by simp
    have "length (piece ob j) = frag_len s j" using cl [OF c] c o by (simp add: of_object_def)
    then have e: "(if Suc j = ?t then ?l - ob_fragSize ob * (?t - 1) else ob_fragSize ob) =
        (if Suc j = ?t then ?l - sl_fragSize s * (?t - 1) else sl_fragSize s)"
      using length_piece [OF ok j] t l by (simp add: frag_len_def)
    have s: "sl_fragSize s * (?t - 1) < ?l" "?t = 1 \<longrightarrow> sl_fragSize s = ?l" using ss t l by (simp_all add: shaped_def)
    show ?thesis
    proof (cases "?t = 1")
      case False
      then have k: "0 < ?t - 1" using pos(1) by simp
      have "sl_fragSize s = ob_fragSize ob"
      proof (cases "Suc j = ?t")
        case True
        then have "?l - ob_fragSize ob * (?t - 1) = ?l - sl_fragSize s * (?t - 1)" using e by simp
        then have "ob_fragSize ob * (?t - 1) = sl_fragSize s * (?t - 1)" using s(1) pos(3) by linarith
        then show ?thesis using k by simp
      qed (use e in simp)
      then show ?thesis using False by simp
    qed (use s in simp)
  qed
  then have "fits s ff ?fs" using sh len by (simp add: fits_def Let_def)
  then show ?thesis using checkFragLen_iff [of ff s ?fs] i t by simp
qed

lemma accept_progress:
  assumes ok: "object_ok ob" and ff: "fragment_of ob ff" and h: "slot_holds sc s c" and o: "of_object ob s c" and key: "sl_key s = k"
    and mem: "memory_ok b" "0 < bf_maxSlots b" and dv: "deliverable sc ob b"
    and until: "until \<le> sl_deadline s" "until \<le> now' + bf_completionTTL b" and k: "map_of (bf_slots b) k = Some s"
    and part: "dom c \<noteq> {..<ob_total ob}" and acc: "accept sc now' ff s b = Some (b', es)"
  shows "in_progress sc k ob until (fst (advance (ob_total ob) (unat (ff_FragIndex ff)) (Open (dom c)))) b' \<and>
    deliveries es = (if snd (advance (ob_total ob) (unat (ff_FragIndex ff)) (Open (dom c))) then [(ob_txID ob, ob_payload ob)] else [])"
proof -
  let ?i = "unat (ff_FragIndex ff)"
  have t: "frag_total s = ob_total ob" and ft: "ff_FragTotal ff = sl_fragTotal s" and i: "?i < ob_total ob"
    using o ok ff by (simp_all add: of_object_def object_ok_def fragment_of_def unat_of_nat)
  from h show ?thesis
  proof (cases rule: accept_cases [where now = now' and ff = ff and b = b])
    case ignore
    then have "c ?i \<noteq> None" using ft i t by (auto simp: word_le_nat_alt)
    then have "insert ?i (dom c) = dom c" by (auto simp: dom_def)
    then show ?thesis using ignore(1) acc part until k key h o by (auto simp: in_progress_def)
  next
    case bad
    then show ?thesis using genuine_fits [OF ok ff h o] by simp
  next
    case (partial s2)
    note sel = same_object_sel [OF partial(3)]
    have o2: "of_object ob s2 (c(?i \<mapsto> ff_FragData ff))" by (rule of_object_step [OF o ff partial(3)])
    have "unat (sl_received s2) = card (insert ?i (dom c))" using partial(2) by (simp add: slot_holds_def)
    then have ne: "insert ?i (dom c) \<noteq> {..<ob_total ob}"
      using partial(4) sel(7) t by (auto simp: word_less_nat_alt)
    show ?thesis
      using partial(1,2) acc o2 ne until(1) sel key by (auto simp: in_progress_def)
  next
    case (full s2)
    note sel = same_object_sel [OF full(3)]
    let ?b = "b\<lparr>bf_slots := map_put (sl_key s) s2 (bf_slots b)\<rparr>"
    let ?c = "c(?i \<mapsto> ff_FragData ff)"
    have o2: "of_object ob s2 ?c" by (rule of_object_step [OF o ff full(3)])
    have pos: "0 < frag_total s2" using full(5) sel(7) by simp
    have p: "concat (map (\<lambda>j. the (?c j)) [0..<frag_total s2]) = ob_payload ob" by (rule of_object_payload [OF o2 ok full(4)])
    from complete_ok [OF full(2,4) pos, of now' ?b] obtain w late where
      "complete sc now' s2 ?b = Some (removeSlot (sl_key s2) (markDone now' (sl_key s2) ?b),
         late @ dispatch_object sc s2 w (ob_payload ob) (removeSlot (sl_key s2) (markDone now' (sl_key s2) ?b)))" "quiet late"
      unfolding p by blast
    then have b': "b' = removeSlot k (markDone now' k ?b)" and es: "es = late @ dispatch_object sc s2 w (ob_payload ob) b'"
      using full(1) acc key sel(1) by simp_all
    have st: "same_settings b b'" unfolding b' removeSlot_def by (simp, rule same_settings_trans [of _ ?b]) simp_all
    have "deliverable sc ob b'" using dv same_settings_sel [OF st] by (simp add: deliverable_def)
    from dispatch_deliveries [OF this o2] have d: "deliveries es = [(ob_txID ob, ob_payload ob)]"
      unfolding es by (simp add: quiet_deliveries \<open>quiet late\<close>)
    have "map_of (bf_done b') k = Some (now' + bf_completionTTL b)"
      using markDone_ok(2) [of ?b now' k] mem unfolding b' removeSlot_def by simp
    moreover have "map_of (bf_slots b') k = None" unfolding b' removeSlot_def by simp
    moreover have "insert ?i (dom c) = {..<ob_total ob}" using full(4) sel(7) t by simp
    ultimately show ?thesis using d until(2) by (simp add: in_progress_def)
  qed
qed

definition within_cap :: "shard_common \<Rightarrow> object \<Rightarrow> 'r Buffer \<Rightarrow> bool" where
  "within_cap sc ob b \<longleftrightarrow>
     (let cap = (if ob_ver ob = sc_FrameVerV9 sc \<and> bf_maxObjectV9 b > 0
                 then bf_maxObjectV9 b + sc_BEEFRecordMaxEnvelope sc else bf_maxObject b)
      in cap \<le> 0 \<or> int (length (ob_payload ob)) \<le> cap)"

lemma deliverable_same: "same_settings b b' \<Longrightarrow> deliverable sc ob b' = deliverable sc ob b"
  using same_settings_sel [of b b'] by (simp add: deliverable_def)

lemma within_cap_same: "same_settings b b' \<Longrightarrow> within_cap sc ob b' = within_cap sc ob b"
  using same_settings_sel [of b b'] by (simp add: within_cap_def)

lemma unat_ucast_index: "unat (ucast (x :: u16) :: u32) = unat x"
proof -
  have "unat x < 2 ^ 32" using unat_lt2p [of x] by simp
  then show ?thesis by (simp add: unsigned_ucast_eq take_bit_nat_eq_self)
qed

lemma open_slot_progress:
  assumes bok: "buffer_ok sc obj b" and key: "slotKey sc ff = k" and obj: "obj k = Some ob" and ok: "object_ok ob" and ff: "fragment_of ob ff"
    and dv: "deliverable sc ob b" and cap: "within_cap sc ob b"
    and until: "until \<le> now + bf_ttl b" "until \<le> now' + bf_completionTTL b"
    and new: "map_of (bf_slots b) k = None" "map_of (bf_done b) k = None" and o: "open_slot sc now now' ff b = Some (b', es)"
  shows "in_progress sc k ob until (fst (advance (ob_total ob) (unat (ff_FragIndex ff)) Unopened)) b' \<and>
    deliveries es = (if snd (advance (ob_total ob) (unat (ff_FragIndex ff)) Unopened) then [(ob_txID ob, ob_payload ob)] else [])"
proof -
  let ?t = "ob_total ob" and ?l = "length (ob_payload ob)"
  have ft: "unat (ff_FragTotal ff) = ?t" and fl: "unat (ff_OrigPayloadLen ff) = ?l" and i: "unat (ff_FragIndex ff) < ?t"
    using ok ff by (simp_all add: object_ok_def fragment_of_def unat_of_nat)
  have pos: "0 < ?t" "0 < ob_fragSize ob" "ob_fragSize ob * (?t - 1) < ?l" "?l < 2 ^ 32 - 1" using ok by (simp_all add: object_ok_def)
  have "?t - 1 \<le> ob_fragSize ob * (?t - 1)" using pos(2) by (cases "ob_fragSize ob") simp_all
  then have tl: "?t \<le> ?l" using pos(3) by linarith
  have g1: "\<not> (ff_FragTotal ff = 0 \<or> ff_FragIndex ff \<ge> ff_FragTotal ff)"
    using ft i pos(1) by (auto simp: word_le_nat_alt)
  have "unat (ff_OrigPayloadLen ff + 1) = ?l + 1" using fl pos(4) by (simp add: unat_word_ariths)
  moreover have "unat (ucast (ff_FragTotal ff) :: u32) = ?t" using ft by (simp add: unat_ucast_index)
  ultimately have g2: "\<not> (ff_OrigPayloadLen ff = 0 \<or> (ucast (ff_FragTotal ff) :: u32) > ff_OrigPayloadLen ff + 1)"
    using fl tl pos by (auto simp: word_less_nat_alt)
  have g3: "\<not> (object_cap sc ff b > 0 \<and> int (unat (ff_OrigPayloadLen ff)) > object_cap sc ff b)"
    using cap fl ff by (auto simp: within_cap_def object_cap_def fragment_of_def Let_def)
  obtain b1 es1 where e: "(if length (bf_slots b) \<ge> bf_maxSlots b then evictOldest b else (b, [])) = (b1, es1)" by force
  have b1: "buffer_ok sc obj b1 \<and> length (bf_slots b1) < bf_maxSlots b \<and> same_settings b b1 \<and> quiet es1"
    using evictOldest_ok [OF bok, of b1 es1] e bok by (auto split: if_splits)
  let ?s = "new_slot now k ff b1"
  let ?b2 = "b1\<lparr>bf_slots := map_put k ?s (bf_slots b1), bf_insertOrder := bf_insertOrder b1 @ [k]\<rparr>"
  have st: "same_settings b ?b2" using b1 by simp
  note sel = same_settings_sel [OF st]
  have o2: "open_slot sc now now' ff b = do { (b3, es3) \<leftarrow> accept sc now' ff ?s ?b2; Some (b3, es1 @ fires ?b2 Started @ es3) }"
    using g1 g2 g3 new(2) e key unfolding open_slot_def by (auto simp: Let_def)
  from o obtain es3 where a: "accept sc now' ff ?s ?b2 = Some (b', es3)" and es: "es = es1 @ fires ?b2 Started @ es3"
    unfolding o2 by (auto simp: bind_eq_Some_conv)
  have oo: "of_object ob ?s Map.empty" using ff by (simp add: of_object_def fragment_of_def new_slot_def)
  have "{} \<noteq> {..<?t}" using pos(1) by auto
  then have "in_progress sc k ob until (fst (advance ?t (unat (ff_FragIndex ff)) (Open {}))) b' \<and>
      deliveries es3 = (if snd (advance ?t (unat (ff_FragIndex ff)) (Open {})) then [(ob_txID ob, ob_payload ob)] else [])"
    using accept_progress [OF ok ff new_slot_holds oo _ _ _ _ _ _ _ _ a, of k until] b1 dv until sel deliverable_same [OF st, of sc ob]
    by (simp add: new_slot_def buffer_ok_def table_ok_def)
  then show ?thesis using es b1 by (simp add: quiet_deliveries)
qed

lemma Observe_progress:
  assumes bok: "buffer_ok sc obj b" and key: "slotKey sc ff = k" and obj: "obj k = Some ob" and ok: "object_ok ob" and ff: "fragment_of ob ff"
    and dv: "deliverable sc ob b" and cap: "within_cap sc ob b" and I: "I r" "hook_total I b"
    and until: "now \<le> until" "until \<le> now + bf_ttl b" "until \<le> now' + bf_completionTTL b" and p: "in_progress sc k ob until pg b"
  shows "\<exists>b' r' es. Observe_Buffer sc now now' ff b r = Some (b', r', es) \<and> buffer_ok sc obj b' \<and> I r' \<and> same_settings b b' \<and>
    in_progress sc k ob until (fst (advance (ob_total ob) (unat (ff_FragIndex ff)) pg)) b' \<and>
    deliveries es = (if snd (advance (ob_total ob) (unat (ff_FragIndex ff)) pg) then [(ob_txID ob, ob_payload ob)] else [])"
proof -
  let ?adv = "advance (ob_total ob) (unat (ff_FragIndex ff)) pg"
  have gen: "genuine sc obj ff" using key obj ok ff by (simp add: genuine_def)
  obtain b' r' es where obs: "Observe_Buffer sc now now' ff b r = Some (b', r', es)" "buffer_ok sc obj b'" "I r'" "same_settings b b'"
    using Observe_Buffer_ok [OF bok gen I, of now now'] by blast
  obtain b1 r1 es1 where 1: "lazy_evict now b r = Some (b1, r1, es1)" "buffer_ok sc obj b1" "same_settings b b1" "quiet es1"
    using lazy_evict_ok [OF bok I, of now] by blast
  note sel = same_settings_sel [OF 1(3)]
  have p1: "in_progress sc k ob until pg b1" by (rule in_progress_lazy [OF p bok I 1(1) until(1)])
  have mem: "memory_ok b1" "0 < bf_maxSlots b1" and dv1: "deliverable sc ob b1" and cap1: "within_cap sc ob b1"
    using 1(2) dv cap deliverable_same [OF 1(3)] within_cap_same [OF 1(3)] by (simp_all add: buffer_ok_def table_ok_def)
  obtain es2 where 2: "(case map_of (bf_slots b1) k of Some s \<Rightarrow> accept sc now' ff s b1 | None \<Rightarrow> open_slot sc now now' ff b1) = Some (b', es2)"
      "es = es1 @ es2"
    using obs(1) key 1(1) by (auto simp: Observe_Buffer_def bind_eq_Some_conv)
  have "in_progress sc k ob until (fst ?adv) b' \<and> deliveries es2 = (if snd ?adv then [(ob_txID ob, ob_payload ob)] else [])"
  proof (cases pg)
    case Unopened
    then have n: "map_of (bf_slots b1) k = None" "map_of (bf_done b1) k = None" using p1 by (simp_all add: in_progress_def)
    show ?thesis unfolding Unopened
      by (rule open_slot_progress [OF 1(2) key obj ok ff dv1 cap1 _ _ n]) (use until sel n 2(1) in simp_all)
  next
    case (Open js)
    then obtain s c where s: "js \<noteq> {..<ob_total ob}" "map_of (bf_slots b1) k = Some s" "until \<le> sl_deadline s" "sl_key s = k"
      "slot_holds sc s c" "of_object ob s c" "dom c = js" using p1 by (auto simp: in_progress_def)
    have "accept sc now' ff s b1 = Some (b', es2)" using 2(1) s(2) by simp
    from accept_progress [OF ok ff s(5,6,4) mem dv1 s(3) _ s(2) _ this] show ?thesis
      using Open s(1,7) until(3) sel by simp
  next
    case Done
    then obtain ex where "map_of (bf_slots b1) k = None" "map_of (bf_done b1) k = Some ex" using p1 by (auto simp: in_progress_def)
    then have "b' = b1" "es2 = fires b1 LateFragment" using 2(1) key by (auto simp: open_slot_def)
    then show ?thesis using Done p1 by (simp add: quiet_deliveries)
  qed
  then show ?thesis using obs 2(2) 1(4) by (simp add: quiet_deliveries)
qed

text \<open>The progress of a whole sequence of fragments, by the indices they carry.\<close>

primrec advance_all :: "nat \<Rightarrow> nat list \<Rightarrow> progress \<Rightarrow> progress \<times> nat" where
  "advance_all n [] pg = (pg, 0)"
| "advance_all n (i # js) pg =
     (let (pg1, d) = advance n i pg; (pg2, m) = advance_all n js pg1 in (pg2, (if d then Suc m else m)))"

lemma advance_all_Done [simp]: "advance_all n js Done = (Done, 0)"
  by (induction js) simp_all

lemma advance_all_Open:
  "A \<noteq> {..<n} \<Longrightarrow> A \<subseteq> {..<n} \<Longrightarrow> set js \<subseteq> {..<n} \<Longrightarrow> {..<n} \<subseteq> A \<union> set js \<Longrightarrow> advance_all n js (Open A) = (Done, 1)"
proof (induction js arbitrary: A)
  case Nil
  then have "A = {..<n}" by (simp only: list.set Un_empty_right subset_antisym)
  then show ?case using Nil.prems(1) by (rule notE [rotated])
next
  case (Cons i js)
  show ?case
  proof (cases "insert i A = {..<n}")
    case False
    have "advance_all n js (Open (insert i A)) = (Done, 1)"
    proof (rule Cons.IH [OF False])
      show "insert i A \<subseteq> {..<n}" "set js \<subseteq> {..<n}" "{..<n} \<subseteq> insert i A \<union> set js"
        using Cons.prems(2-4) by (simp_all add: subset_iff)
    qed
    then show ?thesis using False by simp
  qed simp
qed

lemma advance_all_delivers:
  assumes "0 < n" and "set js = {..<n}"
  shows "advance_all n js Unopened = (Done, 1)"
proof -
  have z: "0 \<in> {..<n}" using assms(1) by simp
  then have "js \<noteq> []" unfolding assms(2) [symmetric] by (rule contrapos_pn) simp
  then have "advance_all n js Unopened = advance_all n js (Open {})" by (cases js) simp_all
  also have "\<dots> = (Done, 1)" by (rule advance_all_Open) (use z assms(2) in \<open>simp_all only: empty_subsetI subset_refl Un_empty_left\<close>, blast)
  finally show ?thesis .
qed

lemma observe_all_progress:
  assumes "buffer_ok sc obj b" and "obj k = Some ob" and "object_ok ob" and "deliverable sc ob b" and "within_cap sc ob b"
    and "I r" and "hook_total I b" and "in_progress sc k ob until pg b"
    and "list_all (\<lambda>(now, now', ff). slotKey sc ff = k \<and> fragment_of ob ff \<and> now \<le> until \<and>
      until \<le> now + bf_ttl b \<and> until \<le> now' + bf_completionTTL b) xs"
  shows "\<exists>b' r' es. observe_all sc xs b r = Some (b', r', es) \<and>
    in_progress sc k ob until (fst (advance_all (ob_total ob) (map (\<lambda>x. unat (ff_FragIndex (snd (snd x)))) xs) pg)) b' \<and>
    deliveries es = replicate (snd (advance_all (ob_total ob) (map (\<lambda>x. unat (ff_FragIndex (snd (snd x)))) xs) pg)) (ob_txID ob, ob_payload ob)"
  using assms(1,4-9)
proof (induction xs arbitrary: b r pg)
  case (Cons x xs)
  obtain now now' ff where x: "x = (now, now', ff)" by (rule prod_cases3)
  with Cons.prems(7) have c: "slotKey sc ff = k" "fragment_of ob ff" "now \<le> until" "until \<le> now + bf_ttl b" "until \<le> now' + bf_completionTTL b"
    by auto
  obtain b1 r1 es1 where 1: "Observe_Buffer sc now now' ff b r = Some (b1, r1, es1)" "buffer_ok sc obj b1" "I r1" "same_settings b b1"
    "in_progress sc k ob until (fst (advance (ob_total ob) (unat (ff_FragIndex ff)) pg)) b1"
    "deliveries es1 = (if snd (advance (ob_total ob) (unat (ff_FragIndex ff)) pg) then [(ob_txID ob, ob_payload ob)] else [])"
    using Observe_progress [OF Cons.prems(1) c(1) assms(2,3) c(2) Cons.prems(2-5) c(3-5) Cons.prems(6)] by blast
  note sel = same_settings_sel [OF 1(4)]
  have "\<exists>b' r' es. observe_all sc xs b1 r1 = Some (b', r', es) \<and>
    in_progress sc k ob until (fst (advance_all (ob_total ob) (map (\<lambda>x. unat (ff_FragIndex (snd (snd x)))) xs)
       (fst (advance (ob_total ob) (unat (ff_FragIndex ff)) pg)))) b' \<and>
    deliveries es = replicate (snd (advance_all (ob_total ob) (map (\<lambda>x. unat (ff_FragIndex (snd (snd x)))) xs)
       (fst (advance (ob_total ob) (unat (ff_FragIndex ff)) pg)))) (ob_txID ob, ob_payload ob)"
    by (rule Cons.IH [OF 1(2) _ _ 1(3) _ 1(5)])
       (use Cons.prems deliverable_same [OF 1(4)] within_cap_same [OF 1(4)] hook_total_same [OF 1(4)] sel in simp_all)
  then show ?case using 1(1,6) x by (auto simp: Let_def split_beta)
qed simp

text \<open>
  C5. An object all of whose fragments arrive is delivered, exactly once. Take any well-formed
  buffer that has no slot for the object and has not completed it, with a consumer for its kind,
  room for its size, and verification off or satisfied. Feed it every fragment at least once, in
  any order and with any repetitions, within one slot lifetime and one completion memory. Then no
  call panics, exactly one delivery is made, it carries the object's id and payload, and
  afterwards the object has no slot and is remembered as done. Fragments that come after the
  delivery are dropped.
\<close>

theorem reassembly_delivers_once:
  assumes "buffer_ok sc obj b" and "obj k = Some ob" and "object_ok ob" and "deliverable sc ob b" and "within_cap sc ob b"
    and "I r" and "hook_total I b" and "map_of (bf_slots b) k = None" and "map_of (bf_done b) k = None"
    and "list_all (\<lambda>(now, now', ff). slotKey sc ff = k \<and> fragment_of ob ff \<and> now \<le> until \<and>
      until \<le> now + bf_ttl b \<and> until \<le> now' + bf_completionTTL b) xs"
    and "set (map (\<lambda>x. unat (ff_FragIndex (snd (snd x)))) xs) = {..<ob_total ob}"
  shows "\<exists>b' r' es. observe_all sc xs b r = Some (b', r', es) \<and> deliveries es = [(ob_txID ob, ob_payload ob)] \<and>
    map_of (bf_slots b') k = None \<and> map_of (bf_done b') k \<noteq> None"
proof -
  have "0 < ob_total ob" using assms(3) by (simp add: object_ok_def)
  then have a: "advance_all (ob_total ob) (map (\<lambda>x. unat (ff_FragIndex (snd (snd x)))) xs) Unopened = (Done, 1)"
    by (rule advance_all_delivers [OF _ assms(11)])
  have "in_progress sc k ob until Unopened b" using assms(8,9) by (simp add: in_progress_def)
  from observe_all_progress [OF assms(1-7) this assms(10)] show ?thesis
    unfolding a by (auto simp: in_progress_def)
qed

end
