(* ===== verification/Reassembly_Repair.thy ===== *)
theory Reassembly_Repair
  imports Reassembly_Delivery Tracker_Repair
begin

text \<open>
  The reassembly buffer and the repair plane. The locale \<open>repair_plane\<close> states what the buffer
  relies on: a request for missing sequence numbers returns, and a tracker that accepts it reports
  them pending. It is interpreted on the gap tracker, with the hooks wired as \<^verbatim>\<open>main.go\<close> wires
  them. Also here: the sequence numbers a slot asks for, the shape the length check enforces, and
  concrete objects on which the properties are evaluated.
\<close>

section \<open>The sequence numbers of missing fragments\<close>

declare of_nat_unat [simp del]

lemma nearest_Some:
  "nearest hs n i ds = Some j \<Longrightarrow> i < n \<Longrightarrow> j < n \<and> hs ! j"
  by (induction ds) (auto split: if_splits)

lemma nearest_None:
  "nearest hs n i ds = None \<Longrightarrow> d \<in> set ds \<Longrightarrow> (d \<le> i \<longrightarrow> \<not> hs ! (i - d)) \<and> (i + d < n \<longrightarrow> \<not> hs ! (i + d))"
  by (induction ds) (auto split: if_splits)

lemma nearest_finds:
  assumes "j < n" and "hs ! j" and "i < n" and "\<not> hs ! i"
  shows "\<exists>k. nearest hs n i [1..<n] = Some k \<and> k < n \<and> hs ! k"
proof (cases "nearest hs n i [1..<n]")
  case None
  have ne: "i \<noteq> j" using assms by auto
  show ?thesis
  proof (cases "j < i")
    case True
    then have "i - j \<in> set [1..<n]" using assms by auto
    from nearest_None [OF None this] show ?thesis using True assms by simp
  next
    case False
    then have "j - i \<in> set [1..<n]" using assms ne by auto
    from nearest_None [OF None this] show ?thesis using False assms ne by simp
  qed
qed (use nearest_Some assms in blast)

lemma interpolated:
  fixes base :: u64
  assumes "unat base + n < 2 ^ 63" and "k < n" and "i < n"
  shows "wrap64 (sint (base + of_nat k) + (int i - int k)) = int (unat base + i)"
    and "word_of_int (int (unat base + i)) = base + (of_nat i :: u64)"
proof -
  have u: "unat (base + of_nat k) = unat base + k" using assms by (simp add: unat_word_ariths unat_of_nat)
  then have "uint (base + of_nat k) = int (unat base + k)" by (simp only: uint_nat)
  moreover have "int (unat base + k) < 2 ^ 63" using assms(1,2) by simp
  ultimately have "sint (base + of_nat k) = int (unat base + k)"
    unfolding sint_uint by (simp only:) (simp add: signed_take_bit_int_eq_self)
  then show "wrap64 (sint (base + of_nat k) + (int i - int k)) = int (unat base + i)"
    using assms by (simp add: min_dur_def max_dur_def)
  show "word_of_int (int (unat base + i)) = base + (of_nat i :: u64)" by (simp add: of_nat_unat)
qed

text \<open>
  A slot asks for exactly its missing fragments. If the fragments received so far carry
  consecutive sequence numbers of their object (fragment \<open>i\<close> has \<open>base + i\<close>, below \<open>2^63\<close>), and at
  least one has arrived, then the list of sequence numbers the slot requests is that of the
  fragments it lacks, each once, in index order, and no other.
\<close>

theorem missing_fragments_exact:
  assumes "slot_holds sc s c" and "c \<noteq> Map.empty" and "unat base + unat (sl_fragTotal s) < 2 ^ 63"
    and "\<forall>i < unat (sl_fragTotal s). sl_have s ! i \<longrightarrow> sl_fragSeq s ! i = base + of_nat i"
  shows "missingSeqNums s = Some (map (\<lambda>i. base + of_nat i) (filter (\<lambda>i. \<not> sl_have s ! i) [0..<unat (sl_fragTotal s)]))"
proof -
  let ?n = "unat (sl_fragTotal s)"
  from assms(2) obtain j d where "c j = Some d" by fastforce
  then have j: "j < ?n" "sl_have s ! j" using assms(1) by (auto simp: slot_holds_def)
  have fin: "finite (dom c)" using slot_holds_finite [OF assms(1)] finite_subset by blast
  have "0 < card (dom c)" using fin \<open>c j = Some d\<close> by (auto simp: card_gt_0_iff)
  then have rec: "sl_received s \<noteq> 0" using assms(1) unfolding slot_holds_def by (metis less_nat_zero_code unsigned_0)
  have le: "\<not> sl_fragTotal s < sl_received s"
    using card_mono [OF finite_lessThan slot_holds_finite [OF assms(1)]] assms(1)
    by (simp add: slot_holds_def word_less_nat_alt)
  have at: "missing_at s i = (if sl_have s ! i then [] else [base + of_nat i])" if "i < ?n" for i
  proof (cases "sl_have s ! i")
    case False
    from nearest_finds [OF j that False] obtain k where k: "nearest (sl_have s) ?n i [1..<?n] = Some k" "k < ?n" "sl_have s ! k" by blast
    show ?thesis using False k assms(4) interpolated [OF assms(3) k(2) that] by (simp add: missing_at_def Let_def)
  qed (simp add: missing_at_def)
  have "concat (map (missing_at s) [0..<m]) = map (\<lambda>i. base + of_nat i) (filter (\<lambda>i. \<not> sl_have s ! i) [0..<m])" if "m \<le> ?n" for m
    using that by (induction m) (simp_all add: at)
  then show ?thesis using rec le by (simp add: missingSeqNums_def)
qed

section \<open>The repair plane as the buffer sees it\<close>

locale repair_plane =
  fixes request :: "u64 \<Rightarrow> u32 \<Rightarrow> id32 \<Rightarrow> u64 list \<Rightarrow> 'r \<Rightarrow> 'r option"
    and pending :: "u64 \<Rightarrow> u64 list \<Rightarrow> 'r \<Rightarrow> bool"
    and accepts :: "u64 \<Rightarrow> 'r \<Rightarrow> bool"
    and inv :: "'r \<Rightarrow> bool"
  assumes request_total: "inv r \<Longrightarrow> \<exists>r'. request hk g sid ms r = Some r' \<and> inv r'"
    and request_pends: "inv r \<Longrightarrow> accepts hk r \<Longrightarrow> ms \<noteq> [] \<Longrightarrow> request hk g sid ms r = Some r' \<Longrightarrow> pending hk ms r'"
begin

lemma wired_total: "bf_onIncomplete b = Some request \<Longrightarrow> hook_total inv b"
  using request_total by (auto simp: hook_total_def)

lemma first_expiry_holds:
  assumes "bf_onIncomplete b = Some request" and "bf_repairPending b = Some pending" and "inv r" and "accepts (sl_hashKey s) r"
    and "map_of (bf_slots b) k = Some s" and "sl_deadline s < now" and "\<not> sl_requested s" and "now < sl_born s + bf_maxAge b"
    and "missingSeqNums s = Some ms" and "ms \<noteq> []"
  shows "\<exists>r' es. expire_one now k b r = Some (b\<lparr>bf_slots := map_put k (s\<lparr>sl_requested := True,
      sl_deadline := min (now + bf_ttl b) (sl_born s + bf_maxAge b), sl_extended := True\<rparr>) (bf_slots b)\<rparr>, r', es) \<and>
    request (sl_hashKey s) (sl_groupIdx s) (sl_subtreeID s) ms r = Some r' \<and> inv r' \<and> pending (sl_hashKey s) ms r'"
proof -
  obtain r' where r': "request (sl_hashKey s) (sl_groupIdx s) (sl_subtreeID s) ms r = Some r'" "inv r'"
    using request_total [OF assms(3)] by blast
  have p: "pending (sl_hashKey s) ms r'" by (rule request_pends [OF assms(3,4,10) r'(1)])
  have "hold_request now s ms b r = Some (s\<lparr>sl_requested := True\<rparr>, r')" using assms(1,7,8) r'(1) by (simp add: hold_request_def)
  then show ?thesis
    using assms(2,5,6,8) p r' by (simp add: expire_one_def holdForRepair_request [OF assms(9,10)])
qed

lemma repair_ended_abandons:
  assumes "bf_repairPending b = Some pending" and "map_of (bf_slots b) k = Some s" and "sl_deadline s < now"
    and "sl_requested s \<or> bf_onIncomplete b = None" and "missingSeqNums s = Some ms" and "\<not> pending (sl_hashKey s) ms r"
  shows "\<exists>b' es. expire_one now k b r = Some (b', r, es) \<and> map_of (bf_slots b') k = None"
proof (cases "ms = []")
  case True
  then show ?thesis using assms by (simp add: expire_one_def holdForRepair_def abandon_def removeSlot_def Let_def)
next
  case False
  have "\<exists>s1. hold_request now s ms b r = Some (s1, r) \<and> sl_hashKey s1 = sl_hashKey s"
    using assms(4) by (auto simp: hold_request_def)
  then show ?thesis
    using assms by (auto simp: expire_one_def holdForRepair_request [OF assms(5) False] abandon_def removeSlot_def Let_def)
qed

end

section \<open>The gap tracker as the repair plane\<close>

text \<open>
  The wiring of \<^verbatim>\<open>main.go\<close>: the incomplete hook of worker \<open>w\<close>'s buffer is \<^verbatim>\<open>RequestGapsFrom\<close> under its
  id, and the repair wait asks \<^verbatim>\<open>Pending\<close>. The repair state is the tracker with the clock and the
  jitter draws its next call will read.
\<close>

type_synonym clocked_tracker = "(gtime \<times> (u64 \<Rightarrow> int)) \<times> Tracker"

definition request_from :: "int \<Rightarrow> u64 \<Rightarrow> u32 \<Rightarrow> id32 \<Rightarrow> u64 list \<Rightarrow> clocked_tracker \<Rightarrow> clocked_tracker option" where
  "request_from w hk g sid ms = (\<lambda>((now, draw), t). map_option (Pair (now, draw)) (RequestGapsFrom now draw w hk g sid ms t))"

definition pending_in :: "u64 \<Rightarrow> u64 list \<Rightarrow> clocked_tracker \<Rightarrow> bool" where
  "pending_in hk ms = (\<lambda>(c, t). Pending hk ms t)"

definition wire_repair :: "int \<Rightarrow> dur \<Rightarrow> (FragFrame \<Rightarrow> u32) \<Rightarrow> clocked_tracker Buffer \<Rightarrow> clocked_tracker Buffer" where
  "wire_repair w maxAge fragGroupIdx b =
     SetRepairWait (Some pending_in) maxAge
       (SetIncompleteHook (Some (request_from w)) (SetGroupIdxFunc (Some fragGroupIdx) b))"

definition accepts_flow :: "u64 \<Rightarrow> clocked_tracker \<Rightarrow> bool" where
  "accepts_flow hk = (\<lambda>(c, t). map_of (tr_flows t) hk \<noteq> None \<or> \<not> at_flow_cap t)"

definition clocked_ok :: "clocked_tracker \<Rightarrow> bool" where
  "clocked_ok = (\<lambda>(c, t). tracker_ok t \<and> jitter_ok (tr_cfg t))"

lemma RequestGapsFrom_total:
  assumes "jitter_ok (tr_cfg t)"
  shows "\<exists>t'. RequestGapsFrom now draw w hk g sid ms t = Some t'"
proof -
  have "register (new_gap (tr_cfg t) now draw hk g sid src ow) ms fs \<bind> (\<lambda>(f, q). Some (F f q)) \<noteq> None"
    for src ow fs and F :: "flowState \<Rightarrow> gapEntry list \<Rightarrow> Tracker"
    using register_total [of "new_gap (tr_cfg t) now draw hk g sid src ow" ms fs] new_gap_total [OF assms] by auto
  then have "RequestGapsFrom now draw w hk g sid ms t \<noteq> None"
    unfolding RequestGapsFrom_def Let_def by (auto split: option.split)
  then show ?thesis by simp
qed

lemma register_made:
  "register mk ms fs = Some (fs', es) \<Longrightarrow> m \<in> set ms \<Longrightarrow> map_of (fs_pending fs) m = None \<Longrightarrow> mk m \<noteq> None"
proof (induction ms arbitrary: fs es)
  case (Cons a ms)
  from Cons.prems(1) show ?case
  proof (cases rule: register_ConsE)
    case (skip e)
    then show ?thesis using Cons.IH [OF skip(2)] Cons.prems(2,3) by auto
  next
    case (new e es1)
    then show ?thesis using Cons.IH [OF new(4)] Cons.prems(2,3) by (cases "m = a") simp_all
  qed
qed simp

lemma RequestGapsFrom_cfg: "RequestGapsFrom now draw w hk g sid ms t = Some t' \<Longrightarrow> tr_cfg t' = tr_cfg t"
  by (auto simp: put_flow_def elim!: RequestGapsFrom_cases)

lemma RequestGapsFrom_pends:
  assumes r: "RequestGapsFrom now draw w hk g sid ms t = Some t'" and ne: "ms \<noteq> []"
    and acc: "map_of (tr_flows t) hk \<noteq> None \<or> \<not> at_flow_cap t"
  shows "\<exists>fs. map_of (tr_flows t') hk = Some fs \<and> (\<forall>m\<in>set ms. map_of (fs_pending fs) m \<noteq> None)"
  using r
proof (cases rule: RequestGapsFrom_cases)
  case nothing
  then show ?thesis using ne acc by (auto simp: found_flow_def split: option.splits if_splits)
next
  case (flow fs fs1 fs' es)
  have "map_of (fs_pending fs') m \<noteq> None" if "m \<in> set ms" for m
    using register_lookup [OF flow(3), of m] register_made [OF flow(3) that] that by (auto split: option.splits)
  then show ?thesis using flow(4) by (simp add: put_flow_def)
qed

interpretation tracker_repair: repair_plane "request_from w" pending_in accepts_flow clocked_ok
proof
  fix r hk g sid ms
  assume "clocked_ok r"
  then show "\<exists>r'. request_from w hk g sid ms r = Some r' \<and> clocked_ok r'"
    using RequestGapsFrom_total RequestGapsFrom_cfg tracker_ok_RequestGapsFrom
    by (fastforce simp: request_from_def clocked_ok_def)
next
  fix r r' :: clocked_tracker and hk g sid ms
  assume "clocked_ok r" "accepts_flow hk r" "ms \<noteq> []" "request_from w hk g sid ms r = Some r'"
  then show "pending_in hk ms r'"
    using RequestGapsFrom_pends [of _ _ w hk g sid ms]
    by (cases ms) (fastforce simp: request_from_def accepts_flow_def pending_in_def Pending_def)+
qed

lemma wire_repair_sel:
  "bf_onIncomplete (wire_repair w age g b) = Some (request_from w)" "bf_repairPending (wire_repair w age g b) = Some pending_in"
  "fresh_buffer (wire_repair w age g b) = fresh_buffer b" "bf_maxAge (wire_repair w age g b) = (if age > 0 then age else bf_maxAge b)"
  by (simp_all add: wire_repair_def SetRepairWait_def SetIncompleteHook_def SetGroupIdxFunc_def Let_def fresh_buffer_def)

text \<open>
  C29. An object with a lost tail enters repair and is kept. Take a worker's buffer with its hooks
  wired to the gap tracker. When a partly filled slot first reaches its deadline, before its
  maximum age and on a flow the tracker tracks or has room for, the sweep registers every missing
  sequence number as a pending gap of that flow, keeps the slot with all it has received, marks it
  as asked for, and moves its deadline out by one TTL but not past the maximum age.
\<close>

theorem lost_tail_enters_repair:
  assumes "bf_onIncomplete b = Some (request_from w)" and "bf_repairPending b = Some pending_in"
    and "tracker_ok t" and "jitter_ok (tr_cfg t)" and "map_of (tr_flows t) (sl_hashKey s) \<noteq> None \<or> \<not> at_flow_cap t"
    and "map_of (bf_slots b) k = Some s" and "sl_deadline s < now" and "\<not> sl_requested s" and "now < sl_born s + bf_maxAge b"
    and "missingSeqNums s = Some ms" and "ms \<noteq> []"
  shows "\<exists>t' es fs. expire_one now k b ((now, draw), t) = Some (b\<lparr>bf_slots := map_put k (s\<lparr>sl_requested := True,
      sl_deadline := min (now + bf_ttl b) (sl_born s + bf_maxAge b), sl_extended := True\<rparr>) (bf_slots b)\<rparr>, ((now, draw), t'), es) \<and>
    map_of (tr_flows t') (sl_hashKey s) = Some fs \<and> (\<forall>m\<in>set ms. map_of (fs_pending fs) m \<noteq> None)"
proof -
  have c: "clocked_ok ((now, draw), t)" "accepts_flow (sl_hashKey s) ((now, draw), t)"
    using assms(3-5) by (simp_all add: clocked_ok_def accepts_flow_def)
  from tracker_repair.first_expiry_holds [OF assms(1,2) c assms(6-11)] obtain r' es where
    e: "expire_one now k b ((now, draw), t) = Some (b\<lparr>bf_slots := map_put k (s\<lparr>sl_requested := True,
      sl_deadline := min (now + bf_ttl b) (sl_born s + bf_maxAge b), sl_extended := True\<rparr>) (bf_slots b)\<rparr>, r', es)"
      "request_from w (sl_hashKey s) (sl_groupIdx s) (sl_subtreeID s) ms ((now, draw), t) = Some r'" by blast
  from e(2) obtain t' where t': "r' = ((now, draw), t')" "RequestGapsFrom now draw w (sl_hashKey s) (sl_groupIdx s) (sl_subtreeID s) ms t = Some t'"
    by (auto simp: request_from_def)
  from RequestGapsFrom_pends [OF t'(2) assms(11,5)] e(1) t'(1) show ?thesis by blast
qed

end
