(* ===== verification/Reassembly_Examples.thy ===== *)
theory Reassembly_Examples
  imports Reassembly_Repair
begin

text \<open>
  Concrete objects and buffers on which the properties of reassembly are evaluated, and a run that
  shows how a slot dropped for a bad fragment leaves its key in the eviction order.
\<close>

definition demo_sc :: shard_common where
  "demo_sc = \<lparr>sc_FrameVerV2 = 2, sc_FrameVerV4 = 4, sc_FrameVerV5 = 5, sc_FrameVerV9 = 9, sc_HeaderSize = 92,
     sc_BEEFRecordMaxEnvelope = 64, sc_TxSize = (\<lambda>_. None), sc_TxID = (\<lambda>_. None)\<rparr>"

definition demo_frag :: "id32 \<Rightarrow> u16 \<Rightarrow> byte list \<Rightarrow> FragFrame" where
  "demo_frag txid i d = \<lparr>ff_TxID = txid, ff_SubtreeID = 0, ff_HashKey = 42, ff_SeqNum = 100 + ucast i, ff_FragIndex = i, ff_FragTotal = 2,
     ff_OrigPayloadLen = 3, ff_OrigFrameVer = 2, ff_MsgType = 0, ff_FragData = d\<rparr>"

definition demo_buffer :: "int \<Rightarrow> unit Buffer" where
  "demo_buffer n = SetAbandonedReasonHook True (New_Buffer n 0 False True)"


section \<open>Witnesses\<close>

definition demo_object :: object where
  "demo_object = \<lparr>ob_txID = 0xA, ob_subtreeID = 0, ob_total = 2, ob_fragSize = 2, ob_payload = [1, 2, 3], ob_ver = 2, ob_msgType = 0\<rparr>"

abbreviation demo_objects :: "id32 \<rightharpoonup> object" where
  "demo_objects \<equiv> [0xA \<mapsto> demo_object]"

lemma demo_object_ok: "object_ok demo_object"
  by (simp add: object_ok_def demo_object_def)

lemma demo_frag_of: "fragment_of demo_object (demo_frag 0xA 0 [1, 2])" "fragment_of demo_object (demo_frag 0xA 1 [3])"
  by code_simp+

lemma demo_frag_key: "slotKey demo_sc (demo_frag x i d) = x" "unat (ff_FragIndex (demo_frag x i d)) = unat i"
  by (simp_all add: slotKey_def demo_sc_def demo_frag_def)

lemma demo_buffer_total: "hook_total I (demo_buffer n)"
  by (simp add: hook_total_def demo_buffer_def SetAbandonedReasonHook_def set_hook_def New_Buffer_def)

lemma demo_buffer_init: "buffer_init (\<lambda>_. True) (demo_buffer n, ())"
  by (simp add: buffer_init_def demo_buffer_total) (simp add: demo_buffer_def SetAbandonedReasonHook_def fresh_settings fresh_New)

lemma demo_buffer_ok: "buffer_ok sc obj (demo_buffer n)"
  using buffer.inv_init [OF demo_buffer_init] by (simp add: buffer_inv_def)

lemma demo_genuine: "genuine demo_sc demo_objects (demo_frag 0xA 0 [1, 2])" "genuine demo_sc demo_objects (demo_frag 0xA 1 [3])"
  by (simp_all add: genuine_def demo_frag_key demo_object_ok demo_frag_of)

lemma demo_first_fragment:
  "genuine demo_sc obj (demo_frag 0xA 0 [1, 2]) \<Longrightarrow>
   \<exists>b r es. Observe_Buffer demo_sc (10 * second) (10 * second) (demo_frag 0xA 0 [1, 2]) (demo_buffer 4) () = Some (b, r, es) \<and>
     reach (buffer_init (\<lambda>_. True)) (buffer_step demo_sc obj) (b, r)"
proof -
  assume g: "genuine demo_sc obj (demo_frag 0xA 0 [1, 2])"
  have i: "reach (buffer_init (\<lambda>_. True)) (buffer_step demo_sc obj) (demo_buffer 4, ())"
    by (rule reach_init) (rule demo_buffer_init)
  obtain b r es where o: "Observe_Buffer demo_sc (10 * second) (10 * second) (demo_frag 0xA 0 [1, 2]) (demo_buffer 4) () = Some (b, r, es)"
    using Observe_Buffer_ok [where I = "\<lambda>_. True", OF demo_buffer_ok g TrueI demo_buffer_total, of "10 * second" "10 * second"] by blast
  from reach_step [OF i step_fragment [OF g o]] o show ?thesis by blast
qed

theorem reassembly_bounded_witness:
  "\<exists>b r es. Observe_Buffer demo_sc (10 * second) (10 * second) (demo_frag 0xA 0 [1, 2]) (demo_buffer 4) () = Some (b, r, es) \<and>
     length (bf_slots b) \<le> bf_maxSlots b \<and>
     Observe_Buffer demo_sc (11 * second) (11 * second) (demo_frag 0xA 1 [3]) b r \<noteq> None \<and> Tick (11 * second) b r \<noteq> None"
proof -
  have "genuine demo_sc Map.empty (demo_frag 0xA 0 [1, 2])" by (simp add: genuine_def)
  from demo_first_fragment [OF this] obtain b r es where
    b: "Observe_Buffer demo_sc (10 * second) (10 * second) (demo_frag 0xA 0 [1, 2]) (demo_buffer 4) () = Some (b, r, es)"
      "reach (buffer_init (\<lambda>_. True)) (buffer_step demo_sc Map.empty) (b, r)" by blast
  from reassembly_bounded [OF b(2)] b(1) show ?thesis by blast
qed

theorem reassembly_faithful_witness:
  "\<exists>b r es b' r' es'. Observe_Buffer demo_sc (10 * second) (10 * second) (demo_frag 0xA 0 [1, 2]) (demo_buffer 4) () = Some (b, r, es) \<and>
     Observe_Buffer demo_sc (11 * second) (11 * second) (demo_frag 0xA 1 [3]) b r = Some (b', r', es') \<and>
     list_all (\<lambda>ev. delivered ev \<in> {None, Some (0xA, [1, 2, 3])}) es'"
proof -
  from demo_first_fragment [OF demo_genuine(1)] obtain b r es where
    b: "Observe_Buffer demo_sc (10 * second) (10 * second) (demo_frag 0xA 0 [1, 2]) (demo_buffer 4) () = Some (b, r, es)"
      "reach (buffer_init (\<lambda>_. True)) (buffer_step demo_sc demo_objects) (b, r)" by blast
  have "Observe_Buffer demo_sc (11 * second) (11 * second) (demo_frag 0xA 1 [3]) b r \<noteq> None"
    using buffer.reach_inv [OF b(2)] Observe_Buffer_ok [OF _ demo_genuine(2)] by (fastforce simp: buffer_inv_def)
  then obtain b' r' es' where o: "Observe_Buffer demo_sc (11 * second) (11 * second) (demo_frag 0xA 1 [3]) b r = Some (b', r', es')" by auto
  from reassembly_faithful [OF b(2) demo_genuine(2) o] have
    "list_all (\<lambda>ev. delivered ev = None \<or> delivered ev = Some (ob_txID demo_object, ob_payload demo_object)) es'"
    by (simp add: demo_frag_key)
  then show ?thesis using b(1) o by (auto simp: demo_object_def list_all_iff)
qed

definition demo_arrivals :: "(gtime \<times> gtime \<times> FragFrame) list" where
  "demo_arrivals = [(10 * second, 10 * second, demo_frag 0xA 1 [3]), (11 * second, 11 * second, demo_frag 0xA 1 [3]),
     (12 * second, 12 * second, demo_frag 0xA 0 [1, 2]), (13 * second, 13 * second, demo_frag 0xA 0 [1, 2])]"

lemma demo_arrivals_all: "set (map (\<lambda>x. unat (ff_FragIndex (snd (snd x)))) demo_arrivals) = {..<ob_total demo_object}"
  by (auto simp: demo_arrivals_def demo_frag_key demo_object_def less_Suc_eq numeral_2_eq_2)

lemma demo_arrivals_in_time:
  "list_all (\<lambda>(now, now', ff). slotKey demo_sc ff = 0xA \<and> fragment_of demo_object ff \<and> now \<le> 13 * second \<and>
    13 * second \<le> now + bf_ttl (demo_buffer 4) \<and> 13 * second \<le> now' + bf_completionTTL (demo_buffer 4)) demo_arrivals"
  by code_simp

theorem reassembly_delivers_once_witness:
  "\<exists>b' r' es. observe_all demo_sc demo_arrivals (demo_buffer 4) () = Some (b', r', es) \<and> deliveries es = [(0xA, [1, 2, 3])] \<and>
    map_of (bf_slots b') 0xA = None \<and> map_of (bf_done b') 0xA \<noteq> None"
proof -
  have d: "deliverable demo_sc demo_object (demo_buffer 4)" "within_cap demo_sc demo_object (demo_buffer 4)"
    "map_of (bf_slots (demo_buffer 4)) 0xA = None" "map_of (bf_done (demo_buffer 4)) 0xA = None" by code_simp+
  have o: "demo_objects 0xA = Some demo_object" by simp
  show ?thesis
    using reassembly_delivers_once [where I = "\<lambda>_. True" and sc = demo_sc and obj = demo_objects and b = "demo_buffer 4" and ob = demo_object and k = "0xA"
        and r = "()" and xs = demo_arrivals and until = "13 * second", OF demo_buffer_ok o demo_object_ok d(1,2) TrueI demo_buffer_total d(3,4)
      demo_arrivals_in_time demo_arrivals_all] by (simp add: demo_object_def)
qed

text \<open>The slot of the demonstration object after its first fragment, of sequence number 100, on flow 42.\<close>

definition demo_slot :: slot where
  "demo_slot = \<lparr>sl_key = 0xA, sl_txID = 0xA, sl_subtreeID = 0, sl_hashKey = 42, sl_seqNum = 100, sl_origPayloadLen = 3,
     sl_fragTotal = 2, sl_fragSize = 2, sl_received = 1, sl_have = [True, False], sl_whole = None, sl_room = 0,
     sl_early = [(0, [1, 2])], sl_fragSeq = [100, 0], sl_groupIdx = 3, sl_deadline = 20 * second, sl_born = 10 * second,
     sl_requested = False, sl_extended = False, sl_origFrameVer = 2, sl_msgType = 0\<rparr>"

lemma demo_slot_run:
  "case Observe_Buffer demo_sc (10 * second) (10 * second) (demo_frag 0xA 0 [1, 2]) (SetGroupIdxFunc (Some (\<lambda>_. 3)) (demo_buffer 4)) () of
     None \<Rightarrow> False | Some (b, r, es) \<Rightarrow> bf_slots b = [(0xA, demo_slot)]"
  by code_simp

lemma demo_slot_holds: "slot_holds demo_sc demo_slot [0 \<mapsto> [1, 2]]"
  by (auto simp: slot_holds_def stores_def shaped_def frag_len_def demo_slot_def split: if_splits dest: less_2_cases)

theorem missing_fragments_exact_witness: "missingSeqNums demo_slot = Some [101]"
proof -
  have "\<forall>i < unat (sl_fragTotal demo_slot). sl_have demo_slot ! i \<longrightarrow> sl_fragSeq demo_slot ! i = 100 + of_nat i"
    by (auto simp: demo_slot_def dest: less_2_cases)
  from missing_fragments_exact [OF demo_slot_holds _ _ this] show ?thesis by (simp add: demo_slot_def upt_rec)
qed

definition demo_repair_buffer :: "clocked_tracker Buffer" where
  "demo_repair_buffer = (wire_repair 0 0 (\<lambda>_. 3) (New_Buffer 4 0 False True))\<lparr>bf_slots := [(0xA, demo_slot)]\<rparr>"

theorem lost_tail_enters_repair_witness:
  "\<exists>t' es fs. expire_one (21 * second) 0xA demo_repair_buffer ((21 * second, \<lambda>_. 0), demo_tracker) =
      Some (demo_repair_buffer\<lparr>bf_slots := [(0xA, demo_slot\<lparr>sl_requested := True, sl_deadline := 31 * second, sl_extended := True\<rparr>)]\<rparr>,
        ((21 * second, \<lambda>_. 0), t'), es) \<and>
    map_of (tr_flows t') 42 = Some fs \<and> map_of (fs_pending fs) 101 \<noteq> None"
proof -
  have "missingSeqNums demo_slot = Some [101]" by code_simp
  from lost_tail_enters_repair [where b = demo_repair_buffer and k = "0xA" and now = "21 * second" and w = 0, OF _ _ demo_tracker_ok _ _ _ _ _ _ this]
  show ?thesis
    by (fastforce simp: demo_repair_buffer_def wire_repair_sel demo_tracker_sel demo_jitter demo_slot_def second_def
        New_Buffer_def DefaultMaxAge_def DefaultTTL_def wire_repair_def SetRepairWait_def SetIncompleteHook_def SetGroupIdxFunc_def)
qed

end
