(* ===== verification/Egress.thy ===== *)
theory Egress
  imports Reassembly Tracker_State
begin

text \<open>
  The forwarding sinks of \<^verbatim>\<open>egress/\<close>: the interface the worker delivers through (\<^verbatim>\<open>sink.go\<close>,
  \<^verbatim>\<open>bundle.go\<close>), the unicast \<open>Sender\<close> with its paced UDP redial (\<^verbatim>\<open>egress.go\<close>), the
  multi-destination \<open>MultiSender\<close> (\<^verbatim>\<open>multi.go\<close>) and the multicast \<open>MCastSender\<close> (\<^verbatim>\<open>mcast.go\<close>).

  The network is an argument of each call: the record \<open>net\<close> holds the time and the outcome of every
  system call the operation may make. What an operation does to its sockets is returned in order as
  a list of \<open>wire\<close> actions. \<open>None\<close> is a nil-pointer panic. The functions of shard-common that the
  sinks and the fan-out call are the record \<open>objfmt_common\<close>, an argument as well.
\<close>

section \<open>Errors and the sink interface\<close>

datatype neterr = ENETUNREACH | EHOSTUNREACH | ENETDOWN | EADDRNOTAVAIL | EINVAL | ECONNREFUSED | EMSGSIZE | OtherError string

datatype egress_error = ErrNotElected | Wrapped string egress_error | Joined "egress_error list"
  | BadAddr string | UDPDial string neterr | UDPWrite string neterr | UDPClose neterr | UnknownProtocol string
  | TCPDial string neterr | SetDeadline neterr | TCPWrite neterr | StripError string string | NoAddresses
  | EncodeError string | ErrBEEFEngineUnset | Socket string neterr | Sendto neterr

text \<open>\<^verbatim>\<open>errors.Is\<close> looks through wrapped and joined errors.\<close>

primrec IsNotElected :: "egress_error \<Rightarrow> bool" where
  "IsNotElected ErrNotElected = True"
| "IsNotElected (Wrapped m e) = IsNotElected e"
| "IsNotElected (Joined es) = list_ex (\<lambda>b. b) (map IsNotElected es)"
| "IsNotElected (BadAddr a) = False"
| "IsNotElected (UDPDial a e) = False"
| "IsNotElected (UDPWrite a e) = False"
| "IsNotElected (UDPClose e) = False"
| "IsNotElected (UnknownProtocol p) = False"
| "IsNotElected (TCPDial a e) = False"
| "IsNotElected (SetDeadline e) = False"
| "IsNotElected (TCPWrite e) = False"
| "IsNotElected (StripError w m) = False"
| "IsNotElected NoAddresses = False"
| "IsNotElected (EncodeError m) = False"
| "IsNotElected ErrBEEFEngineUnset = False"
| "IsNotElected (Socket w e) = False"
| "IsNotElected (Sendto e) = False"

record Bundle =
  bu_ShardBits :: byte
  bu_GroupIdx :: u16
  bu_SubtreeID :: id32
  bu_HashKey :: u64
  bu_SeqNum :: u64
  bu_Members :: "(id32 \<times> byte list) list"

record objfmt_common =
  oc_StripBlock :: "byte list \<Rightarrow> string + byte list"
  oc_StripSubtree :: "byte list \<Rightarrow> string + byte list"
  oc_EncodeBEEFDelivery :: "id32 \<Rightarrow> byte list \<Rightarrow> byte list"
  oc_DeliverableTopicIDs :: "BEEFFrame \<Rightarrow> id32 list"
  oc_SplitBEEFPayload :: "byte list \<Rightarrow> byte list option"
  oc_BEEFVersionWord :: "byte list \<Rightarrow> u32 option"
  oc_Decoalesce :: "Bundle \<Rightarrow> Frame list"
  oc_Encode :: "Frame \<Rightarrow> byte list \<Rightarrow> string + (byte list \<times> nat)"

text \<open>
  The methods of an egress sink on a world \<open>'w\<close> that holds the state of all sinks. The three
  optional interfaces are the fields that may be \<open>None\<close>.
\<close>

type_synonym 'w send = "'w \<Rightarrow> ('w \<times> egress_error option) option"

record 'w EgressSink =
  es_Send :: "byte list \<Rightarrow> Frame \<Rightarrow> 'w send"
  es_SendBlock :: "byte list \<Rightarrow> BlockFrame \<Rightarrow> 'w send"
  es_SendSubtreeData :: "byte list \<Rightarrow> SubtreeDataFrame \<Rightarrow> 'w send"
  es_SendBeef :: "byte list \<Rightarrow> BEEFFrame \<Rightarrow> 'w send"
  es_SendRaw :: "byte list \<Rightarrow> 'w send"
  es_Proto :: string
  es_Close :: "'w send"
  es_SendBundle :: "(byte list \<Rightarrow> Bundle \<Rightarrow> 'w send) option"
  es_SendHeader :: "(byte list \<Rightarrow> Frame \<Rightarrow> 'w send) option"
  es_SendHeaderN :: "(byte list \<Rightarrow> Frame \<Rightarrow> 'w \<Rightarrow> ('w \<times> nat \<times> egress_error option) option) option"

definition first_error :: "egress_error option \<Rightarrow> egress_error option \<Rightarrow> egress_error option" where
  "first_error acc e = (case acc of Some _ \<Rightarrow> acc | None \<Rightarrow> e)"

section \<open>Unicast sender\<close>

definition tcpWriteDeadline :: dur where "tcpWriteDeadline = 5 * second"
definition udpRedialMin :: dur where "udpRedialMin = 250 * millisecond"
definition udpRedialMax :: dur where "udpRedialMax = 5 * second"

record Sender =
  se_addr :: string
  se_proto :: string
  se_stripHeader :: bool
  se_tcpConn :: bool
  se_udpConn :: bool
  se_udpErr :: "egress_error option"
  se_udpRetryAt :: gtime
  se_udpBackoff :: dur
  se_udpDialed :: bool

record net =
  nt_now :: gtime
  nt_resolve :: "neterr option"
  nt_dialUDP :: "neterr option"
  nt_writeUDP :: "neterr option"
  nt_closeUDP :: "neterr option"
  nt_dialTCP :: "neterr option"
  nt_deadline :: "neterr option"
  nt_writeTCP :: "neterr option"

datatype wire = DialUDP | WroteUDP "byte list" | ClosedUDP | DialTCP | WroteTCP "byte list" | ClosedTCP

type_synonym sent = "Sender \<times> egress_error option \<times> wire list"

definition udp_dial_error :: "net \<Rightarrow> neterr option" where
  "udp_dial_error n = (case nt_resolve n of Some e \<Rightarrow> Some e | None \<Rightarrow> nt_dialUDP n)"

definition next_backoff :: "dur \<Rightarrow> dur" where
  "next_backoff b = min (max (wrap64 (2 * b)) udpRedialMin) udpRedialMax"

text \<open>A failed resolution never reaches the socket; it counts as an attempt all the same.\<close>

definition dialUDP :: "net \<Rightarrow> Sender \<Rightarrow> sent" where
  "dialUDP n s =
     (if se_udpBackoff s > 0 \<and> nt_now n < se_udpRetryAt s then (s, se_udpErr s, [])
      else case udp_dial_error n of
        None \<Rightarrow> (s\<lparr>se_udpConn := True, se_udpErr := None, se_udpBackoff := 0, se_udpDialed := True\<rparr>, None, [DialUDP])
      | Some e \<Rightarrow>
          let err = Some (UDPDial (se_addr s) e);
              backoff = next_backoff (se_udpBackoff s)
          in (s\<lparr>se_udpErr := err, se_udpBackoff := backoff, se_udpRetryAt := nt_now n + backoff\<rparr>, err, [DialUDP]))"

definition New_Sender :: "net \<Rightarrow> string \<Rightarrow> string \<Rightarrow> bool \<Rightarrow> egress_error + Sender" where
  "New_Sender n addr proto strip =
     (let s = \<lparr>se_addr = addr, se_proto = proto, se_stripHeader = strip, se_tcpConn = False, se_udpConn = False,
               se_udpErr = None, se_udpRetryAt = 0, se_udpBackoff = 0, se_udpDialed = False\<rparr>
      in if proto = ''udp''
         then (if SplitHost addr = None then Inl (BadAddr addr) else Inr (fst (dialUDP n s)))
         else Inr s)"

definition isPathError :: "neterr \<Rightarrow> bool" where
  "isPathError e = (e \<in> {ENETUNREACH, EHOSTUNREACH, ENETDOWN, EADDRNOTAVAIL, EINVAL})"

definition closeUDP :: "Sender \<Rightarrow> Sender \<times> wire list" where
  "closeUDP s = (if se_udpConn s then (s\<lparr>se_udpConn := False\<rparr>, [ClosedUDP]) else (s, []))"

definition closeTCP :: "Sender \<Rightarrow> Sender \<times> wire list" where
  "closeTCP s = (if se_tcpConn s then (s\<lparr>se_tcpConn := False\<rparr>, [ClosedTCP]) else (s, []))"

definition sendUDP :: "net \<Rightarrow> byte list \<Rightarrow> Sender \<Rightarrow> sent option" where
  "sendUDP n buf s =
     (let (s1, err, ws) = (if se_udpConn s then (s, None, []) else dialUDP n s)
      in case err of
           Some e \<Rightarrow> Some (s1, Some e, ws)
         | None \<Rightarrow>
             if \<not> se_udpConn s1 then None
             else case nt_writeUDP n of
                 None \<Rightarrow> Some (s1, None, ws @ [WroteUDP buf])
               | Some e \<Rightarrow>
                   let (s2, ws2) = (if isPathError e then closeUDP s1 else (s1, []))
                   in Some (s2, Some (UDPWrite (se_addr s) e), ws @ ws2))"

definition sendTCP :: "net \<Rightarrow> byte list \<Rightarrow> Sender \<Rightarrow> sent" where
  "sendTCP n buf s =
     (let dial = (if se_tcpConn s then None else nt_dialTCP n);
          ws = (if se_tcpConn s then [] else [DialTCP])
      in case dial of
           Some e \<Rightarrow> (s, Some (TCPDial (se_addr s) e), ws)
         | None \<Rightarrow>
             let s1 = s\<lparr>se_tcpConn := True\<rparr>
             in case nt_deadline n of
                  Some e \<Rightarrow> let (s2, ws2) = closeTCP s1 in (s2, Some (SetDeadline e), ws @ ws2)
                | None \<Rightarrow>
                    (case nt_writeTCP n of
                       Some e \<Rightarrow> let (s2, ws2) = closeTCP s1 in (s2, Some (TCPWrite e), ws @ ws2)
                     | None \<Rightarrow> (s1, None, ws @ [WroteTCP buf])))"

definition SendRaw :: "net \<Rightarrow> byte list \<Rightarrow> Sender \<Rightarrow> sent option" where
  "SendRaw n buf s =
     (if se_proto s = ''udp'' then sendUDP n buf s
      else if se_proto s = ''tcp'' then Some (sendTCP n buf s)
      else Some (s, Some (UnknownProtocol (se_proto s)), []))"

definition Send :: "net \<Rightarrow> byte list \<Rightarrow> Frame \<Rightarrow> Sender \<Rightarrow> sent option" where
  "Send n raw f s =
     (let buf = (if se_stripHeader s then fr_Payload f else raw)
      in if se_proto s = ''udp'' then sendUDP n buf s
         else if se_proto s = ''tcp'' then Some (sendTCP n buf s)
         else Some (s, Some (UnknownProtocol (se_proto s)), []))"

definition SendBlock :: "objfmt_common \<Rightarrow> net \<Rightarrow> byte list \<Rightarrow> BlockFrame \<Rightarrow> Sender \<Rightarrow> sent option" where
  "SendBlock oc n raw bf s =
     (case (if se_stripHeader s then oc_StripBlock oc raw else Inr raw) of
        Inl m \<Rightarrow> Some (s, Some (StripError ''block'' m), [])
      | Inr buf \<Rightarrow>
          if se_proto s = ''udp'' then sendUDP n buf s
          else if se_proto s = ''tcp'' then Some (sendTCP n buf s)
          else Some (s, Some (UnknownProtocol (se_proto s)), []))"

definition SendSubtreeData :: "objfmt_common \<Rightarrow> net \<Rightarrow> byte list \<Rightarrow> SubtreeDataFrame \<Rightarrow> Sender \<Rightarrow> sent option" where
  "SendSubtreeData oc n raw sf s =
     (case (if se_stripHeader s then oc_StripSubtree oc raw else Inr raw) of
        Inl m \<Rightarrow> Some (s, Some (StripError ''subtree'' m), [])
      | Inr buf \<Rightarrow>
          if se_proto s = ''udp'' then sendUDP n buf s
          else if se_proto s = ''tcp'' then Some (sendTCP n buf s)
          else Some (s, Some (UnknownProtocol (se_proto s)), []))"

definition SendBeef :: "objfmt_common \<Rightarrow> net \<Rightarrow> byte list \<Rightarrow> BEEFFrame \<Rightarrow> Sender \<Rightarrow> sent option" where
  "SendBeef oc n raw bf s =
     (let buf = (if se_stripHeader s then oc_EncodeBEEFDelivery oc (be_TopicID bf) (be_Payload bf) else raw)
      in if se_proto s = ''udp'' then sendUDP n buf s
         else if se_proto s = ''tcp'' then Some (sendTCP n buf s)
         else Some (s, Some (UnknownProtocol (se_proto s)), []))"

definition Close :: "net \<Rightarrow> Sender \<Rightarrow> sent" where
  "Close n s =
     (if se_udpConn s then (s\<lparr>se_udpConn := False\<rparr>, map_option UDPClose (nt_closeUDP n), [ClosedUDP])
      else let (s', ws) = closeTCP s in (s', None, ws))"

section \<open>Several destinations\<close>

text \<open>The outcome of a system call on destination \<open>i\<close> is that of network \<open>ns i\<close>.\<close>

record MultiSender =
  ms_senders :: "Sender list"
  ms_proto :: string

primrec multi_loop :: "(net \<Rightarrow> Sender \<Rightarrow> sent option) \<Rightarrow> (nat \<Rightarrow> net) \<Rightarrow> nat \<Rightarrow> Sender list \<Rightarrow>
    (Sender list \<times> egress_error list \<times> (nat \<times> wire) list) option" where
  "multi_loop fn ns i [] = Some ([], [], [])"
| "multi_loop fn ns i (s # ss) =
     do { (s', e, ws) \<leftarrow> fn (ns i) s;
          (ss', es, wss) \<leftarrow> multi_loop fn ns (Suc i) ss;
          Some (s' # ss', (case e of Some x \<Rightarrow> [x] | None \<Rightarrow> []) @ es, map (Pair i) ws @ wss) }"

definition multi_fanout :: "(net \<Rightarrow> Sender \<Rightarrow> sent option) \<Rightarrow> (nat \<Rightarrow> net) \<Rightarrow> MultiSender \<Rightarrow>
    (MultiSender \<times> egress_error option \<times> (nat \<times> wire) list) option" where
  "multi_fanout fn ns m =
     do { (ss, es, ws) \<leftarrow> multi_loop fn ns 0 (ms_senders m);
          Some (m\<lparr>ms_senders := ss\<rparr>, (if es = [] then None else Some (Joined es)), ws) }"

definition Send_Multi where
  "Send_Multi ns raw f = multi_fanout (\<lambda>n. Send n raw f) ns"

definition SendBlock_Multi where
  "SendBlock_Multi oc ns raw bf = multi_fanout (\<lambda>n. SendBlock oc n raw bf) ns"

definition SendSubtreeData_Multi where
  "SendSubtreeData_Multi oc ns raw sf = multi_fanout (\<lambda>n. SendSubtreeData oc n raw sf) ns"

definition SendBeef_Multi where
  "SendBeef_Multi oc ns raw bf = multi_fanout (\<lambda>n. SendBeef oc n raw bf) ns"

definition SendRaw_Multi where
  "SendRaw_Multi ns buf = multi_fanout (\<lambda>n. SendRaw n buf) ns"

definition Close_Multi where
  "Close_Multi ns = multi_fanout (\<lambda>n s. Some (Close n s)) ns"

definition Dests :: "MultiSender \<Rightarrow> nat" where
  "Dests m = length (ms_senders m)"

text \<open>\<^verbatim>\<open>strings.TrimSpace\<close> on ASCII text.\<close>

definition is_space :: "char \<Rightarrow> bool" where
  "is_space c = (let n = of_char c :: nat in n = 32 \<or> 9 \<le> n \<and> n \<le> 13)"

definition TrimSpace :: "string \<Rightarrow> string" where
  "TrimSpace s = rev (dropWhile is_space (rev (dropWhile is_space s)))"

text \<open>On a bad address the senders made so far are closed; \<open>Inl\<close> carries what that did.\<close>

primrec new_multi_loop :: "(nat \<Rightarrow> net) \<Rightarrow> string \<Rightarrow> nat \<Rightarrow> string list \<Rightarrow> MultiSender \<Rightarrow>
    (egress_error \<times> MultiSender) + MultiSender" where
  "new_multi_loop ns proto i [] m = Inr m"
| "new_multi_loop ns proto i (a # as) m =
     (if TrimSpace a = [] then new_multi_loop ns proto (Suc i) as m
      else case New_Sender (ns i) (TrimSpace a) proto False of
             Inl e \<Rightarrow> Inl (e, m)
           | Inr s \<Rightarrow> new_multi_loop ns proto (Suc i) as (m\<lparr>ms_senders := ms_senders m @ [s]\<rparr>))"

definition NewMulti :: "(nat \<Rightarrow> net) \<Rightarrow> string list \<Rightarrow> string \<Rightarrow> (egress_error \<times> (nat \<times> wire) list) + MultiSender" where
  "NewMulti ns addrs proto =
     (case new_multi_loop ns proto 0 addrs \<lparr>ms_senders = [], ms_proto = proto\<rparr> of
        Inl (e, m) \<Rightarrow> Inl (e, case Close_Multi ns m of None \<Rightarrow> [] | Some (m', e', ws) \<Rightarrow> ws)
      | Inr m \<Rightarrow> if ms_senders m = [] then Inl (NoAddresses, []) else Inr m)"

section \<open>Multicast sender\<close>

record MCastSender =
  mc_addrTemplate :: "byte list"
  mc_egressPort :: int

definition NewMCast :: "neterr option \<Rightarrow> neterr option \<Rightarrow> neterr option \<Rightarrow> neterr option \<Rightarrow> u16 \<Rightarrow> u16 \<Rightarrow> int \<Rightarrow>
    egress_error + MCastSender" where
  "NewMCast sock mif hops loop mcPrefix groupID port =
     (case sock of Some e \<Rightarrow> Inl (Socket ''socket'' e) | None \<Rightarrow>
      case mif of Some e \<Rightarrow> Inl (Socket ''IPV6_MULTICAST_IF'' e) | None \<Rightarrow>
      case hops of Some e \<Rightarrow> Inl (Socket ''IPV6_MULTICAST_HOPS'' e) | None \<Rightarrow>
      case loop of Some e \<Rightarrow> Inl (Socket ''IPV6_MULTICAST_LOOP'' e) | None \<Rightarrow>
      Inr \<lparr>mc_addrTemplate = put_at 12 (be16 groupID) (put_at 0 (be16 mcPrefix) (replicate 16 0)), mc_egressPort = port\<rparr>)"

definition mc_emit :: "neterr option \<Rightarrow> byte \<Rightarrow> byte \<Rightarrow> byte list \<Rightarrow> MCastSender \<Rightarrow>
    MCastSender \<times> egress_error option \<times> (byte list \<times> int \<times> byte list)" where
  "mc_emit out hi lo buf s =
     (let s' = s\<lparr>mc_addrTemplate := (mc_addrTemplate s)[14 := hi, 15 := lo]\<rparr>
      in (s', map_option Sendto out, (mc_addrTemplate s', mc_egressPort s', buf)))"

definition Send_MCast where
  "Send_MCast out raw f (groupIdx :: u32) s = mc_emit out (ucast (drop_bit 8 groupIdx)) (ucast groupIdx) raw s"

definition SendToGroup where
  "SendToGroup out buf (groupIdx :: u16) s = mc_emit out (ucast (drop_bit 8 groupIdx)) (ucast groupIdx) buf s"

section \<open>Bundles into a plain sink\<close>

primrec deliver_members :: "objfmt_common \<Rightarrow> nat \<Rightarrow> 'w EgressSink \<Rightarrow> Frame list \<Rightarrow> egress_error option \<Rightarrow> 'w send" where
  "deliver_members oc hs sink [] err w = Some (w, err)"
| "deliver_members oc hs sink (mf # mfs) err w =
     (case oc_Encode oc mf (replicate (hs + length (fr_Payload mf)) 0) of
        Inl m \<Rightarrow> deliver_members oc hs sink mfs (first_error err (Some (EncodeError m))) w
      | Inr (buf, n) \<Rightarrow>
          do { (w', e) \<leftarrow> es_Send sink (take n buf) mf w;
               deliver_members oc hs sink mfs (first_error err e) w' })"

definition DeliverBundle :: "objfmt_common \<Rightarrow> shard_common \<Rightarrow> 'w EgressSink \<Rightarrow> byte list \<Rightarrow> Bundle \<Rightarrow> 'w send" where
  "DeliverBundle oc sc sink raw b w =
     (case es_SendBundle sink of
        Some sb \<Rightarrow> sb raw b w
      | None \<Rightarrow> deliver_members oc (sc_HeaderSize sc) sink (oc_Decoalesce oc b) None w)"

end
