(* ===== verification/Fanout.thy ===== *)
theory Fanout
  imports Egress
begin

text \<open>
  The subscription-indexed fan-out of \<^verbatim>\<open>fanout/fanout.go\<close>: the consumer table and its shard
  reverse index, routing of transactions, BEEF objects and bundles, own-traffic exclusion, the
  per-flow re-stamping of decoalesced members, and the broadcast of control frames.

  Consumers carry sinks that act on a world of arbitrary type \<open>'w\<close>; observers are functions on that
  world. The group derivations of the two shard engines, the flow hash of \<^verbatim>\<open>seqhash\<close> and the object
  formats are arguments. One frame is filtered at one reading \<open>now\<close> of the clock. A nil Go map is
  the empty association list.
\<close>

section \<open>Consumers and the sink\<close>

record 'w Consumer =
  cn_ID :: string
  cn_Shards :: "u32 list"
  cn_Filt :: "Filter option"
  cn_Sink :: "'w EgressSink"
  cn_OwnIngressIP :: id16
  cn_BundleCapable :: bool
  cn_IngressObs :: "(nat \<Rightarrow> nat \<Rightarrow> 'w \<Rightarrow> 'w) option"
  cn_TopicSet :: "id32 list"
  cn_AllTopics :: bool
  cn_BEEFVersions :: "u32 list"
  cn_BEEFObs :: "(string \<Rightarrow> nat \<Rightarrow> 'w \<Rightarrow> 'w) option"

definition FilterTopic :: string where "FilterTopic = ''topic''"
definition FilterVersion :: string where "FilterVersion = ''version''"

record 'w Sink =
  sk_engine :: "id32 \<Rightarrow> u32"
  sk_beefEngine :: "(id32 \<Rightarrow> u32) option"
  sk_consumers :: "'w Consumer list"
  sk_byShard :: "(u32 \<times> 'w Consumer list) list"
  sk_allShards :: "'w Consumer list"
  sk_egressSeq :: "(u64 \<times> u64) list"

text \<open>What the fan-out calls in shard-common besides the object formats.\<close>

record fanout_common =
  fc_sc :: shard_common
  fc_oc :: objfmt_common
  fc_Hash :: "id16 \<Rightarrow> u32 \<Rightarrow> id32 \<Rightarrow> u64"

definition New_Fanout :: "(id32 \<Rightarrow> u32) \<Rightarrow> 'w Sink" where
  "New_Fanout engine = \<lparr>sk_engine = engine, sk_beefEngine = None, sk_consumers = [], sk_byShard = [],
     sk_allShards = [], sk_egressSeq = []\<rparr>"

definition SetBEEFEngine :: "(id32 \<Rightarrow> u32) option \<Rightarrow> 'w Sink \<Rightarrow> 'w Sink" where
  "SetBEEFEngine pe s = s\<lparr>sk_beefEngine := pe\<rparr>"

definition map_slice :: "'k \<Rightarrow> ('k \<times> 'v list) list \<Rightarrow> 'v list" where
  "map_slice k m = (case map_of m k of None \<Rightarrow> [] | Some xs \<Rightarrow> xs)"

primrec index_shards :: "'w Consumer \<Rightarrow> u32 list \<Rightarrow> (u32 \<times> 'w Consumer list) list \<Rightarrow> (u32 \<times> 'w Consumer list) list" where
  "index_shards c [] m = m"
| "index_shards c (sh # shs) m = index_shards c shs (map_put sh (map_slice sh m @ [c]) m)"

primrec index_consumers :: "'w Consumer list \<Rightarrow> (u32 \<times> 'w Consumer list) list \<times> 'w Consumer list \<Rightarrow>
    (u32 \<times> 'w Consumer list) list \<times> 'w Consumer list" where
  "index_consumers [] st = st"
| "index_consumers (c # cs) st =
     (let (m, al) = st
      in if cn_Shards c = [] then index_consumers cs (m, al @ [c])
         else index_consumers cs (index_shards c (cn_Shards c) m, al))"

definition Apply :: "'w Consumer list \<Rightarrow> 'w Sink \<Rightarrow> 'w Sink" where
  "Apply cs s =
     (let (byShard, allShards) = index_consumers cs ([], [])
      in s\<lparr>sk_consumers := cs, sk_byShard := byShard, sk_allShards := allShards\<rparr>)"

section \<open>Delivery to one consumer after another\<close>

primrec each :: "('c \<Rightarrow> 's \<Rightarrow> 's option) \<Rightarrow> 'c list \<Rightarrow> 's \<Rightarrow> 's option" where
  "each d [] st = Some st"
| "each d (c # cs) st = d c st \<bind> each d cs"

definition note_err :: "egress_error option \<Rightarrow> egress_error option \<Rightarrow> egress_error option" where
  "note_err firstErr e =
     (case e of Some x \<Rightarrow> if firstErr = None \<and> \<not> IsNotElected x then Some x else firstErr | None \<Rightarrow> firstErr)"

text \<open>One call of a sink, its error folded into the first real one.\<close>

definition call_sink :: "'w send \<Rightarrow> 'w \<times> egress_error option \<Rightarrow> ('w \<times> egress_error option) option" where
  "call_sink send = (\<lambda>(w, err). do { (w', e) \<leftarrow> send w; Some (w', note_err err e) })"

definition observe_ingress :: "'w Consumer \<Rightarrow> nat \<Rightarrow> nat \<Rightarrow> 'w \<Rightarrow> 'w" where
  "observe_ingress c wire members w = (case cn_IngressObs c of None \<Rightarrow> w | Some ob \<Rightarrow> ob wire members w)"

definition observe_beef :: "'w Consumer \<Rightarrow> string \<Rightarrow> nat \<Rightarrow> 'w \<Rightarrow> 'w" where
  "observe_beef c reason wire w = (case cn_BEEFObs c of None \<Rightarrow> w | Some ob \<Rightarrow> ob reason wire w)"

definition isOwnTraffic :: "fanout_common \<Rightarrow> 'w Consumer \<Rightarrow> u32 \<Rightarrow> Frame \<Rightarrow> bool" where
  "isOwnTraffic fc c groupIdx f =
     (if cn_OwnIngressIP c = 0 \<or> fr_Version f \<noteq> sc_FrameVerV2 (fc_sc fc) then False
      else fr_HashKey f = fc_Hash fc (cn_OwnIngressIP c) groupIdx (fr_SubtreeID f))"

definition isOwnBundle :: "fanout_common \<Rightarrow> 'w Consumer \<Rightarrow> u32 \<Rightarrow> Bundle \<Rightarrow> bool" where
  "isOwnBundle fc c groupIdx b =
     (if cn_OwnIngressIP c = 0 then False
      else bu_HashKey b = fc_Hash fc (cn_OwnIngressIP c) groupIdx (bu_SubtreeID b))"

definition isOwnBeef :: "fanout_common \<Rightarrow> 'w Consumer \<Rightarrow> u32 \<Rightarrow> BEEFFrame \<Rightarrow> bool" where
  "isOwnBeef fc c groupIdx bf =
     (if cn_OwnIngressIP c = 0 \<or> be_HashKey bf = 0 then False
      else be_HashKey bf = fc_Hash fc (cn_OwnIngressIP c) groupIdx 0)"

definition filt_allows :: "gtime \<Rightarrow> u32 \<Rightarrow> Frame \<Rightarrow> 'w Consumer \<Rightarrow> bool" where
  "filt_allows now groupIdx f c = (case cn_Filt c of None \<Rightarrow> True | Some fl \<Rightarrow> fst (Allow now groupIdx f fl))"

section \<open>Transactions\<close>

definition deliver_tx :: "fanout_common \<Rightarrow> gtime \<Rightarrow> u32 \<Rightarrow> byte list \<Rightarrow> Frame \<Rightarrow> 'w Consumer \<Rightarrow>
    'w \<times> egress_error option \<Rightarrow> ('w \<times> egress_error option) option" where
  "deliver_tx fc now groupIdx raw f c st =
     (if \<not> filt_allows now groupIdx f c then Some st
      else if isOwnTraffic fc c groupIdx f then Some (observe_ingress c (length raw) 1 (fst st), snd st)
      else call_sink (es_Send (cn_Sink c) raw f) st)"

definition Send_Fanout :: "fanout_common \<Rightarrow> gtime \<Rightarrow> byte list \<Rightarrow> Frame \<Rightarrow> 'w Sink \<Rightarrow> 'w send" where
  "Send_Fanout fc now raw f s w =
     (let groupIdx = sk_engine s (fr_TxID f)
      in each (deliver_tx fc now groupIdx raw f) (map_slice groupIdx (sk_byShard s)) (w, None)
         \<bind> each (deliver_tx fc now groupIdx raw f) (sk_allShards s))"

section \<open>BEEF objects\<close>

primrec first_elected :: "id32 list \<Rightarrow> id32 list \<Rightarrow> id32 option" where
  "first_elected topics [] = None"
| "first_elected topics (i # is) = (if i \<in> set topics then Some i else first_elected topics is)"

definition version_accepted :: "objfmt_common \<Rightarrow> byte list \<Rightarrow> 'w Consumer \<Rightarrow> bool" where
  "version_accepted oc object c =
     (if length (cn_BEEFVersions c) > 0
      then (case oc_BEEFVersionWord oc object of None \<Rightarrow> False | Some wd \<Rightarrow> wd \<in> set (cn_BEEFVersions c))
      else True)"

definition deliver_beef :: "fanout_common \<Rightarrow> u32 \<Rightarrow> id32 list \<Rightarrow> byte list \<Rightarrow> byte list \<Rightarrow> BEEFFrame \<Rightarrow> 'w Consumer \<Rightarrow>
    'w \<times> egress_error option \<Rightarrow> ('w \<times> egress_error option) option" where
  "deliver_beef fc groupIdx deliverable object raw bf c st =
     (let (w, err) = st in
      case (if cn_AllTopics c then Some (be_TopicID bf) else first_elected (cn_TopicSet c) deliverable) of
        None \<Rightarrow> Some (observe_beef c FilterTopic (length raw) w, err)
      | Some matched \<Rightarrow>
          if \<not> version_accepted (fc_oc fc) object c then Some (observe_beef c FilterVersion (length raw) w, err)
          else if isOwnBeef fc c groupIdx bf then Some (observe_ingress c (length raw) 1 w, err)
          else let out = (if matched \<noteq> be_TopicID bf then bf\<lparr>be_TopicID := matched\<rparr> else bf)
               in call_sink (es_SendBeef (cn_Sink c) raw out) st)"

definition beef_object :: "objfmt_common \<Rightarrow> BEEFFrame \<Rightarrow> byte list" where
  "beef_object oc bf = (case oc_SplitBEEFPayload oc (be_Payload bf) of None \<Rightarrow> be_Payload bf | Some ob \<Rightarrow> ob)"

definition SendBeef_Fanout :: "fanout_common \<Rightarrow> byte list \<Rightarrow> BEEFFrame \<Rightarrow> 'w Sink \<Rightarrow> 'w send" where
  "SendBeef_Fanout fc raw bf s w =
     (case sk_beefEngine s of
        None \<Rightarrow> Some (w, Some ErrBEEFEngineUnset)
      | Some pe \<Rightarrow>
          let groupIdx = pe (be_TopicID bf);
              deliver = deliver_beef fc groupIdx (oc_DeliverableTopicIDs (fc_oc fc) bf) (beef_object (fc_oc fc) bf) raw bf
          in each deliver (map_slice groupIdx (sk_byShard s)) (w, None) \<bind> each deliver (sk_allShards s))"

section \<open>Bundles\<close>

text \<open>Members that fail to re-encode are skipped; the sequence has advanced all the same.\<close>

primrec restamp :: "objfmt_common \<Rightarrow> nat \<Rightarrow> u64 \<Rightarrow> Frame list \<Rightarrow> (u64 \<times> u64) list \<Rightarrow> (u64 \<times> u64) list \<times> (byte list \<times> Frame) list" where
  "restamp oc hs key [] seqs = (seqs, [])"
| "restamp oc hs key (mf # mfs) seqs =
     (let n = (case map_of seqs key of None \<Rightarrow> 0 | Some x \<Rightarrow> x) + 1;
          mf' = mf\<lparr>fr_SeqNum := n\<rparr>;
          (seqs', out) = restamp oc hs key mfs (map_put key n seqs)
      in (seqs', case oc_Encode oc mf' (replicate (hs + length (fr_Payload mf')) 0) of
                   Inl e \<Rightarrow> out
                 | Inr (buf, k) \<Rightarrow> (take k buf, mf') # out))"

definition decoalesce :: "fanout_common \<Rightarrow> Bundle \<Rightarrow> (u64 \<times> u64) list \<Rightarrow> (u64 \<times> u64) list \<times> (byte list \<times> Frame) list" where
  "decoalesce fc b seqs =
     restamp (fc_oc fc) (sc_HeaderSize (fc_sc fc)) (bu_HashKey b) (oc_Decoalesce (fc_oc fc) b) seqs"

text \<open>The state of one \<^verbatim>\<open>SendBundle\<close>: world and error, the shared members once split, the sequences.\<close>

type_synonym 'w bundling = "('w \<times> egress_error option) \<times> (byte list \<times> Frame) list option \<times> (u64 \<times> u64) list"

definition deliver_bundle :: "fanout_common \<Rightarrow> gtime \<Rightarrow> u32 \<Rightarrow> Frame \<Rightarrow> byte list \<Rightarrow> Bundle \<Rightarrow> 'w Consumer \<Rightarrow>
    'w bundling \<Rightarrow> 'w bundling option" where
  "deliver_bundle fc now groupIdx probe raw b c st =
     (let (we, members, seqs) = st in
      if \<not> filt_allows now groupIdx probe c then Some st
      else if isOwnBundle fc c groupIdx b
      then Some ((observe_ingress c (length raw) (length (bu_Members b)) (fst we), snd we), members, seqs)
      else case (if cn_BundleCapable c then es_SendBundle (cn_Sink c) else None) of
             Some sb \<Rightarrow> do { we' \<leftarrow> call_sink (sb raw b) we; Some (we', members, seqs) }
           | None \<Rightarrow>
               let (seqs', ms) = (case members of None \<Rightarrow> decoalesce fc b seqs | Some ms \<Rightarrow> (seqs, ms))
               in do { we' \<leftarrow> each (\<lambda>(r, f). call_sink (es_Send (cn_Sink c) r f)) ms we; Some (we', Some ms, seqs') })"

definition bundle_probe :: "fanout_common \<Rightarrow> Bundle \<Rightarrow> Frame" where
  "bundle_probe fc b = \<lparr>fr_Version = sc_FrameVerV2 (fc_sc fc), fr_TxID = 0, fr_SubtreeID = bu_SubtreeID b,
     fr_HashKey = bu_HashKey b, fr_SeqNum = 0, fr_Payload = []\<rparr>"

definition SendBundle_Fanout :: "fanout_common \<Rightarrow> gtime \<Rightarrow> byte list \<Rightarrow> Bundle \<Rightarrow> 'w Sink \<Rightarrow> 'w \<Rightarrow>
    ('w Sink \<times> 'w \<times> egress_error option) option" where
  "SendBundle_Fanout fc now raw b s w =
     (let groupIdx = ucast (bu_GroupIdx b); deliver = deliver_bundle fc now groupIdx (bundle_probe fc b) raw b
      in do { st \<leftarrow> each deliver (map_slice groupIdx (sk_byShard s)) ((w, None), None, sk_egressSeq s);
              ((w', err), ms, seqs) \<leftarrow> each deliver (sk_allShards s) st;
              Some (s\<lparr>sk_egressSeq := seqs\<rparr>, w', err) })"

section \<open>Broadcast\<close>

definition broadcast :: "('w Consumer \<Rightarrow> 'w send) \<Rightarrow> 'w Sink \<Rightarrow> 'w send" where
  "broadcast send s w = each (\<lambda>c. call_sink (send c)) (sk_consumers s) (w, None)"

definition SendBlock_Fanout :: "byte list \<Rightarrow> BlockFrame \<Rightarrow> 'w Sink \<Rightarrow> 'w send" where
  "SendBlock_Fanout raw bf = broadcast (\<lambda>c. es_SendBlock (cn_Sink c) raw bf)"

definition SendSubtreeData_Fanout :: "byte list \<Rightarrow> SubtreeDataFrame \<Rightarrow> 'w Sink \<Rightarrow> 'w send" where
  "SendSubtreeData_Fanout raw sf = broadcast (\<lambda>c. es_SendSubtreeData (cn_Sink c) raw sf)"

definition SendRaw_Fanout :: "byte list \<Rightarrow> 'w Sink \<Rightarrow> 'w send" where
  "SendRaw_Fanout buf = broadcast (\<lambda>c. es_SendRaw (cn_Sink c) buf)"

definition deliver_header :: "byte list \<Rightarrow> Frame \<Rightarrow> 'w Consumer \<Rightarrow> nat \<times> 'w \<times> egress_error option \<Rightarrow>
    (nat \<times> 'w \<times> egress_error option) option" where
  "deliver_header raw hf c st =
     (let (n, w, err) = st in
      case es_SendHeader (cn_Sink c) of
        None \<Rightarrow> Some st
      | Some sh \<Rightarrow> do { (w', e) \<leftarrow> sh raw hf w; Some (if e = None then n + 1 else n, w', note_err err e) })"

definition SendHeaderN :: "byte list \<Rightarrow> Frame \<Rightarrow> 'w Sink \<Rightarrow> 'w \<Rightarrow> ('w \<times> nat \<times> egress_error option) option" where
  "SendHeaderN raw hf s w =
     do { (n, w', err) \<leftarrow> each (deliver_header raw hf) (sk_consumers s) (0, w, None); Some (w', n, err) }"

definition SendHeader :: "byte list \<Rightarrow> Frame \<Rightarrow> 'w Sink \<Rightarrow> 'w send" where
  "SendHeader raw hf s w = do { (w', n, err) \<leftarrow> SendHeaderN raw hf s w; Some (w', err) }"

definition Close_Fanout :: "'w Sink \<Rightarrow> 'w send" where
  "Close_Fanout s w =
     each (\<lambda>c (w, err). do { (w', e) \<leftarrow> es_Close (cn_Sink c) w; Some (w', first_error err e) }) (sk_consumers s) (w, None)"

end
