(* ===== verification/Fanout_Routing.thy ===== *)
theory Fanout_Routing
  imports Fanout
begin

text \<open>
  The reverse index is invisible: routing through it delivers to the consumers a scan of the whole
  table would find, in a fixed order; and the sequence numbers put on decoalesced members.
\<close>

section \<open>The index against the table\<close>

lemma each_append: "each d (xs @ ys) st = each d xs st \<bind> each d ys"
proof (induction xs arbitrary: st)
  case (Cons x xs)
  then show ?case by (cases "d x st") simp_all
qed simp

lemma map_slice_put [simp]: "map_slice k (map_put k' v m) = (if k = k' then v else map_slice k m)"
  by (simp add: map_slice_def)

lemma index_shards_slice: "map_slice g (index_shards c shs m) = map_slice g m @ replicate (count_list shs g) c"
  by (induction shs arbitrary: m) (auto simp: replicate_app_Cons_same)

definition listed :: "u32 \<Rightarrow> 'w Consumer list \<Rightarrow> 'w Consumer list" where
  "listed g cs = concat (map (\<lambda>c. replicate (count_list (cn_Shards c) g) c) cs)"

abbreviation unrestricted :: "'w Consumer list \<Rightarrow> 'w Consumer list" where
  "unrestricted cs \<equiv> filter (\<lambda>c. cn_Shards c = []) cs"

lemma index_consumers_slices:
  "map_slice g (fst (index_consumers cs (m, al))) = map_slice g m @ listed g cs \<and>
   snd (index_consumers cs (m, al)) = al @ unrestricted cs"
  by (induction cs arbitrary: m al) (auto simp: listed_def index_shards_slice)

lemma Apply_sel [simp]:
  "map_slice g (sk_byShard (Apply cs s)) = listed g cs" "sk_allShards (Apply cs s) = unrestricted cs"
  "sk_consumers (Apply cs s) = cs" "sk_engine (Apply cs s) = sk_engine s" "sk_beefEngine (Apply cs s) = sk_beefEngine s"
  "sk_egressSeq (Apply cs s) = sk_egressSeq s"
  using index_consumers_slices [of g cs "[]" "[]"]
  by (simp_all add: Apply_def split_beta map_slice_def)

lemma listed_distinct:
  assumes "\<forall>c\<in>set cs. distinct (cn_Shards c)"
  shows "listed g cs = filter (\<lambda>c. g \<in> set (cn_Shards c)) cs"
proof -
  have "count_list xs g = (if g \<in> set xs then 1 else 0)" if "distinct xs" for xs :: "u32 list"
    using that by (induction xs) auto
  then show ?thesis using assms by (induction cs) (auto simp: listed_def)
qed

text \<open>
  C32. Routing through the reverse index equals a scan of the table. Whatever table was applied
  last, a transaction, a BEEF object or a bundle of group \<open>g\<close> is offered first to the consumers that
  list \<open>g\<close>, in table order and once per listing, and then to those that list no shard, in table
  order: to nobody else, and by the same per-consumer step in every case.
\<close>

theorem fanout_index_equals_scan:
  "Send_Fanout fc now raw f (Apply cs s) w =
     (let g = sk_engine s (fr_TxID f) in each (deliver_tx fc now g raw f) (listed g cs @ unrestricted cs) (w, None)) \<and>
   SendBeef_Fanout fc raw bf (Apply cs s) w =
     (case sk_beefEngine s of None \<Rightarrow> Some (w, Some ErrBEEFEngineUnset)
      | Some pe \<Rightarrow> let g = pe (be_TopicID bf) in
          each (deliver_beef fc g (oc_DeliverableTopicIDs (fc_oc fc) bf) (beef_object (fc_oc fc) bf) raw bf)
            (listed g cs @ unrestricted cs) (w, None)) \<and>
   map_option snd (SendBundle_Fanout fc now raw b (Apply cs s) w) =
     (let g = ucast (bu_GroupIdx b) in
      map_option fst (each (deliver_bundle fc now g (bundle_probe fc b) raw b) (listed g cs @ unrestricted cs)
        ((w, None), None, sk_egressSeq s)))"
proof (intro conjI)
  show "map_option snd (SendBundle_Fanout fc now raw b (Apply cs s) w) =
     (let g = ucast (bu_GroupIdx b) in
      map_option fst (each (deliver_bundle fc now g (bundle_probe fc b) raw b) (listed g cs @ unrestricted cs)
        ((w, None), None, sk_egressSeq s)))"
    by (simp add: SendBundle_Fanout_def Let_def each_append split: bind_splits)
qed (simp_all add: Send_Fanout_def SendBeef_Fanout_def Let_def each_append split: option.split)

section \<open>Members of a bundle\<close>

abbreviation flow_seq :: "u64 \<Rightarrow> (u64 \<times> u64) list \<Rightarrow> u64" where
  "flow_seq k seqs \<equiv> (case map_of seqs k of None \<Rightarrow> 0 | Some n \<Rightarrow> n)"

definition encoded :: "objfmt_common \<Rightarrow> nat \<Rightarrow> Frame \<Rightarrow> (byte list \<times> Frame) option" where
  "encoded oc hs mf = (case oc_Encode oc mf (replicate (hs + length (fr_Payload mf)) 0) of
     Inl e \<Rightarrow> None | Inr (buf, k) \<Rightarrow> Some (take k buf, mf))"

definition stamped :: "u64 \<Rightarrow> Frame list \<Rightarrow> Frame list" where
  "stamped n mfs = map (\<lambda>i. (mfs ! i)\<lparr>fr_SeqNum := n + of_nat (Suc i)\<rparr>) [0..<length mfs]"

lemma stamped_Cons: "stamped n (mf # mfs) = mf\<lparr>fr_SeqNum := n + 1\<rparr> # stamped (n + 1) mfs"
  by (simp add: stamped_def upt_conv_Cons map_Suc_upt [symmetric] o_def algebra_simps del: upt_Suc)

lemma restamp_correct:
  assumes "restamp oc hs k mfs seqs = (seqs', out)"
  shows "out = List.map_filter (encoded oc hs) (stamped (flow_seq k seqs) mfs) \<and>
    flow_seq k seqs' = flow_seq k seqs + of_nat (length mfs) \<and> (\<forall>k'. k' \<noteq> k \<longrightarrow> map_of seqs' k' = map_of seqs k')"
  using assms
proof (induction mfs arbitrary: seqs seqs' out)
  case Nil
  then show ?case by (simp add: stamped_def List.map_filter_simps)
next
  case (Cons mf mfs)
  let ?n = "flow_seq k seqs + 1"
  obtain q o' where r: "restamp oc hs k mfs (map_put k ?n seqs) = (q, o')" by (cases "restamp oc hs k mfs (map_put k ?n seqs)")
  from Cons.IH [OF r] show ?case
    using Cons.prems r
    by (auto simp: Let_def stamped_Cons List.map_filter_simps encoded_def split: sum.splits)
qed

definition needs_members :: "fanout_common \<Rightarrow> gtime \<Rightarrow> u32 \<Rightarrow> Bundle \<Rightarrow> 'w Consumer \<Rightarrow> bool" where
  "needs_members fc now g b c \<longleftrightarrow> filt_allows now g (bundle_probe fc b) c \<and> \<not> isOwnBundle fc c g b \<and>
     \<not> (cn_BundleCapable c \<and> es_SendBundle (cn_Sink c) \<noteq> None)"

text \<open>What one consumer gets when the members are given.\<close>

definition offer_bundle :: "fanout_common \<Rightarrow> gtime \<Rightarrow> u32 \<Rightarrow> byte list \<Rightarrow> Bundle \<Rightarrow> (byte list \<times> Frame) list \<Rightarrow> 'w Consumer \<Rightarrow>
    'w \<times> egress_error option \<Rightarrow> ('w \<times> egress_error option) option" where
  "offer_bundle fc now g raw b ms c st =
     (if \<not> filt_allows now g (bundle_probe fc b) c then Some st
      else if isOwnBundle fc c g b then Some (observe_ingress c (length raw) (length (bu_Members b)) (fst st), snd st)
      else if needs_members fc now g b c then each (\<lambda>(r, f). call_sink (es_Send (cn_Sink c) r f)) ms st
      else call_sink (the (es_SendBundle (cn_Sink c)) raw b) st)"

lemma deliver_bundle_offer:
  assumes "decoalesce fc b seqs = (seqs', ms)"
  shows "deliver_bundle fc now g (bundle_probe fc b) raw b c (st, if started then (Some ms, seqs') else (None, seqs)) =
    map_option (\<lambda>st'. (st', if started \<or> needs_members fc now g b c then (Some ms, seqs') else (None, seqs)))
      (offer_bundle fc now g raw b ms c st)"
  using assms
  by (cases started; cases "cn_BundleCapable c"; cases "es_SendBundle (cn_Sink c)")
    (auto simp: deliver_bundle_def offer_bundle_def needs_members_def Let_def map_option_bind option.map_comp
      bind_map_option comp_def map_conv_bind_option split: prod.splits)

lemma each_bundle_offer:
  assumes "decoalesce fc b seqs = (seqs', ms)"
  shows "each (deliver_bundle fc now g (bundle_probe fc b) raw b) cs (st, if started then (Some ms, seqs') else (None, seqs)) =
    map_option (\<lambda>st'. (st', if started \<or> list_ex (needs_members fc now g b) cs then (Some ms, seqs') else (None, seqs)))
      (each (offer_bundle fc now g raw b ms) cs st)"
proof (induction cs arbitrary: st started)
  case (Cons c cs)
  show ?case
    unfolding each.simps deliver_bundle_offer [OF assms]
    by (cases "offer_bundle fc now g raw b ms c st") (simp_all add: Cons.IH disj_assoc)
qed simp

text \<open>
  C33. A bundle is split at most once and its members are numbered without gaps. Sending a bundle is
  the same as splitting it up front and offering every subscribed consumer either the whole bundle
  or that one list of members; the list holds the members that encode, the \<open>i\<close>-th of the bundle
  stamped with the flow's last number plus \<open>i + 1\<close>; the flow's number advances by the size of the
  bundle if some consumer needs the members and not otherwise; other flows keep theirs.
\<close>

theorem bundle_split_once:
  "case decoalesce fc b (sk_egressSeq s) of (seqs', ms) \<Rightarrow>
     let g = ucast (bu_GroupIdx b); cs = map_slice g (sk_byShard s) @ sk_allShards s;
         n = flow_seq (bu_HashKey b) (sk_egressSeq s); mfs = oc_Decoalesce (fc_oc fc) b
     in SendBundle_Fanout fc now raw b s w =
          map_option (Pair (s\<lparr>sk_egressSeq := if list_ex (needs_members fc now g b) cs then seqs' else sk_egressSeq s\<rparr>))
            (each (offer_bundle fc now g raw b ms) cs (w, None)) \<and>
        ms = List.map_filter (encoded (fc_oc fc) (sc_HeaderSize (fc_sc fc))) (stamped n mfs) \<and>
        flow_seq (bu_HashKey b) seqs' = n + of_nat (length mfs) \<and>
        (map_of seqs')(bu_HashKey b := None) = (map_of (sk_egressSeq s))(bu_HashKey b := None)"
proof -
  obtain seqs' ms where d: "decoalesce fc b (sk_egressSeq s) = (seqs', ms)" by (cases "decoalesce fc b (sk_egressSeq s)")
  let ?g = "ucast (bu_GroupIdx b) :: u32"
  let ?cs = "map_slice ?g (sk_byShard s) @ sk_allShards s"
  have "SendBundle_Fanout fc now raw b s w =
    do { ((w', err), ms, seqs) \<leftarrow> each (deliver_bundle fc now ?g (bundle_probe fc b) raw b) ?cs ((w, None), None, sk_egressSeq s);
         Some (s\<lparr>sk_egressSeq := seqs\<rparr>, w', err) }"
    by (simp add: SendBundle_Fanout_def Let_def each_append bind_assoc)
  also have "\<dots> = map_option (Pair (s\<lparr>sk_egressSeq := if list_ex (needs_members fc now ?g b) ?cs then seqs' else sk_egressSeq s\<rparr>))
      (each (offer_bundle fc now ?g raw b ms) ?cs (w, None))"
    using each_bundle_offer [OF d, of now ?g raw ?cs "(w, None)" False]
    by (cases "each (offer_bundle fc now ?g raw b ms) ?cs (w, None)") auto
  finally show ?thesis
    using restamp_correct [OF d [unfolded decoalesce_def]] by (simp only: d prod.case Let_def fun_eq_iff fun_upd_apply) simp
qed

end
