(* ===== verification/Egress_Sender.thy ===== *)
theory Egress_Sender
  imports Egress
begin

text \<open>
  What the unicast senders guarantee: a send either writes the object's bytes once or reports an
  error, redials of a dead destination are spaced by a doubling backoff, and one dead destination
  of several costs the others nothing.
\<close>

section \<open>The sender invariant\<close>

definition sender_ok :: "Sender \<Rightarrow> bool" where
  "sender_ok s \<longleftrightarrow> (se_udpConn s \<longrightarrow> se_udpBackoff s = 0) \<and>
     (se_udpBackoff s \<noteq> 0 \<longrightarrow> udpRedialMin \<le> se_udpBackoff s \<and> se_udpBackoff s \<le> udpRedialMax \<and> se_udpErr s \<noteq> None) \<and>
     (\<forall>x. se_udpErr s = Some x \<longrightarrow> \<not> IsNotElected x)"

text \<open>What never changes after construction.\<close>

definition same_sender :: "Sender \<Rightarrow> Sender \<Rightarrow> bool" where
  "same_sender s s' \<longleftrightarrow> se_addr s' = se_addr s \<and> se_proto s' = se_proto s \<and> se_stripHeader s' = se_stripHeader s"

primrec payload_of :: "wire \<Rightarrow> byte list option" where
  "payload_of (WroteUDP b) = Some b"
| "payload_of (WroteTCP b) = Some b"
| "payload_of DialUDP = None"
| "payload_of DialTCP = None"
| "payload_of ClosedUDP = None"
| "payload_of ClosedTCP = None"

definition payloads :: "wire list \<Rightarrow> byte list list" where
  "payloads ws = List.map_filter payload_of ws"

lemma payloads_simps [simp]:
  "payloads [] = []" "payloads (x # xs) = (case payload_of x of None \<Rightarrow> payloads xs | Some b \<Rightarrow> b # payloads xs)"
  "payloads (xs @ ys) = payloads xs @ payloads ys"
  by (simp_all add: payloads_def List.map_filter_def split: option.split)

lemmas redial_defs = udpRedialMin_def udpRedialMax_def millisecond_def second_def

lemma backoff_range: "udpRedialMin \<le> next_backoff b" "next_backoff b \<le> udpRedialMax" "next_backoff b \<noteq> 0" "0 < next_backoff b"
  by (simp_all add: next_backoff_def redial_defs)

lemma dialUDP_outcome:
  assumes "sender_ok s" and "\<not> se_udpConn s" and "dialUDP n s = (s', e, ws)"
  shows "sender_ok s' \<and> same_sender s s' \<and> payloads ws = [] \<and> (e = None \<longleftrightarrow> se_udpConn s') \<and>
    (\<forall>x. e = Some x \<longrightarrow> \<not> IsNotElected x)"
  using assms
  by (auto simp: dialUDP_def sender_ok_def same_sender_def backoff_range Let_def split: if_splits option.splits)

text \<open>One send of a buffer: the bytes go out exactly when no error is reported.\<close>

definition sends :: "byte list \<Rightarrow> Sender \<Rightarrow> sent option \<Rightarrow> bool" where
  "sends buf s r = (case r of None \<Rightarrow> False
     | Some (s', e, ws) \<Rightarrow> sender_ok s' \<and> same_sender s s' \<and>
         payloads ws = (if e = None then [buf] else []) \<and> (\<forall>x. e = Some x \<longrightarrow> \<not> IsNotElected x))"

lemma sender_ok_close [simp]:
  "sender_ok (s\<lparr>se_tcpConn := b\<rparr>) = sender_ok s" "sender_ok s \<Longrightarrow> sender_ok (s\<lparr>se_udpConn := False\<rparr>)"
  "same_sender s (s'\<lparr>se_tcpConn := b\<rparr>) = same_sender s s'" "same_sender s (s'\<lparr>se_udpConn := c\<rparr>) = same_sender s s'" "same_sender s s"
  by (simp_all add: sender_ok_def same_sender_def)

lemma sendUDP_sends: "sender_ok s \<Longrightarrow> sends buf s (sendUDP n buf s)"
proof -
  assume ok: "sender_ok s"
  obtain s1 e ws where 1: "(if se_udpConn s then (s, None, []) else dialUDP n s) = (s1, e, ws)" by (metis prod_cases3)
  then have 2: "sender_ok s1 \<and> same_sender s s1 \<and> payloads ws = [] \<and> (e = None \<longleftrightarrow> se_udpConn s1) \<and>
    (\<forall>x. e = Some x \<longrightarrow> \<not> IsNotElected x)"
    using ok dialUDP_outcome by (cases "se_udpConn s") auto
  then show ?thesis
    unfolding sends_def sendUDP_def 1 Let_def
    by (cases e; cases "nt_writeUDP n") (simp_all add: closeUDP_def)
qed

lemma sendTCP_sends: "sender_ok s \<Longrightarrow> sends buf s (Some (sendTCP n buf s))"
  by (auto simp: sends_def sendTCP_def closeTCP_def Let_def split: option.splits)

lemma SendRaw_sends:
  "sender_ok s \<Longrightarrow> se_proto s \<in> {''udp'', ''tcp''} \<Longrightarrow> sends buf s (SendRaw n buf s)"
  by (auto simp: SendRaw_def sendUDP_sends sendTCP_sends)

section \<open>Every class of object\<close>

datatype item = TxItem Frame | BlockItem BlockFrame | SubtreeItem SubtreeDataFrame | BeefItem BEEFFrame | RawItem

primrec send_item :: "objfmt_common \<Rightarrow> net \<Rightarrow> byte list \<Rightarrow> item \<Rightarrow> Sender \<Rightarrow> sent option" where
  "send_item oc n raw (TxItem f) = Send n raw f"
| "send_item oc n raw (BlockItem bf) = SendBlock oc n raw bf"
| "send_item oc n raw (SubtreeItem sf) = SendSubtreeData oc n raw sf"
| "send_item oc n raw (BeefItem bf) = SendBeef oc n raw bf"
| "send_item oc n raw RawItem = SendRaw n raw"

text \<open>The bytes a consumer is to receive, or why there are none.\<close>

primrec wire_form :: "objfmt_common \<Rightarrow> bool \<Rightarrow> byte list \<Rightarrow> item \<Rightarrow> egress_error + byte list" where
  "wire_form oc strip raw (TxItem f) = Inr (if strip then fr_Payload f else raw)"
| "wire_form oc strip raw (BlockItem bf) = (if strip then map_sum (StripError ''block'') id (oc_StripBlock oc raw) else Inr raw)"
| "wire_form oc strip raw (SubtreeItem sf) = (if strip then map_sum (StripError ''subtree'') id (oc_StripSubtree oc raw) else Inr raw)"
| "wire_form oc strip raw (BeefItem bf) = Inr (if strip then oc_EncodeBEEFDelivery oc (be_TopicID bf) (be_Payload bf) else raw)"
| "wire_form oc strip raw RawItem = Inr raw"

lemma send_item_wire_form:
  "send_item oc n raw it s =
     (case wire_form oc (se_stripHeader s) raw it of Inl e \<Rightarrow> Some (s, Some e, []) | Inr buf \<Rightarrow> SendRaw n buf s)"
  by (cases it) (auto simp: Send_def SendBlock_def SendSubtreeData_def SendBeef_def SendRaw_def split: sum.splits)

section \<open>Reachable senders\<close>

definition sender_init :: "Sender \<Rightarrow> bool" where
  "sender_init s \<longleftrightarrow> (\<exists>n addr proto strip. New_Sender n addr proto strip = Inr s)"

inductive sender_step :: "objfmt_common \<Rightarrow> Sender \<Rightarrow> Sender \<Rightarrow> bool" for oc where
  step_send: "send_item oc n raw it s = Some (s', e, ws) \<Longrightarrow> sender_step oc s s'"
| step_close: "Close n s = (s', e, ws) \<Longrightarrow> sender_step oc s s'"

lemma sender_ok_New: "New_Sender n addr proto strip = Inr s \<Longrightarrow> sender_ok s"
  using dialUDP_outcome [of "\<lparr>se_addr = addr, se_proto = proto, se_stripHeader = strip, se_tcpConn = False, se_udpConn = False,
               se_udpErr = None, se_udpRetryAt = 0, se_udpBackoff = 0, se_udpDialed = False\<rparr>" n]
  by (auto simp: New_Sender_def Let_def sender_ok_def split: if_splits)
    (metis prod.collapse)+

lemma sender_ok_SendRaw: "sender_ok s \<Longrightarrow> SendRaw n buf s = Some (s', e, ws) \<Longrightarrow> sender_ok s'"
  using sendUDP_sends [of s buf n] sendTCP_sends [of s buf n] by (auto simp: SendRaw_def sends_def split: if_splits)

interpretation sender: step_invariant sender_init "sender_step oc" sender_ok
proof
  fix s s' assume "sender_step oc s s'" "sender_ok s"
  then show "sender_ok s'"
    by (induction rule: sender_step.induct)
      (auto simp: send_item_wire_form Close_def closeTCP_def intro: sender_ok_SendRaw split: sum.splits if_splits)
qed (auto simp: sender_init_def sender_ok_New)


section \<open>Pacing of redials\<close>

text \<open>Sends of one buffer at the times and with the outcomes given; returned are the times of the dials.\<close>

primrec send_all :: "byte list \<Rightarrow> net list \<Rightarrow> Sender \<Rightarrow> (Sender \<times> gtime list) option" where
  "send_all buf [] s = Some (s, [])"
| "send_all buf (n # ns) s =
     do { (s1, e, ws) \<leftarrow> SendRaw n buf s;
          (s2, ds) \<leftarrow> send_all buf ns s1;
          Some (s2, (if DialUDP \<in> set ws then [nt_now n] else []) @ ds) }"

definition nth_backoff :: "nat \<Rightarrow> dur" where
  "nth_backoff k = min (2 ^ k * udpRedialMin) udpRedialMax"

lemma nth_backoff_next: "next_backoff (nth_backoff k) = nth_backoff (Suc k)" "next_backoff 0 = nth_backoff 0"
proof -
  have "2 * nth_backoff k = min (2 ^ Suc k * udpRedialMin) (2 * udpRedialMax)" by (simp add: nth_backoff_def)
  moreover have "(1::int) \<le> 2 ^ k" by simp
  then have "(1::int) \<le> 2 * 2 ^ k" by linarith
  ultimately have "udpRedialMin \<le> 2 * nth_backoff k" "2 * nth_backoff k \<le> 2 * udpRedialMax"
    by (auto simp: redial_defs)
  then have "wrap64 (2 * nth_backoff k) = 2 * nth_backoff k"
    by (simp add: redial_defs min_dur_def max_dur_def)
  then show "next_backoff (nth_backoff k) = nth_backoff (Suc k)"
    using \<open>udpRedialMin \<le> 2 * nth_backoff k\<close> by (simp add: next_backoff_def) (simp add: nth_backoff_def redial_defs)
  show "next_backoff 0 = nth_backoff 0" by (simp add: next_backoff_def nth_backoff_def redial_defs min_dur_def max_dur_def)
qed

text \<open>The gap after the \<open>k\<close>-th failed dial is at least the \<open>k\<close>-th backoff.\<close>

primrec paced :: "nat \<Rightarrow> gtime \<Rightarrow> gtime list \<Rightarrow> bool" where
  "paced k t [] = True"
| "paced k t (t' # ts) = (t + nth_backoff k \<le> t' \<and> paced (Suc k) t' ts)"

definition down_since :: "nat \<Rightarrow> gtime \<Rightarrow> Sender \<Rightarrow> bool" where
  "down_since k t s \<longleftrightarrow> se_proto s = ''udp'' \<and> \<not> se_udpConn s \<and> se_udpErr s \<noteq> None \<and>
     se_udpBackoff s = nth_backoff k \<and> se_udpRetryAt s = t + nth_backoff k"

lemma nth_backoff_pos: "0 < nth_backoff k"
  by (simp add: nth_backoff_def redial_defs)

lemma down_send:
  assumes "down_since k t s" and "udp_dial_error n = Some e"
  shows "\<exists>s' err. SendRaw n buf s = Some (s', Some err, if nt_now n < t + nth_backoff k then [] else [DialUDP]) \<and>
    (if nt_now n < t + nth_backoff k then s' = s else down_since (Suc k) (nt_now n) s')"
  using assms nth_backoff_pos [of k]
  by (auto simp: down_since_def SendRaw_def sendUDP_def dialUDP_def Let_def nth_backoff_next)

lemma down_paced:
  assumes "down_since k t s" and "list_all (\<lambda>n. udp_dial_error n \<noteq> None) ns"
  shows "\<exists>s' ds. send_all buf ns s = Some (s', ds) \<and> paced k t ds"
  using assms
proof (induction ns arbitrary: k t s)
  case (Cons n ns)
  from Cons.prems(2) obtain e where "udp_dial_error n = Some e" by auto
  from down_send [OF Cons.prems(1) this, of buf] obtain s1 err where
    s1: "SendRaw n buf s = Some (s1, Some err, if nt_now n < t + nth_backoff k then [] else [DialUDP])"
      "if nt_now n < t + nth_backoff k then s1 = s else down_since (Suc k) (nt_now n) s1" by blast
  show ?case
  proof (cases "nt_now n < t + nth_backoff k")
    case True
    then show ?thesis using s1 Cons.IH [OF Cons.prems(1)] Cons.prems(2) by auto
  next
    case False
    then show ?thesis using s1 Cons.IH [of "Suc k" "nt_now n" s1] Cons.prems(2) by auto
  qed
qed simp

text \<open>
  C35. Redials of a dead destination back off. Suppose a UDP sender is constructed while its
  destination cannot be dialled, and every later dial fails too. However often frames are sent, the
  \<open>k\<close>-th dial and the next are at least \<open>min (2^k * 250 ms) (5 s)\<close> apart (the one at construction
  is number 0), every send reports an error without panicking, and none blocks on a dial in between.
\<close>

theorem udp_redial_paced:
  assumes "New_Sender n0 addr ''udp'' strip = Inr s" and "udp_dial_error n0 \<noteq> None"
    and "list_all (\<lambda>n. udp_dial_error n \<noteq> None) ns"
  shows "\<exists>s' ds. send_all buf ns s = Some (s', ds) \<and>
    (\<forall>k < length ds. (nt_now n0 # ds) ! k + min (2 ^ k * udpRedialMin) udpRedialMax \<le> ds ! k)"
proof -
  have "down_since 0 (nt_now n0) s"
    using assms(1,2) by (auto simp: New_Sender_def dialUDP_def down_since_def Let_def nth_backoff_next split: if_splits)
  from down_paced [OF this assms(3)] obtain s' ds where ds: "send_all buf ns s = Some (s', ds)" "paced 0 (nt_now n0) ds" by blast
  have "paced k t ds \<Longrightarrow> \<forall>i < length ds. (t # ds) ! i + nth_backoff (k + i) \<le> ds ! i" for k t
  proof (induction ds arbitrary: k t)
    case (Cons d ds)
    show ?case
    proof (intro allI impI)
      fix i assume i: "i < length (d # ds)"
      then show "(t # d # ds) ! i + nth_backoff (k + i) \<le> (d # ds) ! i"
        using Cons.prems Cons.IH [of "Suc k" d] by (cases i) auto
    qed
  qed simp
  from this [OF ds(2)] ds(1) show ?thesis by (auto simp: nth_backoff_def)
qed

definition demo_net :: "gtime \<Rightarrow> neterr option \<Rightarrow> neterr option \<Rightarrow> net" where
  "demo_net t dial write = \<lparr>nt_now = t, nt_resolve = None, nt_dialUDP = dial, nt_writeUDP = write, nt_closeUDP = None,
     nt_dialTCP = None, nt_deadline = None, nt_writeTCP = None\<rparr>"

definition demo_sender :: Sender where
  "demo_sender = \<lparr>se_addr = ''[fd00::9]:9000'', se_proto = ''udp'', se_stripHeader = False, se_tcpConn = False, se_udpConn = False,
     se_udpErr = Some (UDPDial ''[fd00::9]:9000'' ENETUNREACH), se_udpRetryAt = 250 * millisecond, se_udpBackoff = 250 * millisecond,
     se_udpDialed = False\<rparr>"

lemma demo_sender_New: "New_Sender (demo_net 0 (Some ENETUNREACH) None) ''[fd00::9]:9000'' ''udp'' False = Inr demo_sender"
  by code_simp

definition demo_oc :: objfmt_common where
  "demo_oc = \<lparr>oc_StripBlock = (\<lambda>raw. Inr (drop 92 raw)), oc_StripSubtree = (\<lambda>raw. Inr (drop 92 raw)),
     oc_EncodeBEEFDelivery = (\<lambda>t p. id32_bytes t @ be32 (of_nat (length p)) @ p), oc_DeliverableTopicIDs = (\<lambda>bf. [be_TopicID bf]),
     oc_SplitBEEFPayload = Some, oc_BEEFVersionWord = (\<lambda>p. Some (word_of_bytes (take 4 p))),
     oc_Decoalesce = (\<lambda>b. map (\<lambda>(i, tx). \<lparr>fr_Version = 2, fr_TxID = i, fr_SubtreeID = bu_SubtreeID b, fr_HashKey = bu_HashKey b,
       fr_SeqNum = 0, fr_Payload = tx\<rparr>) (bu_Members b)),
     oc_Encode = (\<lambda>f buf. Inr (put_at 92 (fr_Payload f) buf, length buf))\<rparr>"


theorem udp_redial_paced_witness:
  "\<exists>s' ds. send_all [7] [demo_net (10 * millisecond) (Some ENETUNREACH) None, demo_net (300 * millisecond) (Some ENETUNREACH) None,
       demo_net (900 * millisecond) (Some ENETUNREACH) None] demo_sender = Some (s', [300 * millisecond, 900 * millisecond]) \<and>
     250 * millisecond \<le> 300 * millisecond \<and> 300 * millisecond + 500 * millisecond \<le> 900 * millisecond"
proof -
  let ?ns = "[demo_net (10 * millisecond) (Some ENETUNREACH) None, demo_net (300 * millisecond) (Some ENETUNREACH) None,
       demo_net (900 * millisecond) (Some ENETUNREACH) None]"
  have d: "list_all (\<lambda>n. udp_dial_error n \<noteq> None) ?ns" "udp_dial_error (demo_net 0 (Some ENETUNREACH) None) \<noteq> None" by code_simp+
  from udp_redial_paced [OF demo_sender_New d(2,1), of "[7]"] obtain s' ds where
    "send_all [7] ?ns demo_sender = Some (s', ds)" by blast
  moreover have "map_option snd (send_all [7] ?ns demo_sender) = Some [300 * millisecond, 900 * millisecond]" by code_simp
  ultimately show ?thesis by (simp add: millisecond_def)
qed

section \<open>A path error redials at once\<close>

text \<open>
  The redial backoff does not cover a socket dropped on a path error. If dials succeed but every
  write fails with a path error, then each of \<open>m\<close> frames sent at one and the same instant opens a
  socket: the sender dials once per frame.
\<close>

theorem path_error_redials_every_frame:
  "isPathError EHOSTUNREACH \<and>
   (\<exists>s'. send_all buf (replicate m (demo_net t None (Some EHOSTUNREACH))) (demo_sender\<lparr>se_udpRetryAt := t\<rparr>) = Some (s', replicate m t))"
proof -
  let ?n = "demo_net t None (Some EHOSTUNREACH)"
  have 1: "\<exists>s1 e. SendRaw ?n buf s = Some (s1, Some e, [DialUDP, ClosedUDP]) \<and> se_proto s1 = ''udp'' \<and> \<not> se_udpConn s1 \<and> se_udpRetryAt s1 \<le> t"
    if "se_proto s = ''udp''" "\<not> se_udpConn s" "se_udpRetryAt s \<le> t" for s
    using that by (simp add: SendRaw_def sendUDP_def dialUDP_def udp_dial_error_def demo_net_def closeUDP_def isPathError_def)
  have "\<exists>s'. send_all buf (replicate m ?n) s = Some (s', replicate m t)"
    if "se_proto s = ''udp''" "\<not> se_udpConn s" "se_udpRetryAt s \<le> t" for s
    using that
  proof (induction m arbitrary: s)
    case (Suc m)
    from 1 [OF Suc.prems] obtain s1 e where s1: "SendRaw ?n buf s = Some (s1, Some e, [DialUDP, ClosedUDP])"
      "se_proto s1 = ''udp''" "\<not> se_udpConn s1" "se_udpRetryAt s1 \<le> t" by blast
    from Suc.IH [OF s1(2-4)] obtain s' where "send_all buf (replicate m ?n) s1 = Some (s', replicate m t)" by blast
    moreover have "nt_now ?n = t" by (simp add: demo_net_def)
    ultimately show ?case using s1(1) by simp
  qed simp
  from this [of "demo_sender\<lparr>se_udpRetryAt := t\<rparr>"] show ?thesis by (simp add: demo_sender_def isPathError_def)
qed

section \<open>Several destinations\<close>

lemma multi_loop_each:
  assumes "\<forall>i < length ss. fn (ns (k + i)) (ss ! i) = Some (f i)"
  shows "multi_loop fn ns k ss = Some (map (\<lambda>i. fst (f i)) [0..<length ss],
    concat (map (\<lambda>i. case fst (snd (f i)) of None \<Rightarrow> [] | Some e \<Rightarrow> [e]) [0..<length ss]),
    concat (map (\<lambda>i. map (Pair (k + i)) (snd (snd (f i)))) [0..<length ss]))"
  using assms
proof (induction ss arbitrary: k f)
  case (Cons s ss)
  have "fn (ns k) s = Some (f 0)" using Cons.prems by auto
  moreover have "\<forall>i < length ss. fn (ns (Suc k + i)) (ss ! i) = Some (f (Suc i))" using Cons.prems by auto
  moreover have "[0..<length (s # ss)] = 0 # map Suc [0..<length ss]" by (simp add: upt_conv_Cons map_Suc_upt del: upt_Suc)
  ultimately show ?case
    using Cons.IH [of "Suc k" "\<lambda>i. f (Suc i)"] by (cases "f 0") (simp add: o_def del: upt_Suc split: option.splits)
qed simp

primrec multi_item :: "objfmt_common \<Rightarrow> (nat \<Rightarrow> net) \<Rightarrow> byte list \<Rightarrow> item \<Rightarrow> MultiSender \<Rightarrow>
    (MultiSender \<times> egress_error option \<times> (nat \<times> wire) list) option" where
  "multi_item oc ns raw (TxItem f) = Send_Multi ns raw f"
| "multi_item oc ns raw (BlockItem bf) = SendBlock_Multi oc ns raw bf"
| "multi_item oc ns raw (SubtreeItem sf) = SendSubtreeData_Multi oc ns raw sf"
| "multi_item oc ns raw (BeefItem bf) = SendBeef_Multi oc ns raw bf"
| "multi_item oc ns raw RawItem = SendRaw_Multi ns raw"

lemma multi_item_fanout: "multi_item oc ns raw it = multi_fanout (\<lambda>n. send_item oc n raw it) ns"
  by (cases it) (simp_all add: Send_Multi_def SendBlock_Multi_def SendSubtreeData_Multi_def SendBeef_Multi_def SendRaw_Multi_def)

lemma wires_of:
  "i < k \<Longrightarrow> map snd (filter (\<lambda>x. fst x = i) (concat (map (\<lambda>j. map (Pair j) (g j)) [0..<k]))) = g i"
proof (induction k)
  case (Suc k)
  have 1: "filter (\<lambda>x. fst x = i) (map (Pair k) xs) = (if i = k then map (Pair k) xs else [])" for xs :: "'a list"
    by (induction xs) auto
  have 2: "filter (\<lambda>x. fst x = k) (concat (map (\<lambda>j. map (Pair j) (g j)) [0..<k])) = []"
    by (auto simp: filter_empty_conv)
  show ?case using Suc 1 2 by (cases "i = k") (simp_all add: o_def)
qed simp

text \<open>
  A dead destination costs the others nothing. When a receiver hands a frame to its delivery
  hosts, destination \<open>i\<close> ends up in the state, and sees the socket actions, of a send to it alone;
  the joined error lists the errors of those that failed, in order, and is nil when none did.
\<close>

theorem multi_destinations_independent:
  assumes "\<forall>i < Dests m. send_item oc (ns i) raw it (ms_senders m ! i) = Some (f i)"
  shows "\<exists>ws. multi_item oc ns raw it m =
      Some (m\<lparr>ms_senders := map (\<lambda>i. fst (f i)) [0..<Dests m]\<rparr>,
        (let es = List.map_filter (\<lambda>i. fst (snd (f i))) [0..<Dests m] in if es = [] then None else Some (Joined es)), ws) \<and>
    (\<forall>i < Dests m. map snd (filter (\<lambda>x. fst x = i) ws) = snd (snd (f i)))"
proof -
  have c: "concat (map (\<lambda>i. case fst (snd (f i)) of None \<Rightarrow> [] | Some e \<Rightarrow> [e]) xs) = List.map_filter (\<lambda>i. fst (snd (f i))) xs" for xs
    by (induction xs) (auto simp: List.map_filter_simps split: option.split)
  have "multi_loop (\<lambda>n. send_item oc n raw it) ns 0 (ms_senders m) = Some (map (\<lambda>i. fst (f i)) [0..<Dests m],
    List.map_filter (\<lambda>i. fst (snd (f i))) [0..<Dests m], concat (map (\<lambda>i. map (Pair i) (snd (snd (f i)))) [0..<Dests m]))"
    using multi_loop_each [of "ms_senders m" "\<lambda>n. send_item oc n raw it" ns 0 f] assms by (simp add: Dests_def c)
  then show ?thesis
    by (intro exI [of _ "concat (map (\<lambda>i. map (Pair i) (snd (snd (f i)))) [0..<Dests m])"] conjI allI impI wires_of)
      (simp_all add: multi_item_fanout multi_fanout_def Let_def)
qed

definition demo_multi :: MultiSender where
  "demo_multi = \<lparr>ms_senders = [demo_sender, demo_sender], ms_proto = ''udp''\<rparr>"

theorem multi_destinations_independent_witness:
  "\<exists>m' ws. multi_item demo_oc (\<lambda>i. demo_net (300 * millisecond) (if i = 0 then Some ENETUNREACH else None) None) [7] RawItem demo_multi =
      Some (m', Some (Joined [UDPDial ''[fd00::9]:9000'' ENETUNREACH]), ws) \<and>
    map snd (filter (\<lambda>x. fst x = 1) ws) = [DialUDP, WroteUDP [7]]"
proof -
  let ?ns = "\<lambda>i::nat. demo_net (300 * millisecond) (if i = 0 then Some ENETUNREACH else None) None"
  let ?f = "\<lambda>i. the (send_item demo_oc (?ns i) [7] RawItem demo_sender)"
  have s: "SendRaw (?ns 0) [7] demo_sender = Some (demo_sender\<lparr>se_udpRetryAt := 800 * millisecond,
      se_udpBackoff := 500 * millisecond\<rparr>, Some (UDPDial ''[fd00::9]:9000'' ENETUNREACH), [DialUDP])"
    "SendRaw (?ns 1) [7] demo_sender = Some (demo_sender\<lparr>se_udpConn := True, se_udpErr := None, se_udpBackoff := 0,
      se_udpDialed := True\<rparr>, None, [DialUDP, WroteUDP [7]])"
    by code_simp+
  have "\<forall>i < Dests demo_multi. send_item demo_oc (?ns i) [7] RawItem (ms_senders demo_multi ! i) = Some (?f i)"
    using s by (auto simp: Dests_def demo_multi_def dest!: less_2_cases)
  from multi_destinations_independent [OF this] s show ?thesis
    by (auto simp: Dests_def demo_multi_def upt_rec List.map_filter_simps)
qed

section \<open>Multicast destinations\<close>

lemma be_bytes_two: "be_bytes 2 v = [of_nat (v div 256), of_nat v]"
  by (simp add: numeral_2_eq_2)

lemma be16_low_bits: "be16 (ucast (g :: u32)) = [ucast (drop_bit 8 g), ucast g]"
proof -
  have "of_nat (unat (ucast g :: u16) div 256) = (ucast (drop_bit 8 g) :: byte)"
    unfolding drop_bit_eq_div [of 8, where 'a = nat, simplified, symmetric] by (rule bit_word_eqI) (auto simp: bit_simps)
  moreover have "of_nat (unat (ucast g :: u16)) = (ucast g :: byte)"
    by (rule bit_word_eqI) (auto simp: bit_simps)
  ultimately show ?thesis by (simp add: be16_def be_bytes_two)
qed

text \<open>
  A multicast sender addresses the group it is asked for. After any earlier sends, a frame for
  group index \<open>g\<close> goes to the address with the configured prefix in its first two bytes, ten zero
  bytes, the configured group id, and the low sixteen bits of \<open>g\<close>.
\<close>

theorem mcast_address:
  assumes "NewMCast None None None None mcPrefix groupID port = Inr s0"
  shows "snd (snd (Send_MCast out raw f g (fold (\<lambda>(o', r', f', g') s. fst (Send_MCast o' r' f' g' s)) earlier s0))) =
    (be16 mcPrefix @ replicate 10 0 @ be16 groupID @ be16 (ucast g), port, raw)"
proof -
  define T where "T = (\<lambda>x y :: byte. be16 mcPrefix @ replicate 10 0 @ be16 groupID @ [x, y])"
  define ok where "ok s \<longleftrightarrow> (\<exists>x y. s = \<lparr>mc_addrTemplate = T x y, mc_egressPort = port\<rparr>)" for s
  have upd: "(T x y)[14 := a, 15 := b] = T a b" for x y a b
    by (simp add: T_def list_update_append)
  have "replicate 2 (0 :: byte) = [0, 0]" by (simp add: numeral_2_eq_2)
  then have "ok s0" using assms by (auto simp: ok_def NewMCast_def T_def put_at_def be16_def)
  have step: "ok s \<Longrightarrow> ok (fst (Send_MCast o' r' f' g' s))" for o' r' f' g' s
    unfolding ok_def by (elim exE) (simp add: Send_MCast_def mc_emit_def Let_def upd, blast)
  have "ok (fold (\<lambda>(o', r', f', g') s. fst (Send_MCast o' r' f' g' s)) earlier s)" if "ok s" for s
    using that by (induction earlier arbitrary: s) (auto simp: step)
  from this [OF \<open>ok s0\<close>] obtain x y where
    "fold (\<lambda>(o', r', f', g') s. fst (Send_MCast o' r' f' g' s)) earlier s0 = \<lparr>mc_addrTemplate = T x y, mc_egressPort = port\<rparr>"
    by (auto simp only: ok_def)
  then have "snd (snd (Send_MCast out raw f g (fold (\<lambda>(o', r', f', g') s. fst (Send_MCast o' r' f' g' s)) earlier s0))) =
    (T (ucast (drop_bit 8 g)) (ucast g), port, raw)"
    by (simp only:) (simp add: Send_MCast_def mc_emit_def Let_def upd)
  then show ?thesis by (simp only: T_def be16_low_bits)
qed

definition demo_frame :: Frame where
  "demo_frame = \<lparr>fr_Version = 2, fr_TxID = 5, fr_SubtreeID = 1, fr_HashKey = 42, fr_SeqNum = 9, fr_Payload = [7]\<rparr>"

lemma replicate_eq: "replicate 10 x = [x, x, x, x, x, x, x, x, x, x]"
  by (simp only: eval_nat_numeral BitM.simps replicate.simps)

theorem mcast_address_witness:
  "\<exists>s0. NewMCast None None None None 0xFF05 0x000B 9001 = Inr s0 \<and>
     snd (snd (Send_MCast None [7] demo_frame 0x10203 (fst (Send_MCast None [] demo_frame 5 s0)))) =
       ([0xFF, 0x05, 0, 0, 0, 0, 0, 0, 0, 0, 0, 0, 0, 0x0B, 2, 3], 9001, [7])"
proof -
  have p: "be16 0xFF05 = [0xFF, 0x05]" "be16 0x000B = [0, 0x0B]" "be16 (ucast (0x10203 :: u32)) = [2, 3]"
    by (simp_all add: be16_def be_bytes_two)
  have b: "be16 0xFF05 @ replicate 10 0 @ be16 0x000B @ be16 (ucast (0x10203 :: u32)) =
    [0xFF, 0x05, 0, 0, 0, 0, 0, 0, 0, 0, 0, 0, 0, 0x0B, 2, 3]"
    unfolding p by (simp add: replicate_eq)
  define s0 where "s0 = \<lparr>mc_addrTemplate = put_at 12 (be16 0x000B) (put_at 0 (be16 0xFF05) (replicate 16 0)), mc_egressPort = 9001\<rparr>"
  then have n: "NewMCast None None None None 0xFF05 0x000B 9001 = Inr s0" by (simp add: NewMCast_def)
  from mcast_address [OF n, of None "[7]" demo_frame "0x10203" "[(None, [], demo_frame, 5)]"]
  have "snd (snd (Send_MCast None [7] demo_frame 0x10203 (fst (Send_MCast None [] demo_frame 5 s0)))) =
       ([0xFF, 0x05, 0, 0, 0, 0, 0, 0, 0, 0, 0, 0, 0, 0x0B, 2, 3], 9001, [7])"
    unfolding b by (simp only: fold_simps prod.case id_apply)
  with n show ?thesis by blast
qed

end
