(* ===== verification/Fanout_Delivery.thy ===== *)
theory Fanout_Delivery
  imports Fanout_Routing Egress_Sender
begin

text \<open>
  Who receives a frame. The contract the fan-out relies on is the locale \<open>egress_contract\<close>: a sink
  call returns, reports success exactly when its consumer got the object, and touches no other
  consumer. The unicast senders satisfy it, and so the fan-out over them delivers every object to
  exactly the consumers entitled to it.
\<close>

section \<open>The contract of a sink\<close>

locale egress_contract =
  fixes send :: "'i \<Rightarrow> 'o \<Rightarrow> 'w send"
    and log :: "'w \<Rightarrow> 'i \<Rightarrow> 'x list"
    and form :: "'i \<Rightarrow> 'o \<Rightarrow> 'x option"
    and inv :: "'w \<Rightarrow> bool"
  assumes send_law: "inv w \<Longrightarrow> \<exists>w' e. send i ob w = Some (w', e) \<and> inv w' \<and>
    (case e of None \<Rightarrow> (\<exists>x. form i ob = Some x \<and> log w' = (log w)(i := log w i @ [x]))
     | Some err \<Rightarrow> log w' = log w \<and> (IsNotElected err \<longrightarrow> form i ob = None))"
begin

text \<open>A consumer's step either calls its sink or leaves every log alone.\<close>

definition steps :: "('c \<Rightarrow> 'w \<times> egress_error option \<Rightarrow> ('w \<times> egress_error option) option) \<Rightarrow> ('c \<Rightarrow> 'i) \<Rightarrow> ('c \<Rightarrow> 'o option) \<Rightarrow> 'c \<Rightarrow> bool" where
  "steps d ident obj c \<longleftrightarrow> (case obj c of
      Some ob \<Rightarrow> d c = call_sink (send (ident c) ob)
    | None \<Rightarrow> (\<forall>w err. inv w \<longrightarrow> (\<exists>w'. d c (w, err) = Some (w', err) \<and> inv w' \<and> log w' = log w)))"

definition got :: "('c \<Rightarrow> 'i) \<Rightarrow> ('c \<Rightarrow> 'o option) \<Rightarrow> 'w \<Rightarrow> 'w \<Rightarrow> 'c \<Rightarrow> bool" where
  "got ident obj w w' c \<longleftrightarrow> (\<exists>ob x. obj c = Some ob \<and> form (ident c) ob = Some x \<and> log w' (ident c) = log w (ident c) @ [x])"

lemma step_law:
  assumes "steps d ident obj c" and "inv w"
  shows "\<exists>w' err'. d c (w, err) = Some (w', err') \<and> inv w' \<and> (\<forall>i. i \<noteq> ident c \<longrightarrow> log w' i = log w i) \<and>
    (got ident obj w w' c \<or> log w' (ident c) = log w (ident c)) \<and>
    (err' = None \<longrightarrow> err = None \<and> (got ident obj w w' c \<or> obj c = None \<or> form (ident c) (the (obj c)) = None))"
proof (cases "obj c")
  case None
  then obtain w' where "d c (w, err) = Some (w', err)" "inv w'" "log w' = log w"
    using assms by (auto simp: steps_def)
  then show ?thesis using None by simp
next
  case (Some ob)
  from send_law [OF assms(2), of "ident c" ob] obtain w' e where
    s: "send (ident c) ob w = Some (w', e)" "inv w'"
      "case e of None \<Rightarrow> (\<exists>x. form (ident c) ob = Some x \<and> log w' = (log w)(ident c := log w (ident c) @ [x]))
       | Some err \<Rightarrow> log w' = log w \<and> (IsNotElected err \<longrightarrow> form (ident c) ob = None)" by blast
  have d: "d c (w, err) = Some (w', note_err err e)" using assms(1) Some s(1) by (simp add: steps_def call_sink_def)
  show ?thesis
  proof (cases e)
    case None
    then obtain x where x: "form (ident c) ob = Some x" "log w' = (log w)(ident c := log w (ident c) @ [x])" using s(3) by auto
    then have "got ident obj w w' c" using Some by (simp add: got_def)
    then show ?thesis using d s(2) x(2) None by (simp add: note_err_def)
  next
    case (Some er)
    then have l: "log w' = log w" "IsNotElected er \<longrightarrow> form (ident c) ob = None" using s(3) by simp_all
    show ?thesis
      by (rule exI [of _ w'], rule exI [of _ "note_err err e"])
        (use d s(2) l Some \<open>obj c = Some ob\<close> in \<open>auto simp: note_err_def split: if_splits\<close>)
  qed
qed

lemma each_law:
  assumes "\<forall>c\<in>set cs. steps d ident obj c" and "inv w" and "distinct (map ident cs)"
  shows "\<exists>w' err'. each d cs (w, err) = Some (w', err') \<and> inv w' \<and> (\<forall>i. i \<notin> ident ` set cs \<longrightarrow> log w' i = log w i) \<and>
    (\<forall>c\<in>set cs. got ident obj w w' c \<or> log w' (ident c) = log w (ident c)) \<and>
    (err' = None \<longrightarrow> err = None \<and> (\<forall>c\<in>set cs. got ident obj w w' c \<or> obj c = None \<or> form (ident c) (the (obj c)) = None))"
  using assms
proof (induction cs arbitrary: w err)
  case (Cons c cs)
  have p: "steps d ident obj c" "\<forall>c\<in>set cs. steps d ident obj c" "distinct (map ident cs)" "ident c \<notin> ident ` set cs"
    using Cons.prems(1,3) by simp_all
  from step_law [OF p(1) Cons.prems(2), of err] obtain w1 e1 where
    1: "d c (w, err) = Some (w1, e1)" "inv w1" "\<forall>i. i \<noteq> ident c \<longrightarrow> log w1 i = log w i"
      "got ident obj w w1 c \<or> log w1 (ident c) = log w (ident c)"
      "e1 = None \<longrightarrow> err = None \<and> (got ident obj w w1 c \<or> obj c = None \<or> form (ident c) (the (obj c)) = None)" by blast
  from Cons.IH [OF p(2) 1(2) p(3), of e1] obtain w2 e2 where
    2: "each d cs (w1, e1) = Some (w2, e2)" "inv w2" "\<forall>i. i \<notin> ident ` set cs \<longrightarrow> log w2 i = log w1 i"
      "\<forall>c\<in>set cs. got ident obj w1 w2 c \<or> log w2 (ident c) = log w1 (ident c)"
      "e2 = None \<longrightarrow> e1 = None \<and> (\<forall>c\<in>set cs. got ident obj w1 w2 c \<or> obj c = None \<or> form (ident c) (the (obj c)) = None)" by blast
  have c: "log w2 (ident c) = log w1 (ident c)" "got ident obj w w2 c = got ident obj w w1 c"
    using 2(3) p(4) by (simp_all add: got_def)
  have r: "log w1 (ident c') = log w (ident c')" "got ident obj w w2 c' = got ident obj w1 w2 c'" if "c' \<in> set cs" for c'
  proof -
    have "ident c' \<noteq> ident c" using that p(4) by (metis image_eqI)
    then show "log w1 (ident c') = log w (ident c')" using 1(3) by simp
    then show "got ident obj w w2 c' = got ident obj w1 w2 c'" by (simp add: got_def)
  qed
  have "each d (c # cs) (w, err) = Some (w2, e2)" using 1(1) 2(1) by simp
  moreover have "\<forall>i. i \<notin> ident ` set (c # cs) \<longrightarrow> log w2 i = log w i" using 1(3) 2(3) by simp
  moreover have "\<forall>c'\<in>set (c # cs). got ident obj w w2 c' \<or> log w2 (ident c') = log w (ident c')"
    using 1(4) 2(4) by (simp add: c r)
  moreover have "e2 = None \<longrightarrow> err = None \<and> (\<forall>c'\<in>set (c # cs). got ident obj w w2 c' \<or> obj c' = None \<or> form (ident c') (the (obj c')) = None)"
    using 1(5) 2(5) by (simp add: c(2) r(2))
  ultimately show ?case using 2(2) by blast
qed auto

end

section \<open>Senders as sinks\<close>

text \<open>
  The senders of all consumers by consumer id, and what has been written to each consumer's socket.
  The network outcome a consumer's send meets is \<open>ns\<close> of its id.
\<close>

record egress_world =
  ew_sender :: "string \<Rightarrow> Sender"
  ew_wrote :: "string \<Rightarrow> byte list list"

definition sender_call :: "objfmt_common \<Rightarrow> (string \<Rightarrow> net) \<Rightarrow> string \<Rightarrow> byte list \<times> item \<Rightarrow> egress_world send" where
  "sender_call oc ns i ob w =
     (let (raw, it) = ob
      in do { (s', e, ws) \<leftarrow> send_item oc (ns i) raw it (ew_sender w i);
              Some (w\<lparr>ew_sender := (ew_sender w)(i := s'), ew_wrote := (ew_wrote w)(i := ew_wrote w i @ payloads ws)\<rparr>, e) })"

definition sender_close :: "(string \<Rightarrow> net) \<Rightarrow> string \<Rightarrow> egress_world send" where
  "sender_close ns i w =
     (let (s', e, ws) = Close (ns i) (ew_sender w i) in Some (w\<lparr>ew_sender := (ew_sender w)(i := s')\<rparr>, e))"

definition sender_sink :: "objfmt_common \<Rightarrow> (string \<Rightarrow> net) \<Rightarrow> string \<Rightarrow> string \<Rightarrow> egress_world EgressSink" where
  "sender_sink oc ns proto i =
     \<lparr>es_Send = (\<lambda>raw f. sender_call oc ns i (raw, TxItem f)), es_SendBlock = (\<lambda>raw bf. sender_call oc ns i (raw, BlockItem bf)),
      es_SendSubtreeData = (\<lambda>raw sf. sender_call oc ns i (raw, SubtreeItem sf)),
      es_SendBeef = (\<lambda>raw bf. sender_call oc ns i (raw, BeefItem bf)), es_SendRaw = (\<lambda>buf. sender_call oc ns i (buf, RawItem)),
      es_Proto = proto, es_Close = sender_close ns i, es_SendBundle = None, es_SendHeader = None, es_SendHeaderN = None\<rparr>"

definition world_ok :: "(string \<Rightarrow> bool) \<Rightarrow> egress_world \<Rightarrow> bool" where
  "world_ok strip w \<longleftrightarrow> (\<forall>i. sender_ok (ew_sender w i) \<and> se_proto (ew_sender w i) \<in> {''udp'', ''tcp''} \<and>
     se_stripHeader (ew_sender w i) = strip i)"

lemma world_ok_wrote [simp]: "world_ok strip (w\<lparr>ew_wrote := v\<rparr>) = world_ok strip w"
  by (simp add: world_ok_def)

definition form_of :: "objfmt_common \<Rightarrow> (string \<Rightarrow> bool) \<Rightarrow> string \<Rightarrow> byte list \<times> item \<Rightarrow> byte list option" where
  "form_of oc strip i ob = (case wire_form oc (strip i) (fst ob) (snd ob) of Inl e \<Rightarrow> None | Inr buf \<Rightarrow> Some buf)"

lemma wire_form_error: "wire_form oc strip raw it = Inl e \<Longrightarrow> \<not> IsNotElected e"
  by (cases it) (auto split: if_splits sum.splits simp: map_sum_def)

interpretation senders: egress_contract "sender_call oc ns" ew_wrote "form_of oc strip" "world_ok strip"
proof
  fix w i and ob :: "byte list \<times> item"
  assume ok: "world_ok strip w"
  obtain raw it where ob: "ob = (raw, it)" by (cases ob)
  let ?s = "ew_sender w i"
  have s: "sender_ok ?s" "se_proto ?s \<in> {''udp'', ''tcp''}" "se_stripHeader ?s = strip i"
    using ok by (simp_all add: world_ok_def)
  let ?law = "\<lambda>w' e. case e of None \<Rightarrow> (\<exists>x. form_of oc strip i ob = Some x \<and> ew_wrote w' = (ew_wrote w)(i := ew_wrote w i @ [x]))
     | Some err \<Rightarrow> ew_wrote w' = ew_wrote w \<and> (IsNotElected err \<longrightarrow> form_of oc strip i ob = None)"
  show "\<exists>w' e. sender_call oc ns i ob w = Some (w', e) \<and> world_ok strip w' \<and> ?law w' e"
  proof (cases "wire_form oc (strip i) raw it")
    case (Inl e)
    then show ?thesis using ok s(3) wire_form_error [OF Inl]
      by (simp add: sender_call_def ob send_item_wire_form form_of_def fun_upd_triv)
  next
    case (Inr buf)
    from SendRaw_sends [OF s(1,2), of buf "ns i"] obtain s' e ws where
      r: "SendRaw (ns i) buf ?s = Some (s', e, ws)" "sender_ok s'" "same_sender ?s s'"
        "payloads ws = (if e = None then [buf] else [])" "\<forall>x. e = Some x \<longrightarrow> \<not> IsNotElected x"
      by (auto simp: sends_def split: option.splits)
    then have "world_ok strip (w\<lparr>ew_sender := (ew_sender w)(i := s')\<rparr>)"
      using ok by (simp add: world_ok_def same_sender_def)
    then show ?thesis using Inr r s(3)
      by (cases e) (simp_all add: sender_call_def ob send_item_wire_form form_of_def fun_upd_triv)
  qed
qed

section \<open>Who receives what\<close>

definition elects :: "u32 \<Rightarrow> 'w Consumer \<Rightarrow> bool" where
  "elects g c \<longleftrightarrow> cn_Shards c = [] \<or> g \<in> set (cn_Shards c)"

text \<open>The observers of a consumer are measurement only.\<close>

definition quiet_observers :: "(string \<Rightarrow> bool) \<Rightarrow> egress_world Consumer \<Rightarrow> bool" where
  "quiet_observers strip c \<longleftrightarrow> (\<forall>w. world_ok strip w \<longrightarrow>
     (\<forall>n m. world_ok strip (observe_ingress c n m w) \<and> ew_wrote (observe_ingress c n m w) = ew_wrote w) \<and>
     (\<forall>r n. world_ok strip (observe_beef c r n w) \<and> ew_wrote (observe_beef c r n w) = ew_wrote w))"

definition over_senders :: "objfmt_common \<Rightarrow> (string \<Rightarrow> net) \<Rightarrow> (string \<Rightarrow> bool) \<Rightarrow> egress_world Consumer list \<Rightarrow> bool" where
  "over_senders oc ns strip cs \<longleftrightarrow> distinct (map cn_ID cs) \<and> (\<forall>c\<in>set cs. distinct (cn_Shards c) \<and>
     (\<exists>p. cn_Sink c = sender_sink oc ns p (cn_ID c)) \<and> quiet_observers strip c)"

lemma offered_table:
  assumes "over_senders oc ns strip cs"
  shows "set (listed g cs @ unrestricted cs) = {c \<in> set cs. elects g c}" "distinct (map cn_ID (listed g cs @ unrestricted cs))"
proof -
  have l: "listed g cs = filter (\<lambda>c. g \<in> set (cn_Shards c)) cs" by (rule listed_distinct) (use assms in \<open>simp add: over_senders_def\<close>)
  show "set (listed g cs @ unrestricted cs) = {c \<in> set cs. elects g c}" unfolding l by (auto simp: elects_def)
  have "distinct (map cn_ID cs)" using assms by (simp add: over_senders_def)
  then have "inj_on cn_ID (set cs)" "distinct cs" by (simp_all add: distinct_map)
  moreover have "distinct (listed g cs @ unrestricted cs)" unfolding l using \<open>distinct cs\<close> by auto
  moreover have "set (listed g cs @ unrestricted cs) \<subseteq> set cs" unfolding l by auto
  ultimately show "distinct (map cn_ID (listed g cs @ unrestricted cs))"
    unfolding distinct_map using inj_on_subset by blast
qed

text \<open>The shared conclusion: the consumers for which \<open>obj\<close> holds an object, and no others, got its wire form.\<close>

lemma offered_exactly:
  assumes o: "over_senders oc ns strip cs" and w: "world_ok strip w"
    and st: "\<forall>c\<in>set cs. senders.steps oc ns strip d cn_ID obj c"
  shows "\<exists>w' err. each d (listed g cs @ unrestricted cs) (w, None) = Some (w', err) \<and> world_ok strip w' \<and>
    (\<forall>c\<in>set cs. ew_wrote w' (cn_ID c) = ew_wrote w (cn_ID c) \<or>
       (\<exists>ob x. elects g c \<and> obj c = Some ob \<and> form_of oc strip (cn_ID c) ob = Some x \<and>
          ew_wrote w' (cn_ID c) = ew_wrote w (cn_ID c) @ [x])) \<and>
    (err = None \<longrightarrow> (\<forall>c\<in>set cs. elects g c \<longrightarrow> (case obj c of None \<Rightarrow> True | Some ob \<Rightarrow>
       (case form_of oc strip (cn_ID c) ob of None \<Rightarrow> True | Some x \<Rightarrow> ew_wrote w' (cn_ID c) = ew_wrote w (cn_ID c) @ [x]))))"
proof -
  note t = offered_table [OF o, of g]
  have "\<forall>c\<in>set (listed g cs @ unrestricted cs). senders.steps oc ns strip d cn_ID obj c" unfolding t(1) using st by simp
  from senders.each_law [OF this w t(2), of None, unfolded t(1)] obtain w' err where
    e: "each d (listed g cs @ unrestricted cs) (w, None) = Some (w', err)" "world_ok strip w'"
      "\<forall>i. i \<notin> cn_ID ` {c \<in> set cs. elects g c} \<longrightarrow> ew_wrote w' i = ew_wrote w i"
      "\<forall>c\<in>{c \<in> set cs. elects g c}. senders.got oc strip cn_ID obj w w' c \<or> ew_wrote w' (cn_ID c) = ew_wrote w (cn_ID c)"
      "err = None \<longrightarrow> (\<forall>c\<in>{c \<in> set cs. elects g c}. senders.got oc strip cn_ID obj w w' c \<or> obj c = None \<or>
         form_of oc strip (cn_ID c) (the (obj c)) = None)"
    by (elim exE conjE) (rule that; simp)
  have i: "inj_on cn_ID (set cs)" using o by (simp add: over_senders_def distinct_map)
  have "ew_wrote w' (cn_ID c) = ew_wrote w (cn_ID c)" if "c \<in> set cs" "\<not> elects g c" for c
    using e(3) that inj_onD [OF i] by blast
  then have "\<forall>c\<in>set cs. ew_wrote w' (cn_ID c) = ew_wrote w (cn_ID c) \<or>
       (\<exists>ob x. elects g c \<and> obj c = Some ob \<and> form_of oc strip (cn_ID c) ob = Some x \<and>
          ew_wrote w' (cn_ID c) = ew_wrote w (cn_ID c) @ [x])"
    using e(4) unfolding senders.got_def by blast
  moreover have "case obj c of None \<Rightarrow> True | Some ob \<Rightarrow>
       (case form_of oc strip (cn_ID c) ob of None \<Rightarrow> True | Some x \<Rightarrow> ew_wrote w' (cn_ID c) = ew_wrote w (cn_ID c) @ [x])"
    if "err = None" "c \<in> set cs" "elects g c" for c
  proof -
    have "senders.got oc strip cn_ID obj w w' c \<or> obj c = None \<or> form_of oc strip (cn_ID c) (the (obj c)) = None"
      using e(5) [rule_format, OF that(1)] that(2,3) by simp
    then show ?thesis by (cases "obj c"; cases "form_of oc strip (cn_ID c) (the (obj c))") (auto simp: senders.got_def)
  qed
  ultimately show ?thesis using e(1,2) by (intro exI [of _ w'] exI [of _ err]) simp
qed

section \<open>Transactions\<close>

definition entitled_tx :: "fanout_common \<Rightarrow> gtime \<Rightarrow> u32 \<Rightarrow> Frame \<Rightarrow> 'w Consumer \<Rightarrow> bool" where
  "entitled_tx fc now g f c \<longleftrightarrow> elects g c \<and> filt_allows now g f c \<and> \<not> isOwnTraffic fc c g f"

lemma deliver_tx_steps:
  assumes "over_senders (fc_oc fc) ns strip cs" and "c \<in> set cs"
  shows "senders.steps (fc_oc fc) ns strip (deliver_tx fc now g raw f) cn_ID
    (\<lambda>c. if filt_allows now g f c \<and> \<not> isOwnTraffic fc c g f then Some (raw, TxItem f) else None) c"
proof -
  obtain p where p: "cn_Sink c = sender_sink (fc_oc fc) ns p (cn_ID c)" "quiet_observers strip c"
    using assms by (auto simp: over_senders_def)
  have "deliver_tx fc now g raw f c = call_sink (sender_call (fc_oc fc) ns (cn_ID c) (raw, TxItem f))"
    if "filt_allows now g f c" "\<not> isOwnTraffic fc c g f"
    using that p(1) by (simp add: fun_eq_iff deliver_tx_def sender_sink_def)
  then show ?thesis using p(2) by (auto simp: senders.steps_def deliver_tx_def quiet_observers_def)
qed

text \<open>
  C9. A transaction reaches exactly the consumers entitled to it. Take any table of consumers with
  distinct ids over unicast senders that satisfy their invariant, connected or not, and any network
  outcome per consumer. Sending a transaction does not panic; nothing is written to a consumer unless it elects
  the transaction's group, its filter admits the frame and the frame is not its own traffic; such a
  consumer is written at most one copy, in its own wire form; and if no error is returned, every
  such consumer got its copy.
\<close>

theorem fanout_tx_exact:
  assumes "over_senders (fc_oc fc) ns strip cs" and "world_ok strip w" and "g = sk_engine s (fr_TxID f)"
  shows "\<exists>w' err. Send_Fanout fc now raw f (Apply cs s) w = Some (w', err) \<and> world_ok strip w' \<and>
    (\<forall>c\<in>set cs. ew_wrote w' (cn_ID c) = ew_wrote w (cn_ID c) \<or>
       entitled_tx fc now g f c \<and>
       ew_wrote w' (cn_ID c) = ew_wrote w (cn_ID c) @ [if strip (cn_ID c) then fr_Payload f else raw]) \<and>
    (err = None \<longrightarrow> (\<forall>c\<in>set cs. entitled_tx fc now g f c \<longrightarrow>
       ew_wrote w' (cn_ID c) = ew_wrote w (cn_ID c) @ [if strip (cn_ID c) then fr_Payload f else raw]))"
proof -
  have r: "Send_Fanout fc now raw f (Apply cs s) w = each (deliver_tx fc now g raw f) (listed g cs @ unrestricted cs) (w, None)"
    by (simp add: Send_Fanout_def each_append assms(3) Let_def)
  have st: "\<forall>c\<in>set cs. senders.steps (fc_oc fc) ns strip (deliver_tx fc now g raw f) cn_ID
    (\<lambda>c. if filt_allows now g f c \<and> \<not> isOwnTraffic fc c g f then Some (raw, TxItem f) else None) c"
    using deliver_tx_steps [OF assms(1)] by blast
  from offered_exactly [OF assms(1,2) st, of g] show ?thesis
    unfolding r entitled_tx_def form_of_def by (elim exE conjE) (rule exI, rule exI, intro conjI; fastforce split: if_splits)
qed

section \<open>BEEF objects\<close>

text \<open>The topic under which a consumer is to receive an object, if any.\<close>

definition beef_topic :: "fanout_common \<Rightarrow> u32 \<Rightarrow> BEEFFrame \<Rightarrow> 'w Consumer \<Rightarrow> id32 option" where
  "beef_topic fc g bf c =
     (if version_accepted (fc_oc fc) (beef_object (fc_oc fc) bf) c \<and> \<not> isOwnBeef fc c g bf
      then (if cn_AllTopics c then Some (be_TopicID bf)
            else find (\<lambda>i. i \<in> set (cn_TopicSet c)) (oc_DeliverableTopicIDs (fc_oc fc) bf))
      else None)"

lemma first_elected_find: "first_elected topics is = find (\<lambda>i. i \<in> set topics) is"
  by (induction "is") auto

lemma deliver_beef_steps:
  assumes "over_senders (fc_oc fc) ns strip cs" and "c \<in> set cs"
  shows "senders.steps (fc_oc fc) ns strip
    (deliver_beef fc g (oc_DeliverableTopicIDs (fc_oc fc) bf) (beef_object (fc_oc fc) bf) raw bf) cn_ID
    (\<lambda>c. map_option (\<lambda>t. (raw, BeefItem (bf\<lparr>be_TopicID := t\<rparr>))) (beef_topic fc g bf c)) c"
proof -
  obtain p where p: "cn_Sink c = sender_sink (fc_oc fc) ns p (cn_ID c)" "quiet_observers strip c"
    using assms by (auto simp: over_senders_def)
  let ?d = "deliver_beef fc g (oc_DeliverableTopicIDs (fc_oc fc) bf) (beef_object (fc_oc fc) bf) raw bf"
  have u: "(if t \<noteq> be_TopicID bf then bf\<lparr>be_TopicID := t\<rparr> else bf) = bf\<lparr>be_TopicID := t\<rparr>" for t by simp
  show ?thesis
  proof (cases "beef_topic fc g bf c")
    case None
    have "\<exists>w'. ?d c (w, err) = Some (w', err) \<and> world_ok strip w' \<and> ew_wrote w' = ew_wrote w" if "world_ok strip w" for w err
      using p(2) None that
      by (auto simp: quiet_observers_def deliver_beef_def beef_topic_def first_elected_find split: if_splits option.splits)
    then show ?thesis using None by (simp add: senders.steps_def)
  next
    case (Some t)
    then have "?d c = call_sink (sender_call (fc_oc fc) ns (cn_ID c) (raw, BeefItem (bf\<lparr>be_TopicID := t\<rparr>)))"
      unfolding deliver_beef_def Let_def u using p(1)
      by (auto simp: fun_eq_iff beef_topic_def first_elected_find sender_sink_def split: if_splits)
    then show ?thesis using Some by (simp add: senders.steps_def)
  qed
qed

text \<open>
  C31. A BEEF object reaches exactly its subscribers, under the topic each of them elected. With any
  table over unicast senders: nothing is written to a consumer unless it elects the object's group,
  takes all topics or has elected one of the deliverable topics, accepts the object's encoding, and
  the object is not its own submission. Such a consumer is written at most one copy, whose delivery
  record names the first deliverable topic it elected (the header topic if it takes all); and if no
  error is returned each of them got its copy. A consumer that elected no topic gets nothing.
\<close>

theorem fanout_beef_exact:
  assumes "over_senders (fc_oc fc) ns strip cs" and "world_ok strip w" and "sk_beefEngine s = Some pe" and "g = pe (be_TopicID bf)"
    and "copy = (\<lambda>c t. if strip (cn_ID c) then oc_EncodeBEEFDelivery (fc_oc fc) t (be_Payload bf) else raw)"
  shows "\<exists>w' err. SendBeef_Fanout fc raw bf (Apply cs s) w = Some (w', err) \<and> world_ok strip w' \<and>
    (\<forall>c\<in>set cs. ew_wrote w' (cn_ID c) = ew_wrote w (cn_ID c) \<or>
       (\<exists>t. elects g c \<and> beef_topic fc g bf c = Some t \<and> ew_wrote w' (cn_ID c) = ew_wrote w (cn_ID c) @ [copy c t])) \<and>
    (err = None \<longrightarrow> (\<forall>c\<in>set cs. \<forall>t. elects g c \<and> beef_topic fc g bf c = Some t \<longrightarrow>
       ew_wrote w' (cn_ID c) = ew_wrote w (cn_ID c) @ [copy c t])) \<and>
    (\<forall>c\<in>set cs. cn_TopicSet c = [] \<and> \<not> cn_AllTopics c \<longrightarrow> ew_wrote w' (cn_ID c) = ew_wrote w (cn_ID c))"
proof -
  let ?d = "deliver_beef fc g (oc_DeliverableTopicIDs (fc_oc fc) bf) (beef_object (fc_oc fc) bf) raw bf"
  have r: "SendBeef_Fanout fc raw bf (Apply cs s) w = each ?d (listed g cs @ unrestricted cs) (w, None)"
    by (simp add: SendBeef_Fanout_def each_append assms(3,4) Let_def)
  have st: "\<forall>c\<in>set cs. senders.steps (fc_oc fc) ns strip ?d cn_ID
    (\<lambda>c. map_option (\<lambda>t. (raw, BeefItem (bf\<lparr>be_TopicID := t\<rparr>))) (beef_topic fc g bf c)) c"
    using deliver_beef_steps [OF assms(1)] by blast
  have f: "form_of (fc_oc fc) strip (cn_ID c) (raw, BeefItem (bf\<lparr>be_TopicID := t\<rparr>)) = Some (copy c t)" for c t
    by (simp add: form_of_def assms(5))
  from offered_exactly [OF assms(1,2) st, of g] obtain w' err where
    o: "each ?d (listed g cs @ unrestricted cs) (w, None) = Some (w', err)" "world_ok strip w'"
      "\<forall>c\<in>set cs. ew_wrote w' (cn_ID c) = ew_wrote w (cn_ID c) \<or>
        (\<exists>t. elects g c \<and> beef_topic fc g bf c = Some t \<and> ew_wrote w' (cn_ID c) = ew_wrote w (cn_ID c) @ [copy c t])"
      "err = None \<longrightarrow> (\<forall>c\<in>set cs. \<forall>t. elects g c \<and> beef_topic fc g bf c = Some t \<longrightarrow>
        ew_wrote w' (cn_ID c) = ew_wrote w (cn_ID c) @ [copy c t])"
    by (elim exE conjE) (rule that; fastforce simp: f split: option.splits)
  have "beef_topic fc g bf c = None" if "cn_TopicSet c = []" "\<not> cn_AllTopics c" for c :: "egress_world Consumer"
    using that by (simp add: beef_topic_def find_None_iff)
  then have "\<forall>c\<in>set cs. cn_TopicSet c = [] \<and> \<not> cn_AllTopics c \<longrightarrow> ew_wrote w' (cn_ID c) = ew_wrote w (cn_ID c)"
    using o(3) by fastforce
  then show ?thesis unfolding r using o by (intro exI [of _ w'] exI [of _ err]) simp
qed

section \<open>Witnesses\<close>

definition demo_fc :: fanout_common where
  "demo_fc = \<lparr>fc_sc = \<lparr>sc_FrameVerV2 = 2, sc_FrameVerV4 = 4, sc_FrameVerV5 = 5, sc_FrameVerV9 = 9, sc_HeaderSize = 92,
     sc_BEEFRecordMaxEnvelope = 64, sc_TxSize = (\<lambda>_. None), sc_TxID = (\<lambda>_. None)\<rparr>, fc_oc = demo_oc,
     fc_Hash = (\<lambda>a g sid. ucast a + ucast g)\<rparr>"

definition demo_up :: "string \<Rightarrow> net" where
  "demo_up i = demo_net (300 * millisecond) None None"

definition demo_consumer :: "string \<Rightarrow> u32 list \<Rightarrow> id16 \<Rightarrow> id32 list \<Rightarrow> egress_world Consumer" where
  "demo_consumer i shards own topics = \<lparr>cn_ID = i, cn_Shards = shards, cn_Filt = None, cn_Sink = sender_sink demo_oc demo_up ''udp'' i,
     cn_OwnIngressIP = own, cn_BundleCapable = False, cn_IngressObs = None, cn_TopicSet = topics, cn_AllTopics = False,
     cn_BEEFVersions = [], cn_BEEFObs = None\<rparr>"

definition demo_table :: "egress_world Consumer list" where
  "demo_table = [demo_consumer ''all'' [] 0 [8], demo_consumer ''five'' [5] 0 [9], demo_consumer ''six'' [6] 0 [9], demo_consumer ''own'' [5] 37 []]"

definition demo_world :: egress_world where
  "demo_world = \<lparr>ew_sender = (\<lambda>i. demo_sender), ew_wrote = (\<lambda>i. [])\<rparr>"

definition demo_fan :: "egress_world Sink" where
  "demo_fan = SetBEEFEngine (Some (\<lambda>t. 5)) (New_Fanout (\<lambda>t. ucast t))"

lemma demo_table_ok: "over_senders (fc_oc demo_fc) demo_up (\<lambda>_. False) demo_table" "world_ok (\<lambda>_. False) demo_world"
  by (auto simp: over_senders_def demo_table_def demo_consumer_def demo_fc_def quiet_observers_def observe_ingress_def observe_beef_def
      world_ok_def demo_world_def sender_ok_def demo_sender_def redial_defs)

lemma demo_table_sel: "cn_ID (demo_consumer i sh own ts) = i" "cn_Shards (demo_consumer i sh own ts) = sh"
  "cn_Filt (demo_consumer i sh own ts) = None" "cn_OwnIngressIP (demo_consumer i sh own ts) = own"
  "cn_TopicSet (demo_consumer i sh own ts) = ts" "\<not> cn_AllTopics (demo_consumer i sh own ts)"
  "cn_BEEFVersions (demo_consumer i sh own ts) = []"
  by (simp_all add: demo_consumer_def)

lemma demo_call:
  assumes "ew_sender w i = demo_sender"
  shows "\<exists>v. sender_call demo_oc demo_up i (raw, TxItem f) w = Some (v, None) \<and> (\<forall>j. j \<noteq> i \<longrightarrow> ew_sender v j = ew_sender w j)"
    "\<exists>v. sender_call demo_oc demo_up i (raw, BeefItem bf) w = Some (v, None) \<and> (\<forall>j. j \<noteq> i \<longrightarrow> ew_sender v j = ew_sender w j)"
  using assms
  by (simp_all add: sender_call_def send_item_wire_form SendRaw_def sendUDP_def dialUDP_def udp_dial_error_def demo_up_def
      demo_net_def demo_sender_def millisecond_def)

lemma demo_sends:
  "\<exists>v. Send_Fanout demo_fc 0 [1, 7] demo_frame (Apply demo_table demo_fan) demo_world = Some (v, None)"
  "be_TopicID bf = 9 \<Longrightarrow> be_HashKey bf = 42 \<Longrightarrow>
   \<exists>v. SendBeef_Fanout demo_fc [1, 7] bf (Apply demo_table demo_fan) demo_world = Some (v, None)"
proof -
  have t: "listed 5 demo_table @ unrestricted demo_table =
    [demo_consumer ''five'' [5] 0 [9], demo_consumer ''own'' [5] 37 [], demo_consumer ''all'' [] 0 [8]]"
    by (simp add: listed_def demo_table_def demo_table_sel)
  have s: "es_Send (cn_Sink (demo_consumer i sh own ts)) raw f = sender_call demo_oc demo_up i (raw, TxItem f)"
    "es_SendBeef (cn_Sink (demo_consumer i sh own ts)) raw bf = sender_call demo_oc demo_up i (raw, BeefItem bf)" for i sh own ts raw f bf
    by (simp_all add: demo_consumer_def sender_sink_def)
  have o: "observe_ingress (demo_consumer i sh own ts) n m w = w" "observe_beef (demo_consumer i sh own ts) r n w = w" for i sh own ts n m w r
    by (simp_all add: demo_consumer_def observe_ingress_def observe_beef_def)
  have g: "sk_engine demo_fan (fr_TxID demo_frame) = 5" "sk_beefEngine demo_fan = Some (\<lambda>t. 5)"
    by (simp_all add: demo_fan_def New_Fanout_def SetBEEFEngine_def demo_frame_def)
  have f: "fr_Version demo_frame = 2" "fr_HashKey demo_frame = 42" "sc_FrameVerV2 (fc_sc demo_fc) = 2" "fc_Hash demo_fc a gi sid = ucast a + ucast gi"
    "oc_DeliverableTopicIDs (fc_oc demo_fc) bf = [be_TopicID bf]" for a gi sid bf
    by (simp_all add: demo_frame_def demo_fc_def demo_oc_def)
  have w: "ew_sender demo_world i = demo_sender" for i by (simp add: demo_world_def)
  obtain v1 where v1: "sender_call demo_oc demo_up ''five'' ([1, 7], TxItem demo_frame) demo_world = Some (v1, None)" "ew_sender v1 ''all'' = demo_sender"
    using demo_call(1) [OF w [of "''five''"], of "[1, 7]" demo_frame] by (auto simp: w)
  obtain v2 where v2: "sender_call demo_oc demo_up ''all'' ([1, 7], TxItem demo_frame) v1 = Some (v2, None)"
    using demo_call(1) [OF v1(2), of "[1, 7]" demo_frame] by blast
  have "Send_Fanout demo_fc 0 [1, 7] demo_frame (Apply demo_table demo_fan) demo_world = Some (v2, None)"
    unfolding Send_Fanout_def Let_def Apply_sel g each_append [symmetric] t
    by (simp add: deliver_tx_def filt_allows_def isOwnTraffic_def demo_table_sel s o f call_sink_def note_err_def v1 v2)
  then show "\<exists>v. Send_Fanout demo_fc 0 [1, 7] demo_frame (Apply demo_table demo_fan) demo_world = Some (v, None)" ..
  assume b: "be_TopicID bf = 9" "be_HashKey bf = 42"
  obtain v3 where v3: "sender_call demo_oc demo_up ''five'' ([1, 7], BeefItem bf) demo_world = Some (v3, None)"
    using demo_call(2) [OF w [of "''five''"], of "[1, 7]" bf] by blast
  have "SendBeef_Fanout demo_fc [1, 7] bf (Apply demo_table demo_fan) demo_world = Some (v3, None)"
    unfolding SendBeef_Fanout_def Let_def Apply_sel g option.case each_append [symmetric] t
    by (simp add: deliver_beef_def version_accepted_def isOwnBeef_def demo_table_sel s o f b call_sink_def note_err_def v3)
  then show "\<exists>v. SendBeef_Fanout demo_fc [1, 7] bf (Apply demo_table demo_fan) demo_world = Some (v, None)" ..
qed

text \<open>The consumer with id \<open>own\<close> is the source of the frame, flow 42 on group 5.\<close>

theorem fanout_tx_exact_witness:
  "\<exists>w'. Send_Fanout demo_fc 0 [1, 7] demo_frame (Apply demo_table demo_fan) demo_world = Some (w', None) \<and>
     ew_wrote w' ''six'' = [] \<and> ew_wrote w' ''own'' = [] \<and> ew_wrote w' ''all'' = [[1, 7]] \<and> ew_wrote w' ''five'' = [[1, 7]]"
proof -
  note n = demo_sends(1)
  have g: "(5 :: u32) = sk_engine demo_fan (fr_TxID demo_frame)"
    by (simp add: demo_fan_def New_Fanout_def SetBEEFEngine_def demo_frame_def)
  have t: "entitled_tx demo_fc 0 5 demo_frame (demo_consumer i sh own ts) =
    (elects 5 (demo_consumer i sh own ts) \<and> (own = 0 \<or> ucast own + 5 \<noteq> (42 :: u64)))" for i sh own ts
    by (simp add: entitled_tx_def filt_allows_def isOwnTraffic_def demo_table_sel demo_fc_def demo_frame_def)
  show ?thesis
    using fanout_tx_exact [OF demo_table_ok g, of 0 "[1, 7]"] n
    by (auto simp: demo_table_def demo_table_sel t elects_def demo_world_def)
qed

definition demo_beef :: BEEFFrame where
  "demo_beef = \<lparr>be_ContentID = 1, be_TopicID = 9, be_HashKey = 42, be_SeqNum = 1, be_DeliverCount = 1, be_Payload = [1, 2, 3, 4]\<rparr>"

theorem fanout_beef_exact_witness:
  "\<exists>w'. SendBeef_Fanout demo_fc [1, 7] demo_beef (Apply demo_table demo_fan) demo_world = Some (w', None) \<and>
     ew_wrote w' ''six'' = [] \<and> ew_wrote w' ''own'' = [] \<and> ew_wrote w' ''all'' = [] \<and> ew_wrote w' ''five'' = [[1, 7]]"
proof -
  note n = demo_sends(2) [of demo_beef]
  have g: "sk_beefEngine demo_fan = Some (\<lambda>t. 5)" "(5 :: u32) = (\<lambda>t. 5) (be_TopicID demo_beef)"
    by (simp_all add: demo_fan_def SetBEEFEngine_def)
  have t: "beef_topic demo_fc 5 demo_beef (demo_consumer i sh own ts) =
    (if own \<noteq> 0 \<and> ucast own + 5 = (42 :: u64) \<or> 9 \<notin> set ts then None else Some 9)" for i sh own ts
    by (auto simp: beef_topic_def version_accepted_def isOwnBeef_def demo_table_sel demo_fc_def demo_beef_def demo_oc_def)
  show ?thesis
    using fanout_beef_exact [where bf = demo_beef, OF demo_table_ok g refl, of "[1, 7]"] n [unfolded demo_beef_def, simplified, folded demo_beef_def]
    by (auto simp: demo_table_def demo_table_sel t elects_def demo_world_def)
qed

end
