(* ===== verification/Txdedup.thy ===== *)
theory Txdedup
  imports Prelude
begin

text \<open>
  The cross-listener claim store of \<^verbatim>\<open>txdedup/txdedup.go\<close>: defaults and key prefixes, claims on the
  deployment's egress namespace, the courtesy mark of the proxy's namespace, and the adapters that
  route the counters. \<^verbatim>\<open>txidset.Store\<close> is shard-common's: the record \<open>txidset\<close> holds the methods of
  one such store on a world of arbitrary type \<open>'w\<close>, and its constructor is the argument \<open>new\<close>. A nil
  pointer is \<open>None\<close>.
\<close>

record 'w txidset =
  ts_Claim :: "string \<Rightarrow> id32 \<Rightarrow> 'w \<Rightarrow> 'w \<times> bool \<times> string option"
  ts_Mark :: "string \<Rightarrow> id32 \<Rightarrow> 'w \<Rightarrow> 'w"
  ts_Close :: "'w \<Rightarrow> 'w \<times> string option"

text \<open>What a txidset reports to its recorder, and what the listener's recorder counts.\<close>

datatype set_event = ClaimLocalHit | ClaimWon | ClaimLost | ClaimError | MarkSet | MarkExisted | MarkError | MarkDropped
datatype claim_metric = EgressClaimLocalHit | EgressClaimWon | EgressClaimLost | EgressClaimError
  | IngressMarkSet | IngressMarkExisted | IngressMarkError | IngressMarkDropped

fun egressRecAdapter :: "bool \<Rightarrow> set_event \<Rightarrow> claim_metric option" where
  "egressRecAdapter rc ClaimLocalHit = (if rc then Some EgressClaimLocalHit else None)"
| "egressRecAdapter rc ClaimWon = (if rc then Some EgressClaimWon else None)"
| "egressRecAdapter rc ClaimLost = (if rc then Some EgressClaimLost else None)"
| "egressRecAdapter rc ClaimError = (if rc then Some EgressClaimError else None)"
| "egressRecAdapter rc _ = None"

fun ingressRecAdapter :: "bool \<Rightarrow> set_event \<Rightarrow> claim_metric option" where
  "ingressRecAdapter rc MarkSet = (if rc then Some IngressMarkSet else None)"
| "ingressRecAdapter rc MarkExisted = (if rc then Some IngressMarkExisted else None)"
| "ingressRecAdapter rc MarkError = (if rc then Some IngressMarkError else None)"
| "ingressRecAdapter rc MarkDropped = (if rc then Some IngressMarkDropped else None)"
| "ingressRecAdapter rc _ = None"

record set_config =
  sg_Backend :: "nat option"
  sg_RedisAddr :: string
  sg_TTL :: dur
  sg_LocalCapacity :: int
  sg_Recorder :: "set_event \<Rightarrow> claim_metric option"

type_synonym 'w new_set = "set_config \<Rightarrow> 'w \<Rightarrow> 'w \<times> (string + 'w txidset)"

record claim_config =
  cg_EgressBackend :: "nat option"
  cg_EgressRedisAddr :: string
  cg_EgressPrefix :: string
  cg_EgressTTL :: dur
  cg_EgressLocalCap :: int
  cg_DeploymentID :: string
  cg_IngressBackend :: "nat option"
  cg_IngressRedisAddr :: string
  cg_IngressPrefix :: string
  cg_IngressTTL :: dur
  cg_IngressLocalCap :: int
  cg_Recorder :: bool

record 'w Store =
  td_egress :: "'w txidset option"
  td_egressPrefix :: string
  td_ingress :: "'w txidset option"
  td_ingressPrefix :: string

definition default_cap :: "int \<Rightarrow> int \<Rightarrow> int" where
  "default_cap dflt n = (if n \<le> 0 then dflt else n)"

definition default_prefix :: "string \<Rightarrow> string \<Rightarrow> string" where
  "default_prefix dflt p = (if p = [] then dflt else p)"

definition egress_prefix :: "claim_config \<Rightarrow> string" where
  "egress_prefix cfg =
     (let p = default_prefix ''bsl:egr:'' (cg_EgressPrefix cfg)
      in if cg_DeploymentID cfg \<noteq> [] then p @ cg_DeploymentID cfg @ '':'' else p)"

definition ingress_configured :: "claim_config \<Rightarrow> bool" where
  "ingress_configured cfg \<longleftrightarrow> cg_IngressBackend cfg \<noteq> None \<or> cg_IngressRedisAddr cfg \<noteq> [] \<or> cg_IngressPrefix cfg \<noteq> []"

text \<open>\<open>cap\<close> is \<^verbatim>\<open>txidset.DefaultLocalCapacity\<close>.\<close>

definition NewWithConfig :: "'w new_set \<Rightarrow> int \<Rightarrow> claim_config \<Rightarrow> 'w \<Rightarrow> 'w \<times> (string + 'w Store)" where
  "NewWithConfig new cap cfg w =
     (if cg_EgressTTL cfg \<le> 0 then (w, Inl ''txdedup: EgressTTL must be > 0'')
      else case new \<lparr>sg_Backend = cg_EgressBackend cfg, sg_RedisAddr = cg_EgressRedisAddr cfg, sg_TTL = cg_EgressTTL cfg,
                     sg_LocalCapacity = default_cap cap (cg_EgressLocalCap cfg), sg_Recorder = egressRecAdapter (cg_Recorder cfg)\<rparr> w of
        (w1, Inl e) \<Rightarrow> (w1, Inl (''txdedup: egress store: '' @ e))
      | (w1, Inr eg) \<Rightarrow>
          let s = \<lparr>td_egress = Some eg, td_egressPrefix = egress_prefix cfg, td_ingress = None, td_ingressPrefix = []\<rparr> in
          if \<not> ingress_configured cfg then (w1, Inr s)
          else if cg_IngressTTL cfg \<le> 0
          then (fst (ts_Close eg w1), Inl ''txdedup: IngressTTL must be > 0 when ingress mark is configured'')
          else case new \<lparr>sg_Backend = cg_IngressBackend cfg, sg_RedisAddr = cg_IngressRedisAddr cfg, sg_TTL = cg_IngressTTL cfg,
                         sg_LocalCapacity = default_cap cap (cg_IngressLocalCap cfg), sg_Recorder = ingressRecAdapter (cg_Recorder cfg)\<rparr> w1 of
            (w2, Inl e) \<Rightarrow> (fst (ts_Close eg w2), Inl (''txdedup: ingress store: '' @ e))
          | (w2, Inr ing) \<Rightarrow> (w2, Inr (s\<lparr>td_ingress := Some ing, td_ingressPrefix := default_prefix ''bsp:tx:'' (cg_IngressPrefix cfg)\<rparr>)))"

definition New_Store :: "'w new_set \<Rightarrow> int \<Rightarrow> string \<Rightarrow> string \<Rightarrow> dur \<Rightarrow> 'w \<Rightarrow> 'w \<times> (string + 'w Store)" where
  "New_Store new cap addr prefix ttl =
     NewWithConfig new cap \<lparr>cg_EgressBackend = None, cg_EgressRedisAddr = addr, cg_EgressPrefix = prefix, cg_EgressTTL = ttl,
       cg_EgressLocalCap = cap, cg_DeploymentID = [], cg_IngressBackend = None, cg_IngressRedisAddr = [], cg_IngressPrefix = [],
       cg_IngressTTL = 0, cg_IngressLocalCap = 0, cg_Recorder = False\<rparr>"

definition Claim :: "'w Store option \<Rightarrow> id32 \<Rightarrow> 'w \<Rightarrow> 'w \<times> bool \<times> string option" where
  "Claim st txid w =
     (case st of None \<Rightarrow> (w, True, None)
      | Some s \<Rightarrow> (case td_egress s of None \<Rightarrow> (w, True, None) | Some eg \<Rightarrow> ts_Claim eg (td_egressPrefix s) txid w))"

definition Mark :: "'w Store option \<Rightarrow> id32 \<Rightarrow> 'w \<Rightarrow> 'w" where
  "Mark st txid w =
     (case st of None \<Rightarrow> w
      | Some s \<Rightarrow> (case td_ingress s of None \<Rightarrow> w | Some ing \<Rightarrow> ts_Mark ing (td_ingressPrefix s) txid w))"

definition HasIngressMark :: "'w Store option \<Rightarrow> bool" where
  "HasIngressMark st = (case st of None \<Rightarrow> False | Some s \<Rightarrow> td_ingress s \<noteq> None)"

definition EgressPrefix :: "'w Store option \<Rightarrow> string" where
  "EgressPrefix st = (case st of None \<Rightarrow> [] | Some s \<Rightarrow> td_egressPrefix s)"

definition IngressPrefix :: "'w Store option \<Rightarrow> string" where
  "IngressPrefix st = (case st of None \<Rightarrow> [] | Some s \<Rightarrow> td_ingressPrefix s)"

definition Close_Store :: "'w Store option \<Rightarrow> 'w \<Rightarrow> 'w \<times> string option" where
  "Close_Store st w =
     (case st of None \<Rightarrow> (w, None)
      | Some s \<Rightarrow>
          let (w1, first) = (case td_egress s of None \<Rightarrow> (w, None) | Some eg \<Rightarrow> ts_Close eg w)
          in case td_ingress s of None \<Rightarrow> (w1, first)
             | Some ing \<Rightarrow> let (w2, e) = ts_Close ing w1 in (w2, if first = None then e else first))"

section \<open>Deployments do not share keys\<close>

text \<open>\<open>hex\<close> stands for the textual txid; all the argument needs is that it holds no colon.\<close>

lemma prefix_parts:
  assumes "a @ x = b @ y" and "c \<notin> set x" and "c \<notin> set y" and "a = [] \<or> last a = c" and "b = [] \<or> last b = c"
  shows "a = b \<and> x = (y :: 'a list)"
proof -
  from assms(1) obtain us where "a = b @ us \<and> us @ x = y \<or> a @ us = b \<and> x = us @ y" by (auto simp: append_eq_append_conv2)
  then show ?thesis using assms(2-5) by (cases "us = []") (auto simp: last_append, (metis last_in_set)+)
qed

lemma deployments_disjoint:
  assumes "egress_prefix c1 @ h1 = egress_prefix c2 @ h2" and "CHR '':'' \<notin> set h1" and "CHR '':'' \<notin> set h2"
    and "default_prefix ''bsl:egr:'' (cg_EgressPrefix c1) = default_prefix ''bsl:egr:'' (cg_EgressPrefix c2)"
    and "last (default_prefix ''bsl:egr:'' (cg_EgressPrefix c1)) = CHR '':''"
  shows "cg_DeploymentID c1 = cg_DeploymentID c2 \<and> h1 = h2"
proof -
  have l: "last (egress_prefix c) = CHR '':''" if "last (default_prefix ''bsl:egr:'' (cg_EgressPrefix c)) = CHR '':''" for c
    using that by (simp add: egress_prefix_def Let_def)
  have "egress_prefix c1 = egress_prefix c2 \<and> h1 = h2"
    by (rule prefix_parts [OF assms(1-3)]) (use l [of c1] l [of c2] assms(4,5) in simp_all)
  then show ?thesis using assms(4) by (auto simp: egress_prefix_def Let_def split: if_splits)
qed

end
