(* ===== verification/Retry_Tee.thy ===== *)
theory Retry_Tee
  imports Prelude "HOL-Library.Sublist"
begin

text \<open>
  The receive-side retry tee of \<^verbatim>\<open>listener/retrytee.go\<close>: which datagrams are mirrored, the bounded
  queue between the receive path and the sender goroutine, batched writes with their failures, and
  closing. The two goroutines are steps that interleave. The envelope of \<^verbatim>\<open>teewire\<close> is the argument
  \<open>encap\<close>; copy buffers and their pool are left out, since a queued datagram is a value.
\<close>

section \<open>Eligible datagrams\<close>

text \<open>The frame versions and the magic number of shard-common.\<close>

record tee_common =
  tc_MagicBSV :: u32
  tc_FrameVerV1 :: byte
  tc_FrameVerV7 :: byte
  tc_FrameVerV9 :: byte
  tc_encap :: "id16 \<times> u16 \<Rightarrow> byte list \<Rightarrow> byte list"

definition teeEligible :: "tee_common \<Rightarrow> byte list \<Rightarrow> bool" where
  "teeEligible tc raw =
     (if length raw < 7 \<or> word_of_bytes (sub_bytes 0 4 raw) \<noteq> tc_MagicBSV tc then False
      else let v = raw ! 6 in tc_FrameVerV1 tc \<le> v \<and> v \<le> tc_FrameVerV9 tc \<and> v \<noteq> tc_FrameVerV7 tc)"

section \<open>The tee\<close>

definition teeQueueDepth :: nat where "teeQueueDepth = 4096"
definition teeBatch :: nat where "teeBatch = 32"

datatype tee_metric = RetryTeeFrame | RetryTeeError | RetryTeeDropped

text \<open>\<open>te_batch\<close> is what the sender has taken off the queue; \<open>te_wrote\<close> what went out.\<close>

record Tee =
  te_rec :: bool
  te_depth :: nat
  te_closed :: bool
  te_started :: bool
  te_q :: "byte list list"
  te_batch :: "byte list list"
  te_done :: bool
  te_dropped :: u64
  te_loggedDrop :: bool
  te_loggedErr :: bool
  te_wrote :: "byte list list"
  te_connClosed :: bool
  te_metrics :: "tee_metric list"

definition newRetryTeeSender :: "bool \<Rightarrow> nat \<Rightarrow> Tee" where
  "newRetryTeeSender rc depth =
     \<lparr>te_rec = rc, te_depth = depth, te_closed = False, te_started = False, te_q = [], te_batch = [], te_done = False,
      te_dropped = 0, te_loggedDrop = False, te_loggedErr = False, te_wrote = [], te_connClosed = False, te_metrics = []\<rparr>"

definition start :: "Tee \<Rightarrow> Tee" where
  "start t = (if te_started t \<or> te_closed t then t else t\<lparr>te_started := True\<rparr>)"

text \<open>A resolution or dial failure is returned and leaves the worker without a tee.\<close>

definition SetRetryTee :: "string option \<Rightarrow> string option \<Rightarrow> bool \<Rightarrow> string + Tee" where
  "SetRetryTee resolve dial rc =
     (case resolve of Some e \<Rightarrow> Inl e | None \<Rightarrow>
        case dial of Some e \<Rightarrow> Inl e | None \<Rightarrow> Inr (start (newRetryTeeSender rc teeQueueDepth)))"

definition tee_count :: "tee_metric list \<Rightarrow> Tee \<Rightarrow> Tee" where
  "tee_count ms t = (if te_rec t then t\<lparr>te_metrics := te_metrics t @ ms\<rparr> else t)"

definition mirror :: "tee_common \<Rightarrow> id16 \<times> u16 \<Rightarrow> byte list \<Rightarrow> Tee \<Rightarrow> Tee" where
  "mirror tc src raw t =
     (let m = tc_encap tc src raw
      in if \<not> te_closed t \<and> length (te_q t) < te_depth t then t\<lparr>te_q := te_q t @ [m]\<rparr>
         else tee_count [RetryTeeDropped] (t\<lparr>te_dropped := te_dropped t + 1, te_loggedDrop := True\<rparr>))"

text \<open>\<open>from\<close> is the kernel's source address, \<open>None\<close> if it is not an IPv6 one.\<close>

definition teeToRetry :: "tee_common \<Rightarrow> byte list \<Rightarrow> (id16 \<times> u16) option \<Rightarrow> Tee \<Rightarrow> Tee" where
  "teeToRetry tc raw from t =
     (case from of None \<Rightarrow> t | Some src \<Rightarrow> if \<not> teeEligible tc raw then t else mirror tc src raw t)"

section \<open>The sender\<close>

text \<open>
  \<open>out n\<close> is the result of \<^verbatim>\<open>WriteBatch\<close> when \<open>n\<close> datagrams remain: an error, or how many it wrote,
  never more than it was given. Returned are the datagrams written and those given up, in order.
\<close>

function write_loop :: "(nat \<Rightarrow> nat option) \<Rightarrow> byte list list \<Rightarrow> byte list list \<times> byte list list" where
  "write_loop out [] = ([], [])"
| "write_loop out (m # ms) =
     (case out (length (m # ms)) of
        Some (Suc n) \<Rightarrow> let (ws, fs) = write_loop out (drop n ms) in (take (Suc n) (m # ms) @ ws, fs)
      | _ \<Rightarrow> let (ws, fs) = write_loop out ms in (ws, m # fs))"
  by pat_completeness auto
termination by (relation "measure (length \<circ> snd)") auto

definition writeFailed :: "Tee \<Rightarrow> Tee" where
  "writeFailed t = tee_count [RetryTeeError] (t\<lparr>te_loggedErr := True\<rparr>)"

definition writeBatch :: "(nat \<Rightarrow> nat option) \<Rightarrow> Tee \<Rightarrow> Tee" where
  "writeBatch out t =
     (let (ws, fs) = write_loop out (te_batch t);
          t1 = tee_count (replicate (length ws) RetryTeeFrame) (t\<lparr>te_wrote := te_wrote t @ ws, te_batch := []\<rparr>)
      in (writeFailed ^^ length fs) t1)"

definition take_next :: "Tee \<Rightarrow> Tee option" where
  "take_next t =
     (case te_q t of [] \<Rightarrow> None
      | m # q \<Rightarrow> if length (te_batch t) < teeBatch then Some (t\<lparr>te_q := q, te_batch := te_batch t @ [m]\<rparr>) else None)"

text \<open>
  The sender goroutine, or the caller of close when it was never started, until the queue is closed
  and empty. It writes once it saw the queue empty or the batch full; by then the receive path may
  have queued more, so the step asks only for a batch.
\<close>

inductive run_step :: "Tee \<Rightarrow> Tee \<Rightarrow> bool" where
  run_take: "te_started t \<or> te_closed t \<Longrightarrow> \<not> te_done t \<Longrightarrow> take_next t = Some t' \<Longrightarrow> run_step t t'"
| run_write: "\<not> te_done t \<Longrightarrow> te_batch t \<noteq> [] \<Longrightarrow> run_step t (writeBatch out t)"
| run_end: "te_closed t \<Longrightarrow> te_q t = [] \<Longrightarrow> te_batch t = [] \<Longrightarrow> run_step t (t\<lparr>te_done := True\<rparr>)"

definition close_begin :: "Tee \<Rightarrow> Tee" where
  "close_begin t = (if te_closed t then t else t\<lparr>te_closed := True\<rparr>)"

definition close_end :: "Tee \<Rightarrow> Tee option" where
  "close_end t = (if te_closed t \<and> te_done t then Some (t\<lparr>te_connClosed := True\<rparr>) else None)"

section \<open>Every mirrored datagram is accounted for\<close>

text \<open>The state paired with all datagrams offered to the tee so far, enveloped, in order.\<close>

inductive tee_step :: "tee_common \<Rightarrow> byte list list \<times> Tee \<Rightarrow> byte list list \<times> Tee \<Rightarrow> bool" for tc where
  step_start: "tee_step tc (os, t) (os, start t)"
| step_mirror: "tee_step tc (os, t) (os @ [tc_encap tc src raw], mirror tc src raw t)"
| step_run: "run_step t t' \<Longrightarrow> tee_step tc (os, t) (os, t')"
| step_close: "tee_step tc (os, t) (os, close_begin t)"
| step_closed: "close_end t = Some t' \<Longrightarrow> tee_step tc (os, t) (os, t')"

definition tee_init :: "byte list list \<times> Tee \<Rightarrow> bool" where
  "tee_init = (\<lambda>(os, t). os = [] \<and> t = newRetryTeeSender True teeQueueDepth)"

definition tee_inv :: "byte list list \<times> Tee \<Rightarrow> bool" where
  "tee_inv = (\<lambda>(os, t). te_rec t \<and> te_depth t = teeQueueDepth \<and> length (te_q t) \<le> teeQueueDepth \<and> length (te_batch t) \<le> teeBatch \<and>
     count_list (te_metrics t) RetryTeeFrame = length (te_wrote t) \<and>
     length os = length (te_wrote t) + count_list (te_metrics t) RetryTeeError + count_list (te_metrics t) RetryTeeDropped +
       length (te_batch t) + length (te_q t) \<and>
     te_dropped t = of_nat (count_list (te_metrics t) RetryTeeDropped) \<and>
     subseq (te_wrote t @ te_batch t @ te_q t) os \<and>
     (te_done t \<longrightarrow> te_closed t \<and> te_q t = [] \<and> te_batch t = []) \<and> (te_connClosed t \<longrightarrow> te_done t))"

lemma write_loop_law:
  "write_loop out ms = (ws, fs) \<Longrightarrow> length ws + length fs = length ms \<and> subseq ws ms"
proof (induction "length ms" arbitrary: ms ws fs rule: less_induct)
  case less
  show ?case
  proof (cases ms)
    case (Cons x xs)
    show ?thesis
    proof (cases "\<exists>n. out (length ms) = Some (Suc n)")
      case True
      then obtain n where n: "out (length (x # xs)) = Some (Suc n)" using Cons by blast
      obtain ws' fs' where r: "write_loop out (drop n xs) = (ws', fs')" by fastforce
      have l: "length ws' + length fs' = length xs - n" "subseq ws' (drop n xs)"
        using less.hyps [OF _ r] Cons by auto
      have "ws = x # take n xs @ ws'" "fs = fs'" using less.prems n r Cons by auto
      moreover have "subseq (take n xs @ ws') xs"
        using list_emb_append_mono [OF subseq_order.refl [of "take n xs"] l(2)] by simp
      ultimately show ?thesis using l(1) Cons by (auto simp: min_def)
    next
      case False
      obtain ws' fs' where r: "write_loop out xs = (ws', fs')" by fastforce
      have e: "ws = ws'" "fs = x # fs'" using less.prems r False Cons by (auto split: option.splits nat.splits)
      have "length ws' + length fs' = length xs \<and> subseq ws' xs" using less.hyps [OF _ r] Cons by simp
      then show ?thesis using e Cons by auto
    qed
  qed (use less.prems in simp)
qed

lemma writeFailed_pow:
  "te_rec t \<Longrightarrow> (writeFailed ^^ n) t = t\<lparr>te_loggedErr := te_loggedErr t \<or> 0 < n, te_metrics := te_metrics t @ replicate n RetryTeeError\<rparr>"
proof (induction n)
  case (Suc n)
  then show ?case by (simp add: writeFailed_def tee_count_def replicate_append_same)
qed simp

lemma count_list_replicate: "count_list (replicate n x) y = (if x = y then n else 0)"
  by (induction n) auto

lemma writeBatch_inv:
  assumes "tee_inv (os, t)" and "\<not> te_done t"
  shows "tee_inv (os, writeBatch out t)"
proof -
  obtain ws fs where r: "write_loop out (te_batch t) = (ws, fs)" by fastforce
  from write_loop_law [OF r] have l: "length ws + length fs = length (te_batch t)" "subseq ws (te_batch t)" by simp_all
  have "subseq (te_wrote t @ ws @ te_q t) (te_wrote t @ te_batch t @ te_q t)" 
    by (intro list_emb_append_mono subseq_order.refl l(2))
  moreover have "subseq (te_wrote t @ te_batch t @ te_q t) os" using assms(1) by (simp add: tee_inv_def)
  ultimately have "subseq (te_wrote t @ ws @ te_q t) os" by (rule subseq_order.trans)
  then show ?thesis
    using assms l(1) by (auto simp: tee_inv_def writeBatch_def r tee_count_def writeFailed_pow count_list_append count_list_replicate)
qed

interpretation tee: step_invariant tee_init "tee_step tc" tee_inv
proof
  fix s assume "tee_init s"
  then show "tee_inv s" by (auto simp: tee_init_def tee_inv_def newRetryTeeSender_def)
next
  fix s s' assume inv: "tee_inv s" and step: "tee_step tc s s'"
  from step inv show "tee_inv s'"
  proof (induction rule: tee_step.induct)
    case (step_start os t)
    then show ?case by (auto simp: tee_inv_def start_def)
  next
    case (step_mirror os t src raw)
    have "subseq (te_wrote t @ te_batch t @ te_q t @ [m]) (os @ [m])" for m :: "byte list"
      using step_mirror list_emb_append_mono [of "(=)" "te_wrote t @ te_batch t @ te_q t" os "[m]" "[m]"] by (simp add: tee_inv_def)
    moreover have "subseq (te_wrote t @ te_batch t @ te_q t) (os @ [m])" for m
      using step_mirror by (auto simp: tee_inv_def intro: subseq_order.trans)
    ultimately show ?case
      using step_mirror by (auto simp: tee_inv_def mirror_def Let_def tee_count_def count_list_append)
  next
    case (step_run t t' os)
    from step_run.hyps show ?case
    proof cases
      case run_take
      then show ?thesis using step_run.prems by (auto simp: tee_inv_def take_next_def split: list.splits if_splits)
    next
      case (run_write out)
      then show ?thesis using writeBatch_inv [OF step_run.prems] by simp
    next
      case run_end
      then show ?thesis using step_run.prems by (auto simp: tee_inv_def)
    qed
  next
    case (step_close os t)
    then show ?case by (auto simp: tee_inv_def close_begin_def)
  next
    case (step_closed t t' os)
    then show ?case by (auto simp: tee_inv_def close_end_def split: if_splits)
  qed
qed

text \<open>
  C11. The retry tee accounts for every datagram and never reorders. Under any interleaving of the
  receive path, the sender and a close: the queue holds at most 4096 datagrams; the number of
  datagrams offered equals those counted as mirrored, as failed and as dropped plus those still
  held; what was written is, in order, a subsequence of what was offered; and once the tee has
  closed its socket it holds nothing, so every datagram offered before is in one of the counters.
\<close>

theorem tee_ledger:
  assumes "reach tee_init (tee_step tc) (os, t)"
  shows "length (te_q t) \<le> 4096 \<and>
    length os = count_list (te_metrics t) RetryTeeFrame + count_list (te_metrics t) RetryTeeError +
      count_list (te_metrics t) RetryTeeDropped + length (te_batch t @ te_q t) \<and>
    length (te_wrote t) = count_list (te_metrics t) RetryTeeFrame \<and> subseq (te_wrote t) os \<and>
    (te_connClosed t \<longrightarrow> te_batch t @ te_q t = [])"
proof -
  have i: "tee_inv (os, t)" by (rule tee.reach_inv [OF assms])
  then have "subseq (te_wrote t @ te_batch t @ te_q t) os" by (simp add: tee_inv_def)
  moreover have "subseq (te_wrote t) (te_wrote t @ te_batch t @ te_q t)"
    using list_emb_append_mono [OF subseq_order.refl [of "te_wrote t"] list_emb_Nil] by simp
  ultimately have "subseq (te_wrote t) os" by (rule subseq_order.trans [rotated])
  then show ?thesis using i by (auto simp: tee_inv_def teeQueueDepth_def)
qed

text \<open>
  A tee that is closed drains: whatever it holds, steps of the sender alone lead to the end of its
  loop.
\<close>

lemma writeFailed_fields:
  "te_q ((writeFailed ^^ n) t) = te_q t \<and> te_batch ((writeFailed ^^ n) t) = te_batch t \<and>
   te_closed ((writeFailed ^^ n) t) = te_closed t \<and> te_done ((writeFailed ^^ n) t) = te_done t"
  by (induction n) (simp_all add: writeFailed_def tee_count_def)

lemma run_step_drains:
  assumes "te_closed t" and "\<not> te_done t"
  shows "\<exists>t'. run_step\<^sup>*\<^sup>* t t' \<and> te_done t' \<and> te_closed t'"
  using assms
proof (induction "2 * length (te_q t) + (if te_batch t = [] then 0 else 1)" arbitrary: t rule: less_induct)
  case less
  have next_step: ?case if "run_step t u" and "te_closed u" and "\<not> te_done u" and
      "2 * length (te_q u) + (if te_batch u = [] then 0 else 1) < 2 * length (te_q t) + (if te_batch t = [] then 0 else (1::nat))" for u
    using less.hyps [OF that(4,2,3)] that(1) by (meson converse_rtranclp_into_rtranclp)
  consider (full) "te_batch t \<noteq> []" | (empty) "te_batch t = []" "te_q t = []" | (more) m q where "te_batch t = []" "te_q t = m # q"
    by (cases "te_q t") auto
  then show ?case
  proof cases
    case full
    obtain ws fs where r: "write_loop (\<lambda>n. Some n) (te_batch t) = (ws, fs)" by fastforce
    show ?thesis
      by (rule next_step [of "writeBatch (\<lambda>n. Some n) t", OF run_write])
        (use full less.prems in \<open>simp_all add: writeBatch_def r writeFailed_fields tee_count_def\<close>)
  next
    case empty
    have "run_step t (t\<lparr>te_done := True\<rparr>)" by (rule run_end) (use empty less.prems in simp_all)
    then show ?thesis using less.prems(1) by (intro exI [of _ "t\<lparr>te_done := True\<rparr>"]) auto
  next
    case more
    show ?thesis
      by (rule next_step [of "t\<lparr>te_q := q, te_batch := [m]\<rparr>", OF run_take])
        (use more less.prems in \<open>simp_all add: take_next_def teeBatch_def\<close>)
  qed
qed

text \<open>
  One datagram mirrored, taken and written, one that follows lost to a write error, then the close.
\<close>

definition demo_tee :: tee_common where
  "demo_tee = \<lparr>tc_MagicBSV = 0xE3E1F3E8, tc_FrameVerV1 = 1, tc_FrameVerV7 = 7, tc_FrameVerV9 = 9, tc_encap = \<lambda>_ raw. 0 # raw\<rparr>"

definition demo_sent :: Tee where
  "demo_sent =
     (let t1 = mirror demo_tee (1, 9) [6] (mirror demo_tee (1, 9) [5] (start (newRetryTeeSender True teeQueueDepth)))
      in writeBatch (\<lambda>n. if n = 2 then Some 1 else None) (t1\<lparr>te_q := [], te_batch := [[0, 5], [0, 6]]\<rparr>))"

definition demo_closed :: Tee where
  "demo_closed = (close_begin demo_sent)\<lparr>te_done := True, te_connClosed := True\<rparr>"

lemma demo_sent_reach: "reach tee_init (tee_step demo_tee) ([[0, 5], [0, 6]], demo_sent)"
proof -
  let ?R = "reach tee_init (tee_step demo_tee)"
  let ?t0 = "newRetryTeeSender True teeQueueDepth"
  let ?t1 = "mirror demo_tee (1, 9) [5] (start ?t0)"
  let ?t2 = "mirror demo_tee (1, 9) [6] ?t1"
  have "?R ([], ?t0)" by (rule reach_init) (simp add: tee_init_def)
  then have "?R ([], start ?t0)" by (rule reach_step) (rule step_start)
  then have "?R ([] @ [tc_encap demo_tee (1, 9) [5]], ?t1)" by (rule reach_step) (rule step_mirror)
  then have "?R (([] @ [tc_encap demo_tee (1, 9) [5]]) @ [tc_encap demo_tee (1, 9) [6]], ?t2)" by (rule reach_step) (rule step_mirror)
  then have 2: "?R ([[0, 5], [0, 6]], ?t2)" by (simp add: demo_tee_def)
  have "?R ([[0, 5], [0, 6]], ?t2\<lparr>te_q := [[0, 6]], te_batch := [[0, 5]]\<rparr>)"
    by (rule reach_step [OF 2], intro step_run run_take)
      (simp_all add: mirror_def demo_tee_def start_def newRetryTeeSender_def take_next_def teeBatch_def teeQueueDepth_def)
  then have "?R ([[0, 5], [0, 6]], ?t2\<lparr>te_q := [], te_batch := [[0, 5], [0, 6]]\<rparr>)"
    by (rule reach_step, intro step_run run_take) (simp_all add: mirror_def demo_tee_def start_def newRetryTeeSender_def take_next_def teeBatch_def teeQueueDepth_def)
  then show ?thesis unfolding demo_sent_def Let_def
    by (rule reach_step, intro step_run run_write) (simp_all add: mirror_def demo_tee_def start_def newRetryTeeSender_def teeQueueDepth_def)
qed

lemma demo_sent_eq:
  "demo_sent = \<lparr>te_rec = True, te_depth = 4096, te_closed = False, te_started = True, te_q = [], te_batch = [],
     te_done = False, te_dropped = 0, te_loggedDrop = False, te_loggedErr = True, te_wrote = [[0, 5]], te_connClosed = False,
     te_metrics = [RetryTeeFrame, RetryTeeError]\<rparr>"
  by (simp add: demo_sent_def mirror_def demo_tee_def start_def newRetryTeeSender_def teeQueueDepth_def writeBatch_def
      writeFailed_def tee_count_def)

lemma demo_closed_reach: "reach tee_init (tee_step demo_tee) ([[0, 5], [0, 6]], demo_closed)"
proof -
  let ?R = "reach tee_init (tee_step demo_tee)"
  have "?R ([[0, 5], [0, 6]], close_begin demo_sent)" by (rule reach_step [OF demo_sent_reach step_close])
  then have "?R ([[0, 5], [0, 6]], (close_begin demo_sent)\<lparr>te_done := True\<rparr>)"
    by (rule reach_step, intro step_run run_end) (simp_all add: close_begin_def demo_sent_eq)
  then show ?thesis
    by (rule reach_step, intro step_closed) (simp add: close_end_def close_begin_def demo_closed_def demo_sent_eq)
qed

theorem tee_ledger_witness:
  "reach tee_init (tee_step demo_tee) ([[0, 5], [0, 6]], demo_closed) \<and> te_connClosed demo_closed \<and>
   subseq (te_wrote demo_closed) [[0, 5], [0, 6]] \<and> te_wrote demo_closed = [[0, 5]] \<and>
   te_batch demo_closed @ te_q demo_closed = []"
  using tee_ledger [OF demo_closed_reach] demo_closed_reach
  by (simp add: demo_closed_def close_begin_def demo_sent_eq)

end
