(* ===== verification/Worker.thy ===== *)
theory Worker
  imports Fanout Txdedup Retry_Tee Dedup Reassembly_Repair
begin

text \<open>
  The receive worker of \<^verbatim>\<open>listener/listener.go\<close>: its state, its configuration and the steps its
  frame handlers share. The handlers are in \<open>Worker_Frames\<close>.

  The state is the record \<open>Worker\<close>. It holds the components of this repository the worker owns or
  points to (filter, sender ACL, duplicate set, claim store, reassembly buffer, gap tracker, retry
  tee), the sinks, the world \<open>'w\<close> the sinks act on, and the metrics counted so far. A nil pointer is
  \<open>None\<close>; the tracker has a flag instead, so that its value can be shared with the reassembly
  hooks. Codecs, group constants and the proof-of-work check of shard-common are the record
  \<open>common\<close>, an argument of every definition; the re-bucketer, also shard-common's, acts on the
  world. The record \<open>env\<close> holds the clock readings and random draws of one delivery. Logging is
  left out.
\<close>

section \<open>State\<close>

record common =
  cm_fc :: fanout_common
  cm_tc :: tee_common
  cm_IsBlockFrame :: "byte list \<Rightarrow> bool"
  cm_IsSubtreeDataFrame :: "byte list \<Rightarrow> bool"
  cm_IsAnchorFrame :: "byte list \<Rightarrow> bool"
  cm_IsFragment :: "byte list \<Rightarrow> bool"
  cm_IsBundle :: "byte list \<Rightarrow> bool"
  cm_IsBEEFFrame :: "byte list \<Rightarrow> bool"
  cm_Decode :: "byte list \<Rightarrow> Frame option"
  cm_DecodeAnchor :: "byte list \<Rightarrow> Frame option"
  cm_DecodeBlock :: "byte list \<Rightarrow> BlockFrame option"
  cm_DecodeSubtreeData :: "byte list \<Rightarrow> SubtreeDataFrame option"
  cm_DecodeFragment :: "byte list \<Rightarrow> FragFrame option"
  cm_DecodeBundle :: "byte list \<Rightarrow> Bundle option"
  cm_DecodeBEEF :: "byte list \<Rightarrow> BEEFFrame option"
  cm_EncodeBlock :: "BlockFrame \<Rightarrow> byte list \<Rightarrow> byte list option"
  cm_EncodeSubtreeData :: "SubtreeDataFrame \<Rightarrow> byte list \<Rightarrow> byte list option"
  cm_EncodeBEEF :: "BEEFFrame \<Rightarrow> byte list \<Rightarrow> (byte list \<times> nat) option"
  cm_EncodeBundle :: "Bundle \<Rightarrow> byte list option"
  cm_EncodeBlockHeader :: "id32 \<Rightarrow> u64 \<Rightarrow> u64 \<Rightarrow> byte list \<Rightarrow> byte list \<Rightarrow> byte list option"
  cm_DecodeBlockHeader :: "byte list \<Rightarrow> Frame option"
  cm_FrameVerV6 :: byte
  cm_BlockMsgAnnounce :: byte
  cm_BlockMsgCoinbase :: byte
  cm_BlockHeaderSize :: nat
  cm_BlockHeaderFrameSize :: nat
  cm_GroupBlockBroadcast :: u32
  cm_GroupSubtreeDataAnnounce :: u32
  cm_GroupCoinbaseFlow :: u32
  cm_GroupBlockHeader :: u16
  cm_powHeaderSize :: nat
  cm_CheckHeader :: "byte list \<Rightarrow> int option \<Rightarrow> bool"
  cm_CompactToTarget :: "u32 \<Rightarrow> int"

abbreviation cm_sc :: "common \<Rightarrow> shard_common" where "cm_sc cm \<equiv> fc_sc (cm_fc cm)"
abbreviation cm_oc :: "common \<Rightarrow> objfmt_common" where "cm_oc cm \<equiv> fc_oc (cm_fc cm)"

text \<open>
  \<open>ev_filt\<close> is the clock the filter reads, \<open>ev_dedup\<close> that of the duplicate set in nanoseconds,
  \<open>ev_slot\<close> and \<open>ev_done\<close> those of the reassembly buffer, \<open>ev_req\<close> and \<open>ev_obs\<close> the clock and the jitter
  draws of the tracker when the buffer requests gaps and when the worker observes a frame.
\<close>

record env =
  ev_filt :: gtime
  ev_dedup :: int
  ev_slot :: gtime
  ev_done :: gtime
  ev_req :: "gtime \<times> (u64 \<Rightarrow> int)"
  ev_obs :: "gtime \<times> (u64 \<Rightarrow> int)"

datatype worker_metric = FrameReceived string | FrameDropped string | FrameInvalidPayload | FrameForwarded string
  | EgressError | MCEgressError | FrameDeduped | FrameTxDeduped | TxDedupError | HeaderEgressError | HeaderForwarded
  | ReassemblyCompleted | ReassemblyEvent event | BundleRebucketed | RebucketUnguarded

record 'w HeaderLane =
  hl_SendHeader :: "byte list \<Rightarrow> Frame \<Rightarrow> 'w send"
  hl_SendHeaderN :: "(byte list \<Rightarrow> Frame \<Rightarrow> 'w \<Rightarrow> ('w \<times> nat \<times> egress_error option) option) option"

record 'w Worker =
  wk_id :: int
  wk_groups :: "byte list list"
  wk_groupSources :: "(ip \<times> ip list) list"
  wk_engine :: "id32 \<Rightarrow> u32"
  wk_shardBits :: nat
  wk_filt :: Filter
  wk_egr :: "'w EgressSink"
  wk_mcastEgr :: "(byte list \<Rightarrow> Frame \<Rightarrow> u32 \<Rightarrow> 'w send) option"
  wk_headerEgr :: "(byte list \<Rightarrow> 'w send) option"
  wk_headerMCastEgr :: "(byte list \<Rightarrow> u16 \<Rightarrow> 'w send) option"
  wk_headerFanout :: "'w HeaderLane option"
  wk_headerHashKey :: u64
  wk_headerSeqNum :: u64
  wk_hasTracker :: bool
  wk_tracker :: Tracker
  wk_rec :: bool
  wk_verifyPayloadHash :: bool
  wk_senderACL :: "SenderACL option"
  wk_retryTee :: "Tee option"
  wk_dedupSet :: "Set option"
  wk_txDedup :: "'w Store option"
  wk_reassemBuf :: "clocked_tracker Buffer option"
  wk_beefEngine :: "(id32 \<Rightarrow> u32) option"
  wk_beefTopics :: "id32 list"
  wk_beefVersions :: "u32 list"
  wk_beefVerifyContent :: bool
  wk_requireBlockPoW :: bool
  wk_powFloor :: "int option"
  wk_curSource :: "ip option"
  wk_recvQueue :: int
  wk_egressSeq :: "(u64 \<times> u64) list"
  wk_rebucket :: "id16 \<Rightarrow> Bundle \<Rightarrow> 'w \<Rightarrow> 'w \<times> Bundle list"
  wk_relay :: bool
  wk_warnedRebucket :: bool
  wk_joinFd :: int
  wk_joinedGroups :: "ip list option"
  wk_world :: 'w
  wk_metrics :: "worker_metric list"

section \<open>Configuration\<close>

text \<open>What the constructor is given, and the fields it leaves at their zero values; \<open>rebucket\<close> is shard-common's.\<close>

definition New_Worker :: "int \<Rightarrow> byte list list \<Rightarrow> (id32 \<Rightarrow> u32) \<Rightarrow> nat \<Rightarrow> Filter \<Rightarrow> 'w EgressSink \<Rightarrow>
    (byte list \<Rightarrow> Frame \<Rightarrow> u32 \<Rightarrow> 'w send) option \<Rightarrow> Tracker option \<Rightarrow> Tracker \<Rightarrow> bool \<Rightarrow>
    (id16 \<Rightarrow> Bundle \<Rightarrow> 'w \<Rightarrow> 'w \<times> Bundle list) \<Rightarrow> 'w \<Rightarrow> 'w Worker" where
  "New_Worker i groups engine shardBits filt egr mcastEgr tracker t0 rc rebucket w =
     \<lparr>wk_id = i, wk_groups = groups, wk_groupSources = [], wk_engine = engine, wk_shardBits = shardBits, wk_filt = filt, wk_egr = egr,
      wk_mcastEgr = mcastEgr, wk_headerEgr = None, wk_headerMCastEgr = None, wk_headerFanout = None, wk_headerHashKey = 0,
      wk_headerSeqNum = 0, wk_hasTracker = (tracker \<noteq> None), wk_tracker = (case tracker of None \<Rightarrow> t0 | Some t \<Rightarrow> t),
      wk_rec = rc, wk_verifyPayloadHash = False, wk_senderACL = None, wk_retryTee = None, wk_dedupSet = None, wk_txDedup = None,
      wk_reassemBuf = None, wk_beefEngine = None, wk_beefTopics = [], wk_beefVersions = [], wk_beefVerifyContent = False,
      wk_requireBlockPoW = False, wk_powFloor = None, wk_curSource = None, wk_recvQueue = 0, wk_egressSeq = [],
      wk_rebucket = rebucket, wk_relay = False, wk_warnedRebucket = False, wk_joinFd = -1, wk_joinedGroups = None,
      wk_world = w, wk_metrics = []\<rparr>"

definition SetRecvQueueDepth :: "int \<Rightarrow> 'w Worker \<Rightarrow> 'w Worker" where
  "SetRecvQueueDepth depth W = W\<lparr>wk_recvQueue := if depth < 0 then 0 else depth\<rparr>"

definition SetGroupSources :: "(ip \<times> ip list) list \<Rightarrow> 'w Worker \<Rightarrow> 'w Worker" where
  "SetGroupSources src W = W\<lparr>wk_groupSources := src\<rparr>"

definition SetEgressDedup :: "Set option \<Rightarrow> 'w Worker \<Rightarrow> 'w Worker" where
  "SetEgressDedup s W = W\<lparr>wk_dedupSet := s\<rparr>"

definition SetTxDedup :: "'w Store option \<Rightarrow> 'w Worker \<Rightarrow> 'w Worker" where
  "SetTxDedup s W = W\<lparr>wk_txDedup := s\<rparr>"

definition SetReassemblyBuffer :: "clocked_tracker Buffer option \<Rightarrow> 'w Worker \<Rightarrow> 'w Worker" where
  "SetReassemblyBuffer b W = W\<lparr>wk_reassemBuf := b\<rparr>"

definition SetHeaderEgress :: "(byte list \<Rightarrow> 'w send) option \<Rightarrow> 'w Worker \<Rightarrow> 'w Worker" where
  "SetHeaderEgress s W = W\<lparr>wk_headerEgr := s\<rparr>"

definition SetHeaderMCastEgress :: "(byte list \<Rightarrow> u16 \<Rightarrow> 'w send) option \<Rightarrow> 'w Worker \<Rightarrow> 'w Worker" where
  "SetHeaderMCastEgress s W = W\<lparr>wk_headerMCastEgr := s\<rparr>"

definition SetHeaderFanout :: "'w HeaderLane option \<Rightarrow> 'w Worker \<Rightarrow> 'w Worker" where
  "SetHeaderFanout s W = W\<lparr>wk_headerFanout := s\<rparr>"

definition SetRebucketRelay :: "bool \<Rightarrow> 'w Worker \<Rightarrow> 'w Worker" where
  "SetRebucketRelay relay W = W\<lparr>wk_relay := relay\<rparr>"

definition SetHeaderEmitterIdentity :: "u64 \<Rightarrow> 'w Worker \<Rightarrow> 'w Worker" where
  "SetHeaderEmitterIdentity hk W = W\<lparr>wk_headerHashKey := hk, wk_headerSeqNum := 0\<rparr>"

definition SetSenderACL :: "SenderACL option \<Rightarrow> 'w Worker \<Rightarrow> 'w Worker" where
  "SetSenderACL a W = W\<lparr>wk_senderACL := a\<rparr>"

definition SetVerifyPayloadHash :: "bool \<Rightarrow> 'w Worker \<Rightarrow> 'w Worker" where
  "SetVerifyPayloadHash v W = W\<lparr>wk_verifyPayloadHash := v\<rparr>"

definition SetBEEF :: "(id32 \<Rightarrow> u32) option \<Rightarrow> id32 list \<Rightarrow> u32 list \<Rightarrow> bool \<Rightarrow> 'w Worker \<Rightarrow> 'w Worker" where
  "SetBEEF pe topics versions verifyContent W =
     W\<lparr>wk_beefEngine := pe, wk_beefTopics := topics, wk_beefVersions := versions, wk_beefVerifyContent := verifyContent\<rparr>"

definition SetBlockPoW :: "common \<Rightarrow> bool \<Rightarrow> u32 \<Rightarrow> 'w Worker \<Rightarrow> 'w Worker" where
  "SetBlockPoW cm require floorBits W =
     W\<lparr>wk_requireBlockPoW := require,
       wk_powFloor := if require \<and> floorBits \<noteq> 0 then Some (cm_CompactToTarget cm floorBits) else None\<rparr>"

definition SetRetryTee_Worker :: "string option \<Rightarrow> string option \<Rightarrow> 'w Worker \<Rightarrow> string option \<times> 'w Worker" where
  "SetRetryTee_Worker resolve dial W =
     (case SetRetryTee resolve dial (wk_rec W) of Inl e \<Rightarrow> (Some e, W) | Inr t \<Rightarrow> (None, W\<lparr>wk_retryTee := Some t\<rparr>))"

section \<open>Group membership\<close>

text \<open>\<open>join\<close> and \<open>leave\<close> are the results of \<^verbatim>\<open>netjoin\<close> on the worker's socket.\<close>

definition AddGroup :: "(ip \<Rightarrow> ip list \<Rightarrow> string option) \<Rightarrow> ip \<Rightarrow> ip list \<Rightarrow> 'w Worker \<Rightarrow> (string option \<times> 'w Worker) option" where
  "AddGroup join grp sources W =
     (if wk_joinFd W < 0 then Some (Some ''AddGroup before Run'', W)
      else case wk_joinedGroups W of
        None \<Rightarrow> (case join grp sources of Some e \<Rightarrow> Some (Some e, W) | None \<Rightarrow> None)
      | Some gs \<Rightarrow>
          if grp \<in> set gs then Some (None, W)
          else case join grp sources of
            Some e \<Rightarrow> Some (Some e, W)
          | None \<Rightarrow> Some (None, W\<lparr>wk_joinedGroups := Some (gs @ [grp])\<rparr>))"

definition RemoveGroup :: "(ip \<Rightarrow> ip list \<Rightarrow> string option) \<Rightarrow> ip \<Rightarrow> ip list \<Rightarrow> 'w Worker \<Rightarrow> string option \<times> 'w Worker" where
  "RemoveGroup leave grp sources W =
     (if wk_joinFd W < 0 then (Some ''RemoveGroup before Run'', W)
      else case wk_joinedGroups W of
        None \<Rightarrow> (None, W)
      | Some gs \<Rightarrow>
          if grp \<notin> set gs then (None, W)
          else case leave grp sources of
            Some e \<Rightarrow> (Some e, W)
          | None \<Rightarrow> (None, W\<lparr>wk_joinedGroups := Some (removeAll grp gs)\<rparr>))"

text \<open>In the order of joining; Go gives the members of a map in any order.\<close>

definition JoinedGroups :: "'w Worker \<Rightarrow> ip list option" where
  "JoinedGroups W = wk_joinedGroups W"

text \<open>\<^verbatim>\<open>net.IP.To16\<close>.\<close>

definition To16 :: "byte list \<Rightarrow> byte list option" where
  "To16 a = (if length a = 4 then Some (replicate 10 0 @ [0xFF, 0xFF] @ a) else if length a = 16 then Some a else None)"

text \<open>
  The start of \<^verbatim>\<open>Run\<close>, up to the receive loop: \<open>fd\<close> is the socket \<^verbatim>\<open>openRawSocket\<close> returns. On an error
  the deferred reset of the join state runs at once.
\<close>

fun join_all :: "(ip \<Rightarrow> ip list \<Rightarrow> string option) \<Rightarrow> byte list list \<Rightarrow> 'w Worker \<Rightarrow> string option \<times> 'w Worker" where
  "join_all join [] W = (None, W)"
| "join_all join (g # gs) W =
     (case To16 g of
        None \<Rightarrow> (Some ''bad group address'', W)
      | Some a \<Rightarrow>
          let ga = word_of_bytes a; srcs = map_slice ga (wk_groupSources W)
          in case join ga srcs of
               Some e \<Rightarrow> (Some (''join group: '' @ e), W)
             | None \<Rightarrow> join_all join gs (W\<lparr>wk_joinedGroups := map_option (\<lambda>js. if ga \<in> set js then js else js @ [ga]) (wk_joinedGroups W)\<rparr>))"

definition Run_end :: "'w Worker \<Rightarrow> 'w Worker" where
  "Run_end W = W\<lparr>wk_joinFd := -1, wk_joinedGroups := None\<rparr>"

definition Run_begin :: "string + int \<Rightarrow> (ip \<Rightarrow> ip list \<Rightarrow> string option) \<Rightarrow> 'w Worker \<Rightarrow> string option \<times> 'w Worker" where
  "Run_begin fd join W =
     (case fd of
        Inl e \<Rightarrow> (Some (''open socket: '' @ e), W)
      | Inr n \<Rightarrow>
          let (e, W1) = join_all join (wk_groups W) (W\<lparr>wk_joinFd := n, wk_joinedGroups := Some []\<rparr>)
          in if e \<noteq> None then (e, Run_end W1) else (None, W1))"

section \<open>Steps the handlers share\<close>

definition count :: "worker_metric \<Rightarrow> 'w Worker \<Rightarrow> 'w Worker" where
  "count m W = (if wk_rec W then W\<lparr>wk_metrics := wk_metrics W @ [m]\<rparr> else W)"

definition track :: "env \<Rightarrow> u32 \<Rightarrow> id32 \<Rightarrow> u64 \<Rightarrow> u64 \<Rightarrow> 'w Worker \<Rightarrow> 'w Worker option" where
  "track ev groupIdx sub hashKey seqNum W =
     (if wk_hasTracker W \<and> seqNum \<noteq> 0
      then do { t \<leftarrow> ObserveFrom (fst (ev_obs ev)) (snd (ev_obs ev)) (wk_id W) groupIdx sub hashKey seqNum (wk_curSource W) (wk_tracker W);
                Some (W\<lparr>wk_tracker := t\<rparr>) }
      else Some W)"

text \<open>One call of a sink: the world it leaves, then the counter of its outcome.\<close>

definition egress :: "'w send \<Rightarrow> worker_metric \<Rightarrow> worker_metric \<Rightarrow> 'w Worker \<Rightarrow> 'w Worker option" where
  "egress send ok bad W =
     do { (w, e) \<leftarrow> send (wk_world W); Some (count (if e = None then ok else bad) (W\<lparr>wk_world := w\<rparr>)) }"

definition forward :: "'w send \<Rightarrow> 'w Worker \<Rightarrow> 'w Worker option" where
  "forward send W = egress send (FrameForwarded (es_Proto (wk_egr W))) EgressError W"

definition mcast :: "byte list \<Rightarrow> Frame \<Rightarrow> u32 \<Rightarrow> 'w Worker \<Rightarrow> 'w Worker option" where
  "mcast raw f groupIdx W =
     (case wk_mcastEgr W of None \<Rightarrow> Some W
      | Some ms \<Rightarrow> egress (ms raw f groupIdx) (FrameForwarded ''udp-mcast'') MCEgressError W)"

text \<open>The outcome of a claim; on an error the frame goes on.\<close>

datatype claim_outcome = Proceed | Suppress

definition claim :: "id32 \<Rightarrow> 'w Worker \<Rightarrow> claim_outcome \<times> 'w Worker" where
  "claim key W =
     (case wk_txDedup W of None \<Rightarrow> (Proceed, W)
      | Some st \<Rightarrow>
          let (w, claimed, err) = Claim (Some st) key (wk_world W); W1 = W\<lparr>wk_world := w\<rparr>
          in if err \<noteq> None then (Proceed, count TxDedupError W1)
             else if \<not> claimed then (Suppress, count FrameTxDeduped W1)
             else (Proceed, W1))"

definition mark :: "id32 \<Rightarrow> 'w Worker \<Rightarrow> 'w Worker" where
  "mark key W = (if wk_txDedup W \<noteq> None \<and> HasIngressMark (wk_txDedup W)
     then W\<lparr>wk_world := Mark (wk_txDedup W) key (wk_world W)\<rparr> else W)"

definition seen :: "env \<Rightarrow> Key \<Rightarrow> 'w Worker \<Rightarrow> bool \<times> 'w Worker" where
  "seen ev key W =
     (case wk_dedupSet W of None \<Rightarrow> (False, W)
      | Some s \<Rightarrow> let (dup, s') = SeenAndAdd (ev_dedup ev) key s; W1 = W\<lparr>wk_dedupSet := Some s'\<rparr>
                  in (dup, if dup then count FrameDeduped W1 else W1))"

end
