(* ===== verification/Worker_Frames.thy ===== *)
theory Worker_Frames
  imports Worker
begin

text \<open>
  The frame handlers of the receive worker (\<^verbatim>\<open>listener/listener.go\<close>, \<^verbatim>\<open>listener/beef.go\<close>,
  \<^verbatim>\<open>listener/blockgate.go\<close>): every frame class on its direct path and on the path of a completed
  reassembly, and the two entries of the pipeline, a received datagram and a re-injected repair.
  A handler that may deliver several objects for one datagram takes a family of environments: number
  0 is the datagram's own, number \<open>i + 1\<close> that of its \<open>i\<close>-th nested delivery.
\<close>

section \<open>Block control\<close>

text \<open>\<^verbatim>\<open>blockgate.go\<close>: the verdict, and the drop it counts.\<close>

definition blockGateAllows :: "common \<Rightarrow> BlockFrame \<Rightarrow> byte list \<Rightarrow> 'w Worker \<Rightarrow> bool \<times> 'w Worker" where
  "blockGateAllows cm bf payload W =
     (if \<not> wk_requireBlockPoW W then (True, W)
      else if bk_MsgType bf = cm_BlockMsgAnnounce cm
      then (if length payload < cm_powHeaderSize cm \<or> \<not> cm_CheckHeader cm (take (cm_powHeaderSize cm) payload) (wk_powFloor W)
            then (False, count (FrameDropped ''block_pow'') W)
            else (True, W))
      else if bk_MsgType bf = cm_BlockMsgCoinbase cm then (False, count (FrameDropped ''coinbase_legacy'') W)
      else (True, W))"

definition blockFlowIdx :: "common \<Rightarrow> byte \<Rightarrow> u32" where
  "blockFlowIdx cm msgType = (if msgType = cm_BlockMsgCoinbase cm then cm_GroupCoinbaseFlow cm else cm_GroupBlockBroadcast cm)"

text \<open>The three header outputs in turn; an absent one is skipped.\<close>

definition header_unicast :: "byte list \<Rightarrow> 'w Worker \<Rightarrow> 'w Worker option" where
  "header_unicast buf W =
     (case wk_headerEgr W of None \<Rightarrow> Some W | Some send \<Rightarrow> egress (send buf) HeaderForwarded HeaderEgressError W)"

definition header_mcast :: "common \<Rightarrow> byte list \<Rightarrow> 'w Worker \<Rightarrow> 'w Worker option" where
  "header_mcast cm buf W =
     (case wk_headerMCastEgr W of None \<Rightarrow> Some W
      | Some send \<Rightarrow> egress (send buf (cm_GroupBlockHeader cm)) HeaderForwarded HeaderEgressError W)"

definition header_lane :: "common \<Rightarrow> byte list \<Rightarrow> 'w Worker \<Rightarrow> 'w Worker option" where
  "header_lane cm buf W =
     (case wk_headerFanout W of None \<Rightarrow> Some W
      | Some lane \<Rightarrow>
          (case cm_DecodeBlockHeader cm buf of None \<Rightarrow> Some W
           | Some hf \<Rightarrow>
               do { (w, delivered, err) \<leftarrow>
                      (case hl_SendHeaderN lane of
                         Some sendN \<Rightarrow> sendN buf hf (wk_world W)
                       | None \<Rightarrow> do { (w, e) \<leftarrow> hl_SendHeader lane buf hf (wk_world W); Some (w, if e = None then 1 else 0, e) });
                    let W1 = W\<lparr>wk_world := w\<rparr>; W2 = (if err = None then W1 else count HeaderEgressError W1)
                    in Some ((count HeaderForwarded ^^ delivered) W2) }))"

definition emitBlockHeader :: "common \<Rightarrow> BlockFrame \<Rightarrow> 'w Worker \<Rightarrow> 'w Worker option" where
  "emitBlockHeader cm bf W =
     (if bk_MsgType bf \<noteq> cm_BlockMsgAnnounce cm \<or> length (bk_Payload bf) < cm_BlockHeaderSize cm then Some W
      else let W1 = W\<lparr>wk_headerSeqNum := wk_headerSeqNum W + 1\<rparr>
        in case cm_EncodeBlockHeader cm (bk_ContentID bf) (wk_headerHashKey W) (wk_headerSeqNum W1)
                  (take (cm_BlockHeaderSize cm) (bk_Payload bf)) (replicate (cm_BlockHeaderFrameSize cm) 0) of
             None \<Rightarrow> Some W1
           | Some buf \<Rightarrow> header_unicast buf W1 \<bind> header_mcast cm buf \<bind> header_lane cm buf)"

text \<open>The part after the gate, which the direct and the reassembled path share line by line.\<close>

definition forward_block :: "common \<Rightarrow> env \<Rightarrow> byte list \<Rightarrow> BlockFrame \<Rightarrow> 'w Worker \<Rightarrow> 'w Worker option" where
  "forward_block cm ev raw bf W =
     do { W1 \<leftarrow> forward (es_SendBlock (wk_egr W) raw bf) W;
          W2 \<leftarrow> (if wk_headerEgr W1 \<noteq> None \<or> wk_headerMCastEgr W1 \<noteq> None \<or> wk_headerFanout W1 \<noteq> None
                  then emitBlockHeader cm bf W1 else Some W1);
          track ev (blockFlowIdx cm (bk_MsgType bf)) 0 (bk_HashKey bf) (bk_SeqNum bf) W2 }"

definition processBlockFrame :: "common \<Rightarrow> env \<Rightarrow> byte list \<Rightarrow> 'w Worker \<Rightarrow> ('w Worker \<times> bool) option" where
  "processBlockFrame cm ev raw W =
     (case cm_DecodeBlock cm raw of
        None \<Rightarrow> Some (count (FrameDropped ''decode_error'') W, False)
      | Some bf \<Rightarrow>
          let (ok, W1) = blockGateAllows cm bf (bk_Payload bf) (count (FrameReceived ''brc131'') W)
          in if \<not> ok then Some (W1, False)
             else do { W2 \<leftarrow> forward_block cm ev raw bf W1; Some (W2, True) })"

definition wire_buffer :: "common \<Rightarrow> byte list \<Rightarrow> byte list" where
  "wire_buffer cm payload = replicate (sc_HeaderSize (cm_sc cm) + length payload) 0"

definition DeliverReassembledBlock :: "common \<Rightarrow> env \<Rightarrow> byte list \<Rightarrow> BlockFrame \<Rightarrow> 'w Worker \<Rightarrow> 'w Worker option" where
  "DeliverReassembledBlock cm ev payload bf W =
     (let W1 = count ReassemblyCompleted W
      in case cm_EncodeBlock cm bf (wire_buffer cm payload) of
           None \<Rightarrow> Some W1
         | Some raw \<Rightarrow>
             let (ok, W2) = blockGateAllows cm bf payload (count (FrameReceived ''brc131_reassembled'') W1)
             in if \<not> ok then Some W2 else forward_block cm ev raw bf W2)"

section \<open>Subtree data\<close>

definition forward_subtree :: "common \<Rightarrow> env \<Rightarrow> byte list \<Rightarrow> SubtreeDataFrame \<Rightarrow> 'w Worker \<Rightarrow> 'w Worker option" where
  "forward_subtree cm ev raw sf W =
     do { W1 \<leftarrow> forward (es_SendSubtreeData (wk_egr W) raw sf) W;
          track ev (cm_GroupSubtreeDataAnnounce cm) (sd_SubtreeID sf) (sd_HashKey sf) (sd_SeqNum sf) W1 }"

definition processSubtreeDataFrame :: "common \<Rightarrow> env \<Rightarrow> byte list \<Rightarrow> 'w Worker \<Rightarrow> 'w Worker option" where
  "processSubtreeDataFrame cm ev raw W =
     (case cm_DecodeSubtreeData cm raw of
        None \<Rightarrow> Some (count (FrameDropped ''decode_error'') W)
      | Some sf \<Rightarrow> forward_subtree cm ev raw sf (count (FrameReceived ''brc132'') W))"

definition DeliverReassembledSubtreeData :: "common \<Rightarrow> env \<Rightarrow> byte list \<Rightarrow> SubtreeDataFrame \<Rightarrow> 'w Worker \<Rightarrow> 'w Worker option" where
  "DeliverReassembledSubtreeData cm ev payload sf W =
     (let W1 = count ReassemblyCompleted W
      in case cm_EncodeSubtreeData cm sf (wire_buffer cm payload) of
           None \<Rightarrow> Some W1
         | Some raw \<Rightarrow> forward_subtree cm ev raw sf (count (FrameReceived ''brc132_reassembled'') W1))"

section \<open>Anchor transactions\<close>

definition anchorGroupIdx :: u32 where "anchorGroupIdx = 0xFFF9"

definition processAnchorFrame :: "common \<Rightarrow> env \<Rightarrow> byte list \<Rightarrow> 'w Worker \<Rightarrow> 'w Worker option" where
  "processAnchorFrame cm ev raw W =
     (case cm_DecodeAnchor cm raw of
        None \<Rightarrow> Some (count (FrameDropped ''decode_error'') W)
      | Some f \<Rightarrow>
          let W1 = mark (fr_TxID f) (count (FrameReceived ''brc134'') W);
              observe = track ev anchorGroupIdx 0 (fr_HashKey f) (fr_SeqNum f)
          in case claim (fr_TxID f) W1 of
               (Suppress, W2) \<Rightarrow> observe W2
             | (Proceed, W2) \<Rightarrow> do { W3 \<leftarrow> forward (es_Send (wk_egr W2) raw f) W2; observe W3 })"

section \<open>Transactions\<close>

definition payload_verdict :: "common \<Rightarrow> Frame \<Rightarrow> 'w Worker \<Rightarrow> worker_metric option" where
  "payload_verdict cm f W =
     (if wk_verifyPayloadHash W \<and> fr_Version f = sc_FrameVerV2 (cm_sc cm)
      then let (computed, oneTx) = payloadTxID (cm_sc cm) (fr_Payload f)
        in if \<not> oneTx then Some (FrameDropped ''payload_not_one_tx'')
           else if computed \<noteq> fr_TxID f then Some FrameInvalidPayload else None
      else None)"

text \<open>The duplicate set applies to stamped frames only; the claim and the gap tracker to version 2.\<close>

definition processTxFrame :: "common \<Rightarrow> env \<Rightarrow> byte list \<Rightarrow> Frame \<Rightarrow> 'w Worker \<Rightarrow> 'w Worker option" where
  "processTxFrame cm ev raw f W =
     (let v2 = (fr_Version f = sc_FrameVerV2 (cm_sc cm));
          W1 = count (FrameReceived (if v2 then ''brc124'' else ''brc12'')) W;
          W2 = (if v2 then mark (fr_TxID f) W1 else W1)
      in case payload_verdict cm f W2 of
           Some m \<Rightarrow> Some (count m W2)
         | None \<Rightarrow>
             let groupIdx = wk_engine W2 (fr_TxID f);
                 (allow, reason) = Allow (ev_filt ev) groupIdx f (wk_filt W2);
                 observe = track ev groupIdx (fr_SubtreeID f) (fr_HashKey f) (fr_SeqNum f)
             in if \<not> allow then Some (count (FrameDropped reason) W2)
                else case (if v2 then claim (fr_TxID f) W2 else (Proceed, W2)) of
                  (Suppress, W3) \<Rightarrow> observe W3
                | (Proceed, W3) \<Rightarrow>
                    let (dup, W4) = (if v2 \<and> fr_SeqNum f \<noteq> 0
                          then seen ev \<lparr>dk_GroupIdx = groupIdx, dk_SubtreeID = fr_SubtreeID f, dk_SeqNum = fr_SeqNum f\<rparr> W3
                          else (False, W3))
                    in if dup then observe W4
                       else do { W5 \<leftarrow> forward (es_Send (wk_egr W4) raw f) W4;
                                 W6 \<leftarrow> mcast raw f groupIdx W5;
                                 if v2 then observe W6 else Some W6 })"

definition DeliverReassembled :: "common \<Rightarrow> env \<Rightarrow> byte list \<Rightarrow> Frame \<Rightarrow> 'w Worker \<Rightarrow> 'w Worker option" where
  "DeliverReassembled cm ev payload f W =
     (let groupIdx = wk_engine W (fr_TxID f);
          W1 = count ReassemblyCompleted W;
          (allow, reason) = Allow (ev_filt ev) groupIdx f (wk_filt W1);
          observe = track ev groupIdx (fr_SubtreeID f) (fr_HashKey f) (fr_SeqNum f)
      in if \<not> allow then Some (count (FrameDropped reason) W1)
         else case claim (fr_TxID f) (count (FrameReceived ''brc130'') W1) of
           (Suppress, W2) \<Rightarrow> observe W2
         | (Proceed, W2) \<Rightarrow>
             case oc_Encode (cm_oc cm) f (wire_buffer cm payload) of
               Inl e \<Rightarrow> Some W2
             | Inr (raw, n) \<Rightarrow>
                 do { W3 \<leftarrow> forward (es_Send (wk_egr W2) raw f) W2;
                      W4 \<leftarrow> mcast raw f groupIdx W3;
                      observe W4 })"

section \<open>Bundles\<close>

definition bundle_id :: "Bundle \<Rightarrow> id32" where
  "bundle_id b = push_bit 192 (ucast (bu_HashKey b)) OR push_bit 128 (ucast (bu_SeqNum b))"

definition rebucket_sender :: "Bundle \<Rightarrow> id16" where
  "rebucket_sender b = push_bit 64 (ucast (bu_HashKey b))"

text \<open>One member of a split bundle: numbered, encoded, and sent; an encoding error costs the number.\<close>

definition deliver_member :: "common \<Rightarrow> bool \<Rightarrow> u32 \<Rightarrow> u64 \<Rightarrow> Frame \<Rightarrow> 'w Worker \<Rightarrow> 'w Worker option" where
  "deliver_member cm bundleAware groupIdx hashKey mf W =
     (let seq = (case map_of (wk_egressSeq W) hashKey of None \<Rightarrow> 0 | Some n \<Rightarrow> n) + 1;
          W1 = W\<lparr>wk_egressSeq := map_put hashKey seq (wk_egressSeq W)\<rparr>;
          f = mf\<lparr>fr_SeqNum := seq\<rparr>
      in case oc_Encode (cm_oc cm) f (wire_buffer cm (fr_Payload f)) of
           Inl e \<Rightarrow> Some (count EgressError W1)
         | Inr (buf, n) \<Rightarrow>
             let out = take n buf
             in do { W2 \<leftarrow> (if bundleAware then Some W1 else forward (es_Send (wk_egr W1) out f) W1);
                     mcast out f groupIdx W2 })"

definition send_bundle :: "common \<Rightarrow> Bundle \<Rightarrow> byte list option \<Rightarrow> 'w Worker \<Rightarrow> 'w Worker option" where
  "send_bundle cm b raw W =
     (case es_SendBundle (wk_egr W) of None \<Rightarrow> Some W
      | Some send \<Rightarrow>
          (case (if raw = None then cm_EncodeBundle cm b else raw) of
             None \<Rightarrow> Some (count EgressError W)
           | Some r \<Rightarrow> forward (send r b) W))"

text \<open>\<open>raw\<close> is \<open>None\<close> for a re-bucketed child.\<close>

definition deliverBundle :: "common \<Rightarrow> env \<Rightarrow> Bundle \<Rightarrow> byte list option \<Rightarrow> bool \<Rightarrow> 'w Worker \<Rightarrow> 'w Worker option" where
  "deliverBundle cm ev b raw tracked W =
     (let groupIdx = ucast (bu_GroupIdx b);
          probe = \<lparr>fr_Version = sc_FrameVerV2 (cm_sc cm), fr_TxID = 0, fr_SubtreeID = bu_SubtreeID b, fr_HashKey = 0,
                   fr_SeqNum = 0, fr_Payload = []\<rparr>;
          (allow, reason) = Allow (ev_filt ev) groupIdx probe (wk_filt W);
          observe = (\<lambda>X. if tracked then track ev groupIdx (bu_SubtreeID b) (bu_HashKey b) (bu_SeqNum b) X else Some X)
      in if \<not> allow then Some (count (FrameDropped reason) W)
         else case (if bu_SeqNum b \<noteq> 0 then claim (bundle_id b) W else (Proceed, W)) of
           (Suppress, W1) \<Rightarrow> observe W1
         | (Proceed, W1) \<Rightarrow>
             let (dup, W2) = (if bu_SeqNum b \<noteq> 0
                   then seen ev \<lparr>dk_GroupIdx = groupIdx, dk_SubtreeID = bu_SubtreeID b, dk_SeqNum = bu_SeqNum b\<rparr> W1
                   else (False, W1))
             in if dup then observe W2
                else do { W3 \<leftarrow> observe W2;
                          W4 \<leftarrow> send_bundle cm b raw W3;
                          let bundleAware = (es_SendBundle (wk_egr W4) \<noteq> None)
                          in if \<not> bundleAware \<or> wk_mcastEgr W4 \<noteq> None
                             then each (deliver_member cm bundleAware groupIdx (bu_HashKey b)) (oc_Decoalesce (cm_oc cm) b) W4
                             else Some W4 })"

fun deliver_children :: "common \<Rightarrow> (nat \<Rightarrow> env) \<Rightarrow> nat \<Rightarrow> Bundle list \<Rightarrow> 'w Worker \<Rightarrow> 'w Worker option" where
  "deliver_children cm evs i [] W = Some W"
| "deliver_children cm evs i (b # bs) W = deliverBundle cm (evs i) b None False W \<bind> deliver_children cm evs (Suc i) bs"

definition processBundle :: "common \<Rightarrow> (nat \<Rightarrow> env) \<Rightarrow> byte list \<Rightarrow> 'w Worker \<Rightarrow> 'w Worker option" where
  "processBundle cm evs raw W =
     (case cm_DecodeBundle cm raw of
        None \<Rightarrow> Some (count (FrameDropped ''bundle_decode_error'') W)
      | Some b \<Rightarrow>
          let W1 = count (FrameReceived ''brc142'') W
          in if bu_ShardBits b \<noteq> 0 \<and> unat (bu_ShardBits b) \<noteq> wk_shardBits W1
             then let (w, children) = wk_rebucket W1 (rebucket_sender b) b (wk_world W1);
                      W2 = count BundleRebucketed (W1\<lparr>wk_world := w\<rparr>);
                      W3 = (if wk_relay W2 then W2 else (count RebucketUnguarded W2)\<lparr>wk_warnedRebucket := True\<rparr>)
                  in do { W4 \<leftarrow> deliver_children cm evs 1 children W3;
                          track (evs 0) (ucast (bu_GroupIdx b)) (bu_SubtreeID b) (bu_HashKey b) (bu_SeqNum b) W4 }
             else deliverBundle cm (evs 0) b (Some raw) True W1)"

section \<open>BEEF objects\<close>

definition beefPairKey :: "id32 \<Rightarrow> id32 \<Rightarrow> id32" where
  "beefPairKey contentID topicID = Sum256 (id32_bytes contentID @ id32_bytes topicID)"

text \<open>BEEF flows are observed without an owner: \<^verbatim>\<open>deliverBeef\<close> calls \<^verbatim>\<open>Observe\<close>, not \<^verbatim>\<open>ObserveFrom\<close>.\<close>

definition track_beef :: "env \<Rightarrow> u32 \<Rightarrow> BEEFFrame \<Rightarrow> 'w Worker \<Rightarrow> 'w Worker option" where
  "track_beef ev groupIdx bf W =
     (if wk_hasTracker W \<and> be_SeqNum bf \<noteq> 0
      then do { t \<leftarrow> Observe (fst (ev_obs ev)) (snd (ev_obs ev)) groupIdx 0 (be_HashKey bf) (be_SeqNum bf) (wk_curSource W) (wk_tracker W);
                Some (W\<lparr>wk_tracker := t\<rparr>) }
      else Some W)"

definition beef_verdict :: "common \<Rightarrow> BEEFFrame \<Rightarrow> 'w Worker \<Rightarrow> worker_metric option" where
  "beef_verdict cm bf W =
     (if wk_beefVerifyContent W \<and> Sum256d (be_Payload bf) \<noteq> be_ContentID bf then Some FrameInvalidPayload
      else if 0 < length (wk_beefTopics W) \<and> \<not> list_ex (\<lambda>x. x \<in> set (wk_beefTopics W)) (oc_DeliverableTopicIDs (cm_oc cm) bf)
      then Some (FrameDropped ''topic_filter'')
      else if 0 < length (wk_beefVersions W)
      then let object = (case oc_SplitBEEFPayload (cm_oc cm) (be_Payload bf) of None \<Rightarrow> be_Payload bf | Some ob \<Rightarrow> ob)
        in case oc_BEEFVersionWord (cm_oc cm) object of
             None \<Rightarrow> Some (FrameDropped ''beef_version_filter'')
           | Some v \<Rightarrow> if v \<in> set (wk_beefVersions W) then None else Some (FrameDropped ''beef_version_filter'')
      else None)"

definition deliverBeef :: "common \<Rightarrow> env \<Rightarrow> byte list \<Rightarrow> BEEFFrame \<Rightarrow> 'w Worker \<Rightarrow> 'w Worker option" where
  "deliverBeef cm ev raw bf W =
     (case wk_beefEngine W of
        None \<Rightarrow> Some (count (FrameDropped ''beef_disabled'') W)
      | Some engine \<Rightarrow>
          let key = beefPairKey (be_ContentID bf) (be_TopicID bf);
              W1 = mark key (count (FrameReceived ''brc148'') W)
          in case beef_verdict cm bf W1 of
               Some m \<Rightarrow> Some (count m W1)
             | None \<Rightarrow>
                 let groupIdx = engine (be_TopicID bf)
                 in case claim key W1 of
                      (Suppress, W2) \<Rightarrow> track_beef ev groupIdx bf W2
                    | (Proceed, W2) \<Rightarrow>
                        let (dup, W3) = (if be_SeqNum bf \<noteq> 0
                              then seen ev \<lparr>dk_GroupIdx = groupIdx, dk_SubtreeID = be_TopicID bf, dk_SeqNum = be_SeqNum bf\<rparr> W2
                              else (False, W2))
                        in if dup then track_beef ev groupIdx bf W3
                           else do { W4 \<leftarrow> forward (es_SendBeef (wk_egr W3) raw bf) W3; track_beef ev groupIdx bf W4 })"

definition processBeefFrame :: "common \<Rightarrow> env \<Rightarrow> byte list \<Rightarrow> 'w Worker \<Rightarrow> 'w Worker option" where
  "processBeefFrame cm ev raw W =
     (case cm_DecodeBEEF cm raw of
        None \<Rightarrow> Some (count (FrameDropped ''decode_error'') W)
      | Some bf \<Rightarrow> deliverBeef cm ev raw bf W)"

definition DeliverReassembledBeefFrame :: "common \<Rightarrow> env \<Rightarrow> byte list \<Rightarrow> BEEFFrame \<Rightarrow> 'w Worker \<Rightarrow> 'w Worker option" where
  "DeliverReassembledBeefFrame cm ev buf bf W =
     (case cm_EncodeBEEF cm bf buf of
        None \<Rightarrow> Some (count (FrameDropped ''beef_reencode_error'') W)
      | Some (buf', n) \<Rightarrow> deliverBeef cm ev (take n buf') bf (count ReassemblyCompleted W))"

definition DeliverReassembledBeef :: "common \<Rightarrow> env \<Rightarrow> byte list \<Rightarrow> BEEFFrame \<Rightarrow> 'w Worker \<Rightarrow> 'w Worker option" where
  "DeliverReassembledBeef cm ev payload bf W = DeliverReassembledBeefFrame cm ev (wire_buffer cm (be_Payload bf)) bf W"

section \<open>Fragments\<close>

definition fragGroupIdx :: "common \<Rightarrow> FragFrame \<Rightarrow> 'w Worker \<Rightarrow> u32" where
  "fragGroupIdx cm ff W =
     (if ff_OrigFrameVer ff = sc_FrameVerV4 (cm_sc cm) \<or> ff_OrigFrameVer ff = cm_FrameVerV6 cm then cm_GroupBlockBroadcast cm
      else if ff_OrigFrameVer ff = sc_FrameVerV5 (cm_sc cm) then cm_GroupSubtreeDataAnnounce cm
      else if ff_OrigFrameVer ff = sc_FrameVerV9 (cm_sc cm)
      then (case wk_beefEngine W of Some engine \<Rightarrow> engine (ff_SubtreeID ff) | None \<Rightarrow> 0x1000)
      else wk_engine W (ff_TxID ff))"

text \<open>The buffer's callbacks as \<^verbatim>\<open>main.go\<close> wires them: completions to the worker, the rest to the recorder.\<close>

fun callback :: "common \<Rightarrow> env \<Rightarrow> event \<Rightarrow> 'w Worker \<Rightarrow> 'w Worker option" where
  "callback cm ev (CompleteV2 payload f) W = DeliverReassembled cm ev payload f W"
| "callback cm ev (CompleteBlock payload bf) W = DeliverReassembledBlock cm ev payload bf W"
| "callback cm ev (CompleteSubtree payload sf) W = DeliverReassembledSubtreeData cm ev payload sf W"
| "callback cm ev (CompleteBEEF payload bf) W = DeliverReassembledBeef cm ev payload bf W"
| "callback cm ev (CompleteBEEFFrame buf bf) W = DeliverReassembledBeefFrame cm ev buf bf W"
| "callback cm ev e W = Some (count (ReassemblyEvent e) W)"

fun callbacks :: "common \<Rightarrow> (nat \<Rightarrow> env) \<Rightarrow> nat \<Rightarrow> event list \<Rightarrow> 'w Worker \<Rightarrow> 'w Worker option" where
  "callbacks cm evs i [] W = Some W"
| "callbacks cm evs i (e # es) W = callback cm (evs i) e W \<bind> callbacks cm evs (Suc i) es"

definition processFragment :: "common \<Rightarrow> (nat \<Rightarrow> env) \<Rightarrow> byte list \<Rightarrow> 'w Worker \<Rightarrow> 'w Worker option" where
  "processFragment cm evs raw W =
     (case wk_reassemBuf W of
        None \<Rightarrow> Some (count (FrameDropped ''no_reassembly_buffer'') W)
      | Some b \<Rightarrow>
          (case cm_DecodeFragment cm raw of
             None \<Rightarrow> Some (count (FrameDropped ''frag_decode_error'') W)
           | Some ff \<Rightarrow>
               do { (b', r, es) \<leftarrow> Observe_Buffer (cm_sc cm) (ev_slot (evs 0)) (ev_done (evs 0)) ff b (ev_req (evs 0), wk_tracker W);
                    W1 \<leftarrow> callbacks cm evs 1 es (W\<lparr>wk_reassemBuf := Some b', wk_tracker := snd r\<rparr>);
                    track (evs 0) (fragGroupIdx cm ff W1)
                      (if ff_OrigFrameVer ff = sc_FrameVerV9 (cm_sc cm) then 0 else ff_SubtreeID ff)
                      (ff_HashKey ff) (ff_SeqNum ff) W1 }))"

section \<open>The pipeline\<close>

definition processFrame :: "common \<Rightarrow> (nat \<Rightarrow> env) \<Rightarrow> byte list \<Rightarrow> 'w Worker \<Rightarrow> ('w Worker \<times> bool) option" where
  "processFrame cm evs raw W =
     (let accept = (\<lambda>r. do { W' \<leftarrow> r; Some (W', True) })
      in if cm_IsBlockFrame cm raw then processBlockFrame cm (evs 0) raw W
         else if cm_IsSubtreeDataFrame cm raw then accept (processSubtreeDataFrame cm (evs 0) raw W)
         else if cm_IsAnchorFrame cm raw then accept (processAnchorFrame cm (evs 0) raw W)
         else if cm_IsFragment cm raw then accept (processFragment cm evs raw W)
         else if cm_IsBundle cm raw then accept (processBundle cm evs raw W)
         else if cm_IsBEEFFrame cm raw then accept (processBeefFrame cm (evs 0) raw W)
         else accept (case cm_Decode cm raw of
                        None \<Rightarrow> Some (count (FrameDropped ''decode_error'') W)
                      | Some f \<Rightarrow> processTxFrame cm (evs 0) raw f W))"

text \<open>The source of a datagram: the 16 address bytes, or nothing for a peer that is not an IPv6 one.\<close>

definition sockaddrIP :: "(id16 \<times> u16) option \<Rightarrow> ip option" where
  "sockaddrIP from = map_option fst from"

definition ip_bytes :: "ip option \<Rightarrow> byte list" where
  "ip_bytes a = (case a of None \<Rightarrow> [] | Some x \<Rightarrow> be_bytes 16 (unat x))"

definition handleDatagram :: "common \<Rightarrow> (nat \<Rightarrow> env) \<Rightarrow> byte list \<Rightarrow> (id16 \<times> u16) option \<Rightarrow> bool \<Rightarrow> 'w Worker \<Rightarrow> 'w Worker option" where
  "handleDatagram cm evs raw from tee W =
     (let src = (if wk_senderACL W \<noteq> None \<or> wk_hasTracker W then sockaddrIP from else None)
      in if wk_senderACL W \<noteq> None \<and> \<not> Allow_Sender (wk_senderACL W) (ip_bytes src)
         then Some (count (FrameDropped ''sender_filter'') W)
         else let W1 = (if tee then W\<lparr>wk_retryTee := map_option (teeToRetry (cm_tc cm) raw from) (wk_retryTee W)\<rparr> else W)
           in map_option fst (processFrame cm evs raw (W1\<lparr>wk_curSource := src\<rparr>)))"

definition Reinject :: "common \<Rightarrow> (nat \<Rightarrow> env) \<Rightarrow> byte list \<Rightarrow> 'w Worker \<Rightarrow> ('w Worker \<times> bool) option" where
  "Reinject cm evs raw W = processFrame cm evs raw (W\<lparr>wk_curSource := None\<rparr>)"

end
