(* ===== verification/Worker_Safety.thy ===== *)
theory Worker_Safety
  imports Worker_Frames
begin

text \<open>
  No datagram makes a worker panic, whatever its bytes, its source and the state of the claim store.
  The invariant \<open>worker_ok\<close> joins those of the gap tracker, the reassembly buffer and the duplicate
  set with the one thing asked of the sinks, that their methods return; every handler keeps it.
\<close>

declare of_nat_unat [simp del]

section \<open>The invariant\<close>

definition lane_total :: "'w HeaderLane \<Rightarrow> bool" where
  "lane_total l \<longleftrightarrow> (\<forall>raw f w. hl_SendHeader l raw f w \<noteq> None) \<and>
     (\<forall>send. hl_SendHeaderN l = Some send \<longrightarrow> (\<forall>raw f w. send raw f w \<noteq> None))"

definition sinks_total :: "'w Worker \<Rightarrow> bool" where
  "sinks_total W \<longleftrightarrow> (\<forall>raw f w. es_Send (wk_egr W) raw f w \<noteq> None) \<and> (\<forall>raw f w. es_SendBlock (wk_egr W) raw f w \<noteq> None) \<and>
     (\<forall>raw f w. es_SendSubtreeData (wk_egr W) raw f w \<noteq> None) \<and> (\<forall>raw f w. es_SendBeef (wk_egr W) raw f w \<noteq> None) \<and>
     (\<forall>send. es_SendBundle (wk_egr W) = Some send \<longrightarrow> (\<forall>raw b w. send raw b w \<noteq> None)) \<and>
     (\<forall>send. wk_mcastEgr W = Some send \<longrightarrow> (\<forall>raw f g w. send raw f g w \<noteq> None)) \<and>
     (\<forall>send. wk_headerEgr W = Some send \<longrightarrow> (\<forall>raw w. send raw w \<noteq> None)) \<and>
     (\<forall>send. wk_headerMCastEgr W = Some send \<longrightarrow> (\<forall>raw g w. send raw g w \<noteq> None)) \<and>
     (\<forall>lane. wk_headerFanout W = Some lane \<longrightarrow> lane_total lane)"

definition worker_ok :: "common \<Rightarrow> 'w Worker \<Rightarrow> bool" where
  "worker_ok cm W \<longleftrightarrow> tracker_ok (wk_tracker W) \<and> jitter_ok (tr_cfg (wk_tracker W)) \<and> sinks_total W \<and>
     (\<forall>s. wk_dedupSet W = Some s \<longrightarrow> dset_ok s) \<and>
     (\<forall>b. wk_reassemBuf W = Some b \<longrightarrow> buffer_ok (cm_sc cm) Map.empty b \<and> hook_total clocked_ok b)"

text \<open>A result that is a worker in a good state.\<close>

definition returns_ok :: "common \<Rightarrow> 'w Worker option \<Rightarrow> bool" where
  "returns_ok cm r \<longleftrightarrow> (\<exists>W. r = Some W \<and> worker_ok cm W)"

named_theorems worker_intros \<open>steps that return a worker in a good state\<close>

lemma returns_Some [worker_intros]: "worker_ok cm W \<Longrightarrow> returns_ok cm (Some W)"
  by (simp add: returns_ok_def)

lemma returns_bind [worker_intros]:
  "returns_ok cm r \<Longrightarrow> (\<And>W. worker_ok cm W \<Longrightarrow> returns_ok cm (f W)) \<Longrightarrow> returns_ok cm (r \<bind> f)"
  by (auto simp: returns_ok_def)

lemma worker_ok_fields [simp]:
  "worker_ok cm (W\<lparr>wk_world := w\<rparr>) = worker_ok cm W" "worker_ok cm (W\<lparr>wk_metrics := ms\<rparr>) = worker_ok cm W"
  "worker_ok cm (W\<lparr>wk_egressSeq := es\<rparr>) = worker_ok cm W" "worker_ok cm (W\<lparr>wk_headerSeqNum := n\<rparr>) = worker_ok cm W"
  "worker_ok cm (W\<lparr>wk_curSource := a\<rparr>) = worker_ok cm W" "worker_ok cm (W\<lparr>wk_retryTee := t\<rparr>) = worker_ok cm W"
  "worker_ok cm (W\<lparr>wk_warnedRebucket := d\<rparr>) = worker_ok cm W"
  by (simp_all add: worker_ok_def sinks_total_def)

lemma worker_ok_count [simp]: "worker_ok cm (count m W) = worker_ok cm W"
  by (simp add: count_def)

lemma worker_ok_counts [simp]: "worker_ok cm ((count m ^^ n) W) = worker_ok cm W"
  by (induction n) simp_all

section \<open>The shared steps\<close>

lemma ObserveFrom_cfg: "ObserveFrom now draw ow g sid hk seq src t = Some t' \<Longrightarrow> tr_cfg t' = tr_cfg t"
  by (auto simp: ObserveFrom_def put_flow_def Let_def bind_eq_Some_conv split: if_splits option.splits)

lemma observed_ok:
  assumes "worker_ok cm W"
  shows "returns_ok cm (ObserveFrom now draw ow g sid hk seq src (wk_tracker W) \<bind> (\<lambda>t. Some (W\<lparr>wk_tracker := t\<rparr>)))"
proof -
  obtain t where t: "ObserveFrom now draw ow g sid hk seq src (wk_tracker W) = Some t"
    using ObserveFrom_total [of "wk_tracker W" now draw ow g sid hk seq src] assms by (auto simp: worker_ok_def)
  have "tracker_ok t" "tr_cfg t = tr_cfg (wk_tracker W)"
    using tracker_ok_ObserveFrom [OF _ t] ObserveFrom_cfg [OF t] assms by (simp_all add: worker_ok_def)
  then show ?thesis using assms t by (simp add: returns_ok_def worker_ok_def sinks_total_def)
qed

lemma track_ok [worker_intros]: "worker_ok cm W \<Longrightarrow> returns_ok cm (track ev g sub hk seq W)"
  using observed_ok by (auto simp: track_def intro: worker_intros)

lemma track_beef_ok [worker_intros]: "worker_ok cm W \<Longrightarrow> returns_ok cm (track_beef ev g bf W)"
  using observed_ok by (auto simp: track_beef_def Observe_def intro: worker_intros)

lemma egress_ok:
  assumes "worker_ok cm W" and "\<And>w. send w \<noteq> None"
  shows "returns_ok cm (egress send good bad W)"
proof -
  obtain w e where "send (wk_world W) = Some (w, e)" using assms(2) [of "wk_world W"] by (cases "send (wk_world W)") auto
  then show ?thesis using assms(1) by (simp add: egress_def returns_ok_def)
qed

lemma forward_ok:
  "worker_ok cm W \<Longrightarrow> (\<And>w. send w \<noteq> None) \<Longrightarrow> returns_ok cm (forward send W)"
  unfolding forward_def by (rule egress_ok)

lemma worker_sinks:
  assumes "worker_ok cm W"
  shows "es_Send (wk_egr W) raw f w \<noteq> None" "es_SendBlock (wk_egr W) raw bf w \<noteq> None"
    "es_SendSubtreeData (wk_egr W) raw sf w \<noteq> None" "es_SendBeef (wk_egr W) raw be w \<noteq> None"
  using assms by (simp_all add: worker_ok_def sinks_total_def)

lemma forwards_ok [worker_intros]:
  assumes "worker_ok cm W" and "worker_ok cm V"
  shows "returns_ok cm (forward (es_Send (wk_egr V) raw f) W)" "returns_ok cm (forward (es_SendBlock (wk_egr V) raw bf) W)"
    "returns_ok cm (forward (es_SendSubtreeData (wk_egr V) raw sf) W)" "returns_ok cm (forward (es_SendBeef (wk_egr V) raw be) W)"
  using assms by (auto intro!: forward_ok worker_sinks)

lemma worker_bundle_sink: "worker_ok cm W \<Longrightarrow> es_SendBundle (wk_egr W) = Some send \<Longrightarrow> send raw b w \<noteq> None"
  by (simp add: worker_ok_def sinks_total_def)

lemma mcast_ok [worker_intros]: "worker_ok cm W \<Longrightarrow> returns_ok cm (mcast raw f g W)"
  by (auto simp: mcast_def worker_ok_def sinks_total_def split: option.split intro!: worker_intros egress_ok)

lemma claim_ok: "worker_ok cm W \<Longrightarrow> claim key W = (out, W') \<Longrightarrow> worker_ok cm W'"
  by (auto simp: claim_def Let_def split: option.splits prod.splits if_splits)

lemma mark_ok [worker_intros, simp]: "worker_ok cm (mark key W) = worker_ok cm W"
  by (simp add: mark_def)

lemma seen_ok:
  assumes "worker_ok cm W" and "seen ev key W = (dup, W')"
  shows "worker_ok cm W'"
proof (cases "wk_dedupSet W")
  case (Some s)
  have "dset_ok (snd (SeenAndAdd (ev_dedup ev) key s))" using assms(1) Some dset_ok_SeenAndAdd by (simp add: worker_ok_def)
  then have "worker_ok cm (W\<lparr>wk_dedupSet := Some (snd (SeenAndAdd (ev_dedup ev) key s))\<rparr>)"
    using assms(1) by (simp add: worker_ok_def sinks_total_def)
  then show ?thesis using assms(2) Some by (auto simp: seen_def Let_def split: prod.splits if_splits)
qed (use assms in \<open>simp add: seen_def\<close>)

section \<open>The handlers\<close>

lemma gate_ok: "worker_ok cm W \<Longrightarrow> blockGateAllows cm bf p W = (ok, W') \<Longrightarrow> worker_ok cm W'"
  by (auto simp: blockGateAllows_def split: if_splits)

lemma header_ok [worker_intros]:
  assumes "worker_ok cm W"
  shows "returns_ok cm (header_unicast buf W)" "returns_ok cm (header_mcast cm' buf W)" "returns_ok cm (header_lane cm' buf W)"
proof -
  show "returns_ok cm (header_unicast buf W)" "returns_ok cm (header_mcast cm' buf W)"
    using assms by (auto simp: header_unicast_def header_mcast_def worker_ok_def sinks_total_def split: option.split
        intro!: worker_intros egress_ok)
  show "returns_ok cm (header_lane cm' buf W)"
  proof (cases "wk_headerFanout W")
    case (Some lane)
    then have l: "lane_total lane" using assms by (simp add: worker_ok_def sinks_total_def)
    show ?thesis
    proof (cases "cm_DecodeBlockHeader cm' buf")
      case hf: (Some hf)
      have "\<exists>w n e. (case hl_SendHeaderN lane of Some sendN \<Rightarrow> sendN buf hf (wk_world W)
          | None \<Rightarrow> hl_SendHeader lane buf hf (wk_world W) \<bind> (\<lambda>(w, e). Some (w, if e = None then 1 else 0, e))) = Some (w, n, e)"
        using l unfolding lane_total_def
        by (cases "hl_SendHeaderN lane"; cases "hl_SendHeader lane buf hf (wk_world W)") (auto, metis not_None_eq prod_cases3)
      then obtain w n e where "(case hl_SendHeaderN lane of Some sendN \<Rightarrow> sendN buf hf (wk_world W)
          | None \<Rightarrow> hl_SendHeader lane buf hf (wk_world W) \<bind> (\<lambda>(w, e). Some (w, if e = None then 1 else 0, e))) = Some (w, n, e)" by blast
      then show ?thesis using assms Some hf by (simp add: header_lane_def returns_ok_def Let_def)
    qed (use assms Some in \<open>simp add: header_lane_def returns_ok_def\<close>)
  qed (use assms in \<open>simp add: header_lane_def returns_ok_def\<close>)
qed

lemma emitBlockHeader_ok [worker_intros]: "worker_ok cm W \<Longrightarrow> returns_ok cm (emitBlockHeader cm bf W)"
  by (auto simp: emitBlockHeader_def Let_def split: option.split intro!: worker_intros)

lemma forward_block_ok [worker_intros]: "worker_ok cm W \<Longrightarrow> returns_ok cm (forward_block cm ev raw bf W)"
  by (auto simp: forward_block_def intro!: worker_intros)

lemma processBlockFrame_ok: "worker_ok cm W \<Longrightarrow> returns_ok cm (map_option fst (processBlockFrame cm ev raw W))"
proof -
  assume ok: "worker_ok cm W"
  show ?thesis
  proof (cases "cm_DecodeBlock cm raw")
    case (Some bf)
    obtain b W1 where g: "blockGateAllows cm bf (bk_Payload bf) (count (FrameReceived ''brc131'') W) = (b, W1)" by fastforce
    have "returns_ok cm (forward_block cm ev raw bf W1)" using gate_ok [OF _ g] ok by (auto intro: worker_intros)
    then show ?thesis using gate_ok [OF _ g] ok Some g by (auto simp: processBlockFrame_def returns_ok_def)
  qed (use ok in \<open>simp add: processBlockFrame_def returns_ok_def\<close>)
qed

lemma DeliverReassembledBlock_ok [worker_intros]: "worker_ok cm W \<Longrightarrow> returns_ok cm (DeliverReassembledBlock cm ev p bf W)"
  by (auto simp: DeliverReassembledBlock_def Let_def split: option.split prod.split intro!: worker_intros dest: gate_ok [rotated])

lemma subtree_ok [worker_intros]:
  assumes "worker_ok cm W"
  shows "returns_ok cm (processSubtreeDataFrame cm ev raw W)" "returns_ok cm (DeliverReassembledSubtreeData cm ev p sf W)"
  using assms
  by (auto simp: processSubtreeDataFrame_def DeliverReassembledSubtreeData_def forward_subtree_def Let_def split: option.split intro!: worker_intros)

lemma processAnchorFrame_ok [worker_intros]: "worker_ok cm W \<Longrightarrow> returns_ok cm (processAnchorFrame cm ev raw W)"
  by (auto simp: processAnchorFrame_def Let_def split: option.split prod.split claim_outcome.split intro!: worker_intros dest: claim_ok [rotated])

lemma processTxFrame_ok [worker_intros]: "worker_ok cm W \<Longrightarrow> returns_ok cm (processTxFrame cm ev raw f W)"
  unfolding processTxFrame_def Let_def
  by (auto split: option.split prod.split claim_outcome.split intro!: worker_intros dest: claim_ok [rotated] seen_ok [rotated])

lemma DeliverReassembled_ok [worker_intros]: "worker_ok cm W \<Longrightarrow> returns_ok cm (DeliverReassembled cm ev p f W)"
  unfolding DeliverReassembled_def Let_def
  by (auto split: sum.split prod.split claim_outcome.split intro!: worker_intros dest: claim_ok [rotated])

lemma each_ok: "(\<And>x W. worker_ok cm W \<Longrightarrow> returns_ok cm (step x W)) \<Longrightarrow> worker_ok cm W \<Longrightarrow> returns_ok cm (each step xs W)"
  by (induction xs arbitrary: W) (auto intro!: worker_intros)

lemma deliver_member_ok [worker_intros]: "worker_ok cm W \<Longrightarrow> returns_ok cm (deliver_member cm aware g hk mf W)"
  unfolding deliver_member_def Let_def by (auto split: sum.split intro!: worker_intros)

lemma send_bundle_ok [worker_intros]: "worker_ok cm W \<Longrightarrow> returns_ok cm (send_bundle cm b raw W)"
  unfolding send_bundle_def
  by (cases "es_SendBundle (wk_egr W)")
     (auto dest: worker_bundle_sink split: option.split intro!: worker_intros forward_ok simp del: not_None_eq)

lemma deliver_parts_ok [worker_intros]:
  "worker_ok cm W \<Longrightarrow> returns_ok cm (each (deliver_member cm aware g hk) fs W)"
  by (rule each_ok) (auto intro: worker_intros)

lemma deliverBundle_ok [worker_intros]: "worker_ok cm W \<Longrightarrow> returns_ok cm (deliverBundle cm ev b raw tracked W)"
  unfolding deliverBundle_def Let_def
  by (auto split: prod.split claim_outcome.split intro!: worker_intros dest: claim_ok [rotated] seen_ok [rotated])

lemma deliver_children_ok [worker_intros]: "worker_ok cm W \<Longrightarrow> returns_ok cm (deliver_children cm evs i bs W)"
  by (induction bs arbitrary: i W) (auto intro!: worker_intros)

lemma processBundle_ok [worker_intros]: "worker_ok cm W \<Longrightarrow> returns_ok cm (processBundle cm evs raw W)"
  unfolding processBundle_def Let_def by (auto split: option.split prod.split intro!: worker_intros)

lemma deliverBeef_ok [worker_intros]: "worker_ok cm W \<Longrightarrow> returns_ok cm (deliverBeef cm ev raw bf W)"
  unfolding deliverBeef_def Let_def
  by (auto split: option.split prod.split claim_outcome.split intro!: worker_intros dest: claim_ok [rotated] seen_ok [rotated])

lemma beef_ok [worker_intros]:
  assumes "worker_ok cm W"
  shows "returns_ok cm (processBeefFrame cm ev raw W)" "returns_ok cm (DeliverReassembledBeefFrame cm ev buf bf W)"
    "returns_ok cm (DeliverReassembledBeef cm ev p bf W)"
  using assms
  by (auto simp: processBeefFrame_def DeliverReassembledBeef_def DeliverReassembledBeefFrame_def split: option.split intro!: worker_intros)

lemma callbacks_ok [worker_intros]: "worker_ok cm W \<Longrightarrow> returns_ok cm (callbacks cm evs i es W)"
proof (induction es arbitrary: i W)
  case (Cons e es)
  have "returns_ok cm (callback cm (evs i) e W)" using Cons.prems by (cases e) (auto intro!: worker_intros)
  then show ?case using Cons.IH by (auto intro!: worker_intros)
qed (auto intro: worker_intros)

lemma processFragment_ok [worker_intros]:
  assumes "worker_ok cm W"
  shows "returns_ok cm (processFragment cm evs raw W)"
proof (cases "wk_reassemBuf W")
  case (Some b)
  show ?thesis
  proof (cases "cm_DecodeFragment cm raw")
    case ff: (Some ff)
    have b: "buffer_ok (cm_sc cm) Map.empty b" "hook_total clocked_ok b" "clocked_ok (ev_req (evs 0), wk_tracker W)"
      using assms Some by (simp_all add: worker_ok_def clocked_ok_def)
    have "genuine (cm_sc cm) Map.empty ff" by (simp add: genuine_def)
    from Observe_Buffer_ok [OF b(1) this b(3,2)] obtain b' r es where
      o: "Observe_Buffer (cm_sc cm) (ev_slot (evs 0)) (ev_done (evs 0)) ff b (ev_req (evs 0), wk_tracker W) = Some (b', r, es)"
        "buffer_ok (cm_sc cm) Map.empty b'" "clocked_ok r" "same_settings b b'" by blast
    have "worker_ok cm (W\<lparr>wk_reassemBuf := Some b', wk_tracker := snd r\<rparr>)"
      using o(2,3) b(2) hook_total_same [OF o(4)] assms by (auto simp: worker_ok_def clocked_ok_def sinks_total_def)
    then show ?thesis using Some ff o(1) by (auto simp: processFragment_def intro!: worker_intros)
  qed (use assms Some in \<open>auto simp: processFragment_def intro: worker_intros\<close>)
qed (use assms in \<open>auto simp: processFragment_def intro: worker_intros\<close>)

lemma processFrame_ok:
  assumes "worker_ok cm W"
  shows "returns_ok cm (map_option fst (processFrame cm evs raw W))"
proof -
  have m: "map_option fst (r \<bind> (\<lambda>W'. Some (W', True))) = r" for r :: "'a Worker option" by (cases r) auto
  show ?thesis
    using processBlockFrame_ok assms by (auto simp: processFrame_def m Let_def split: option.split intro!: worker_intros)
qed

lemma handleDatagram_ok [worker_intros]: "worker_ok cm W \<Longrightarrow> returns_ok cm (handleDatagram cm evs raw from tee W)"
  by (auto simp: handleDatagram_def Let_def intro!: worker_intros processFrame_ok)

lemma Reinject_ok: "worker_ok cm W \<Longrightarrow> returns_ok cm (map_option fst (Reinject cm evs raw W))"
  unfolding Reinject_def by (rule processFrame_ok) simp

section \<open>Every reachable worker\<close>

text \<open>
  A worker as \<^verbatim>\<open>main.go\<close> starts it: a new tracker, an empty buffer whose hooks are wired to that tracker,
  a new duplicate set. Its steps are datagrams, with any bytes from any source, and re-injected
  repairs, in any order.
\<close>

definition worker_init :: "common \<Rightarrow> 'w Worker \<Rightarrow> bool" where
  "worker_init cm W \<longleftrightarrow>
     (\<exists>cfg eps rc registry. wk_tracker W = New_Tracker cfg eps rc registry \<and> jitter_ok (tr_cfg (wk_tracker W)) \<and>
        (case registry of None \<Rightarrow> True | Some r \<Rightarrow> registry_ok r)) \<and> sinks_total W \<and>
     (\<forall>s. wk_dedupSet W = Some s \<longrightarrow> (\<exists>capacity ttl. s = New_Set capacity ttl)) \<and>
     (\<forall>b. wk_reassemBuf W = Some b \<longrightarrow> fresh_buffer b \<and> (bf_onIncomplete b = None \<or> bf_onIncomplete b = Some (request_from (wk_id W))))"

inductive worker_step :: "common \<Rightarrow> 'w Worker \<Rightarrow> 'w Worker \<Rightarrow> bool" for cm where
  step_datagram: "handleDatagram cm evs raw from tee W = Some W' \<Longrightarrow> worker_step cm W W'"
| step_reinject: "Reinject cm evs raw W = Some (W', ok) \<Longrightarrow> worker_step cm W W'"

lemma worker_ok_init: "worker_init cm W \<Longrightarrow> worker_ok cm W"
proof -
  assume i: "worker_init cm W"
  have "tracker_ok (wk_tracker W)" using i tracker_ok_New unfolding worker_init_def by metis
  moreover have "buffer_ok (cm_sc cm) Map.empty b \<and> hook_total clocked_ok b" if "wk_reassemBuf W = Some b" for b
  proof -
    have b: "fresh_buffer b" "hook_total clocked_ok b"
      using i that tracker_repair.wired_total by (auto simp: worker_init_def hook_total_def)
    then show ?thesis by (simp add: fresh_buffer_def buffer_ok_def table_ok_def memory_ok_def)
  qed
  ultimately show ?thesis using i dset_ok_New by (auto simp: worker_init_def worker_ok_def)
qed

interpretation worker: step_invariant "worker_init cm" "worker_step cm" "worker_ok cm"
proof
  fix W W' assume ok: "worker_ok cm W" and "worker_step cm W W'"
  from this(2) show "worker_ok cm W'"
  proof cases
    case (step_datagram evs raw peer tee)
    then show ?thesis using handleDatagram_ok [OF ok, of evs raw peer tee] by (simp add: returns_ok_def)
  next
    case (step_reinject evs raw b)
    then show ?thesis using Reinject_ok [OF ok, of evs raw] by (simp add: returns_ok_def)
  qed
qed (rule worker_ok_init)


end
