(* ===== verification/Worker_Delivery.thy ===== *)
theory Worker_Delivery
  imports Worker_Safety
begin

text \<open>
  What the worker does with a frame: gap tracking does not depend on duplicate suppression, claims or
  sinks; the block-control gate holds on every path; a retransmitted copy reaches no sink. The last
  section runs a small worker, also on two flows that share a duplicate key.
\<close>

section \<open>What the steps leave alone\<close>

text \<open>What an observation depends on, besides the frame.\<close>

definition tracking :: "'w Worker \<Rightarrow> bool \<times> Tracker \<times> int \<times> ip option" where
  "tracking W = (wk_hasTracker W, wk_tracker W, wk_id W, wk_curSource W)"

definition observation :: "env \<Rightarrow> int \<Rightarrow> u32 \<Rightarrow> id32 \<Rightarrow> u64 \<Rightarrow> u64 \<Rightarrow> 'w Worker \<Rightarrow> Tracker option" where
  "observation ev owner groupIdx sub hashKey seqNum W =
     (if wk_hasTracker W \<and> seqNum \<noteq> 0
      then ObserveFrom (fst (ev_obs ev)) (snd (ev_obs ev)) owner groupIdx sub hashKey seqNum (wk_curSource W) (wk_tracker W)
      else Some (wk_tracker W))"

lemma observation_cong:
  "tracking W = tracking W' \<Longrightarrow> observation ev ow g sub hk seq W = observation ev ow g sub hk seq W'"
  by (simp add: observation_def tracking_def)

lemma track_observation: "map_option wk_tracker (track ev g sub hk seq W) = observation ev (wk_id W) g sub hk seq W"
  by (cases "ObserveFrom (fst (ev_obs ev)) (snd (ev_obs ev)) (wk_id W) g sub hk seq (wk_curSource W) (wk_tracker W)")
     (auto simp: track_def observation_def)

lemma track_beef_observation:
  "map_option wk_tracker (track_beef ev g bf W) = observation ev ownerUnknown g 0 (be_HashKey bf) (be_SeqNum bf) W"
  by (cases "ObserveFrom (fst (ev_obs ev)) (snd (ev_obs ev)) ownerUnknown g 0 (be_HashKey bf) (be_SeqNum bf) (wk_curSource W) (wk_tracker W)")
     (auto simp: track_beef_def Observe_def observation_def)

lemma tracking_fields [simp]:
  "tracking (W\<lparr>wk_world := w\<rparr>) = tracking W" "tracking (W\<lparr>wk_dedupSet := d\<rparr>) = tracking W"
  "tracking (W\<lparr>wk_egressSeq := es\<rparr>) = tracking W" "tracking (W\<lparr>wk_warnedRebucket := d'\<rparr>) = tracking W"
  by (simp_all add: tracking_def)

lemma count_fields [simp]:
  "tracking (count m W) = tracking W" "wk_world (count m W) = wk_world W" "wk_engine (count m W) = wk_engine W"
  "wk_filt (count m W) = wk_filt W" "wk_egr (count m W) = wk_egr W" "wk_tracker (count m W) = wk_tracker W"
  "wk_txDedup (count m W) = wk_txDedup W" "wk_dedupSet (count m W) = wk_dedupSet W"
  "wk_verifyPayloadHash (count m W) = wk_verifyPayloadHash W" "wk_id (count m W) = wk_id W"
  "wk_beefEngine (count m W) = wk_beefEngine W" "wk_mcastEgr (count m W) = wk_mcastEgr W"
  "wk_shardBits (count m W) = wk_shardBits W"
  by (simp_all add: count_def tracking_def)

lemma mark_fields [simp]:
  "tracking (mark k W) = tracking W" "wk_engine (mark k W) = wk_engine W" "wk_filt (mark k W) = wk_filt W"
  "wk_tracker (mark k W) = wk_tracker W" "wk_txDedup (mark k W) = wk_txDedup W" "wk_dedupSet (mark k W) = wk_dedupSet W"
  "wk_egr (mark k W) = wk_egr W" "wk_id (mark k W) = wk_id W" "wk_mcastEgr (mark k W) = wk_mcastEgr W"
  "wk_txDedup W = None \<Longrightarrow> mark k W = W"
  by (simp_all add: mark_def tracking_def)

lemma claim_fields:
  "claim k W = (out, W') \<Longrightarrow> tracking W' = tracking W \<and> wk_engine W' = wk_engine W \<and> wk_dedupSet W' = wk_dedupSet W \<and>
     wk_egr W' = wk_egr W \<and> wk_id W' = wk_id W \<and> wk_mcastEgr W' = wk_mcastEgr W"
  by (auto simp: claim_def Let_def split: option.splits prod.splits if_splits)

lemma seen_fields:
  "seen ev k W = (dup, W') \<Longrightarrow> tracking W' = tracking W \<and> wk_engine W' = wk_engine W \<and> wk_world W' = wk_world W \<and>
     wk_egr W' = wk_egr W \<and> wk_id W' = wk_id W \<and> wk_mcastEgr W' = wk_mcastEgr W"
  by (auto simp: seen_def Let_def split: option.splits prod.splits if_splits)

lemma egress_fields: "egress send good bad W = Some W' \<Longrightarrow> tracking W' = tracking W \<and> wk_id W' = wk_id W \<and> wk_egr W' = wk_egr W \<and>
    wk_dedupSet W' = wk_dedupSet W \<and> wk_engine W' = wk_engine W \<and> wk_txDedup W' = wk_txDedup W \<and> wk_mcastEgr W' = wk_mcastEgr W"
  by (auto simp: egress_def bind_eq_Some_conv)

lemma mcast_fields: "mcast raw f g W = Some W' \<Longrightarrow> tracking W' = tracking W \<and> wk_id W' = wk_id W \<and> wk_dedupSet W' = wk_dedupSet W"
  by (auto simp: mcast_def dest: egress_fields split: option.splits)

section \<open>Gap tracking\<close>

lemma track_same: "tracking W' = tracking W \<Longrightarrow> map_option wk_tracker (track ev g sub hk seq W') = observation ev (wk_id W) g sub hk seq W"
  unfolding track_observation by (simp add: observation_def tracking_def)

lemma track_beef_same:
  "tracking W' = tracking W \<Longrightarrow>
   map_option wk_tracker (track_beef ev g bf W') = observation ev ownerUnknown g 0 (be_HashKey bf) (be_SeqNum bf) W"
  unfolding track_beef_observation by (rule observation_cong)

lemma returns_then:
  "returns_ok cm r \<Longrightarrow> (\<And>W. r = Some W \<Longrightarrow> map_option wk_tracker (f W) = t) \<Longrightarrow> map_option wk_tracker (r \<bind> f) = t"
  by (auto simp: returns_ok_def)

lemma forward_tracking: "forward send W = Some W' \<Longrightarrow> tracking W' = tracking W"
  unfolding forward_def by (blast dest: egress_fields)

lemma payload_verdict_steps [simp]:
  "payload_verdict cm f (mark k W) = payload_verdict cm f W" "payload_verdict cm f (count m W) = payload_verdict cm f W"
  by (simp_all add: payload_verdict_def mark_def)

lemma stamped_seen:
  assumes "(if seq \<noteq> 0 then seen ev key W else (False, W)) = (dup, W')" and "worker_ok cm W"
  shows "worker_ok cm W' \<and> tracking W' = tracking W"
proof (cases "seq = 0")
  case False
  then have "seen ev key W = (dup, W')" using assms(1) by simp
  from seen_ok [OF assms(2) this] seen_fields [OF this] show ?thesis by simp
qed (use assms in simp)

lemma tx_tracking:
  assumes "worker_ok cm W" and v: "fr_Version f = sc_FrameVerV2 (cm_sc cm)"
  shows "map_option wk_tracker (processTxFrame cm ev raw f W) =
    (if payload_verdict cm f W = None \<and> fst (Allow (ev_filt ev) (wk_engine W (fr_TxID f)) f (wk_filt W))
     then observation ev (wk_id W) (wk_engine W (fr_TxID f)) (fr_SubtreeID f) (fr_HashKey f) (fr_SeqNum f) W
     else Some (wk_tracker W))"
proof -
  let ?W = "mark (fr_TxID f) (count (FrameReceived ''brc124'') W)" and ?g = "wk_engine W (fr_TxID f)"
  let ?key = "\<lparr>dk_GroupIdx = ?g, dk_SubtreeID = fr_SubtreeID f, dk_SeqNum = fr_SeqNum f\<rparr>"
  let ?observe = "track ev ?g (fr_SubtreeID f) (fr_HashKey f) (fr_SeqNum f)"
  obtain out W3 where c: "claim (fr_TxID f) ?W = (out, W3)" by fastforce
  have 3: "worker_ok cm W3" "tracking W3 = tracking W" using claim_ok [OF _ c] claim_fields [OF c] assms(1) by simp_all
  obtain dup W4 where s: "(if fr_SeqNum f \<noteq> 0 then seen ev ?key W3 else (False, W3)) = (dup, W4)" by fastforce
  have 4: "worker_ok cm W4" "tracking W4 = tracking W"
    using stamped_seen [OF s 3(1)] 3(2) by simp_all
  have send: "map_option wk_tracker (forward (es_Send (wk_egr W4) raw f) W4 \<bind> (\<lambda>X. mcast raw f ?g X \<bind> ?observe)) =
      observation ev (wk_id W) ?g (fr_SubtreeID f) (fr_HashKey f) (fr_SeqNum f) W"
  proof (rule returns_then [OF forwards_ok(1) [OF 4(1) 4(1)]])
    fix X assume X: "forward (es_Send (wk_egr W4) raw f) W4 = Some X"
    then have x: "worker_ok cm X" "tracking X = tracking W"
      using forwards_ok(1) [OF 4(1) 4(1), of raw f] forward_tracking [OF X] 4(2) by (simp_all add: returns_ok_def)
    show "map_option wk_tracker (mcast raw f ?g X \<bind> ?observe) =
        observation ev (wk_id W) ?g (fr_SubtreeID f) (fr_HashKey f) (fr_SeqNum f) W"
    proof (rule returns_then [OF mcast_ok [OF x(1)]])
      fix Y assume "mcast raw f ?g X = Some Y"
      from mcast_fields [OF this] have "tracking Y = tracking W" using x(2) by simp
      then show "map_option wk_tracker (?observe Y) = observation ev (wk_id W) ?g (fr_SubtreeID f) (fr_HashKey f) (fr_SeqNum f) W"
        by (rule track_same)
    qed
  qed
  have obs: "map_option wk_tracker (?observe X) = observation ev (wk_id W) ?g (fr_SubtreeID f) (fr_HashKey f) (fr_SeqNum f) W"
    if "tracking X = tracking W" for X by (rule track_same [OF that])
  show ?thesis
  proof (cases "payload_verdict cm f W")
    case None
    obtain allow reason where al: "Allow (ev_filt ev) ?g f (wk_filt W) = (allow, reason)" by fastforce
    have "processTxFrame cm ev raw f W =
      (if \<not> allow then Some (count (FrameDropped reason) ?W)
       else case out of Suppress \<Rightarrow> ?observe W3
       | Proceed \<Rightarrow> if dup then ?observe W4 else forward (es_Send (wk_egr W4) raw f) W4 \<bind> (\<lambda>X. mcast raw f ?g X \<bind> ?observe))"
      using s by (cases "fr_SeqNum f = 0") (simp_all add: processTxFrame_def Let_def v None al c split: claim_outcome.split)
    then show ?thesis using None al obs [OF 3(2)] obs [OF 4(2)] send by (cases out) simp_all
  qed (simp add: processTxFrame_def Let_def v)
qed

text \<open>A send followed by the observation, whatever the send returns.\<close>

lemma send_track:
  assumes "worker_ok cm X" and "tracking X = tracking W" and "\<And>w. send w \<noteq> None"
  shows "map_option wk_tracker (forward send X \<bind> track ev g sub hk seq) = observation ev (wk_id W) g sub hk seq W"
    and "map_option wk_tracker (forward send X \<bind> track_beef ev g bf) = observation ev ownerUnknown g 0 (be_HashKey bf) (be_SeqNum bf) W"
proof -
  obtain Y where y: "forward send X = Some Y" using forward_ok [OF assms(1), of send] assms(3) by (auto simp: returns_ok_def)
  have "tracking Y = tracking W" using forward_tracking [OF y] assms(2) by simp
  from track_same [OF this] track_beef_same [OF this]
  show "map_option wk_tracker (forward send X \<bind> track ev g sub hk seq) = observation ev (wk_id W) g sub hk seq W"
    "map_option wk_tracker (forward send X \<bind> track_beef ev g bf) = observation ev ownerUnknown g 0 (be_HashKey bf) (be_SeqNum bf) W"
    by (simp_all add: y)
qed

lemma anchor_tracking:
  assumes "worker_ok cm W" and "cm_DecodeAnchor cm raw = Some f"
  shows "map_option wk_tracker (processAnchorFrame cm ev raw W) =
    observation ev (wk_id W) anchorGroupIdx 0 (fr_HashKey f) (fr_SeqNum f) W"
proof -
  obtain out W2 where c: "claim (fr_TxID f) (mark (fr_TxID f) (count (FrameReceived ''brc134'') W)) = (out, W2)" by fastforce
  have 2: "worker_ok cm W2" "tracking W2 = tracking W" using claim_ok [OF _ c] claim_fields [OF c] assms(1) by simp_all
  have "processAnchorFrame cm ev raw W = (case out of
      Suppress \<Rightarrow> track ev anchorGroupIdx 0 (fr_HashKey f) (fr_SeqNum f) W2
    | Proceed \<Rightarrow> forward (es_Send (wk_egr W2) raw f) W2 \<bind> track ev anchorGroupIdx 0 (fr_HashKey f) (fr_SeqNum f))"
    by (simp add: processAnchorFrame_def assms(2) Let_def c split: claim_outcome.split)
  then show ?thesis using track_same [OF 2(2)] send_track(1) [OF 2 worker_sinks(1) [OF 2(1)]] by (cases out) simp_all
qed

lemma beef_fields [simp]:
  "wk_beefTopics (mark k W) = wk_beefTopics W" "wk_beefVersions (mark k W) = wk_beefVersions W"
  "wk_beefVerifyContent (mark k W) = wk_beefVerifyContent W" "wk_beefTopics (count m W) = wk_beefTopics W"
  "wk_beefVersions (count m W) = wk_beefVersions W" "wk_beefVerifyContent (count m W) = wk_beefVerifyContent W"
  by (simp_all add: mark_def count_def)

lemma beef_verdict_steps [simp]:
  "beef_verdict cm bf (mark k W) = beef_verdict cm bf W" "beef_verdict cm bf (count m W) = beef_verdict cm bf W"
  unfolding beef_verdict_def beef_fields by (rule refl)+

lemma beef_tracking:
  assumes "worker_ok cm W" and "wk_beefEngine W = Some engine"
  shows "map_option wk_tracker (deliverBeef cm ev raw bf W) =
    (if beef_verdict cm bf W = None then observation ev ownerUnknown (engine (be_TopicID bf)) 0 (be_HashKey bf) (be_SeqNum bf) W
     else Some (wk_tracker W))"
proof -
  let ?k = "beefPairKey (be_ContentID bf) (be_TopicID bf)" and ?g = "engine (be_TopicID bf)"
  let ?key = "\<lparr>dk_GroupIdx = ?g, dk_SubtreeID = be_TopicID bf, dk_SeqNum = be_SeqNum bf\<rparr>"
  obtain out W2 where c: "claim ?k (mark ?k (count (FrameReceived ''brc148'') W)) = (out, W2)" by fastforce
  have 2: "worker_ok cm W2" "tracking W2 = tracking W" using claim_ok [OF _ c] claim_fields [OF c] assms(1) by simp_all
  obtain dup W3 where s: "(if be_SeqNum bf \<noteq> 0 then seen ev ?key W2 else (False, W2)) = (dup, W3)" by fastforce
  have 3: "worker_ok cm W3" "tracking W3 = tracking W" using stamped_seen [OF s 2(1)] 2(2) by simp_all
  show ?thesis
  proof (cases "beef_verdict cm bf W")
    case None
    have "deliverBeef cm ev raw bf W = (case out of
        Suppress \<Rightarrow> track_beef ev ?g bf W2
      | Proceed \<Rightarrow> if dup then track_beef ev ?g bf W3 else forward (es_SendBeef (wk_egr W3) raw bf) W3 \<bind> track_beef ev ?g bf)"
      using s by (cases "be_SeqNum bf = 0") (simp_all add: deliverBeef_def assms(2) Let_def None c split: claim_outcome.split)
    then show ?thesis
      using None track_beef_same [OF 2(2)] track_beef_same [OF 3(2)] send_track(2) [OF 3 worker_sinks(4) [OF 3(1)]]
      by (cases out) simp_all
  qed (simp add: deliverBeef_def assms(2) Let_def)
qed

lemma send_bundle_tracking: "send_bundle cm b raw W = Some W' \<Longrightarrow> tracking W' = tracking W"
  by (auto simp: send_bundle_def dest: forward_tracking split: option.splits if_splits)

lemma deliver_member_tracking: "deliver_member cm aware g hk mf W = Some W' \<Longrightarrow> tracking W' = tracking W"
  by (auto simp: deliver_member_def Let_def bind_eq_Some_conv dest!: forward_tracking mcast_fields split: sum.splits if_splits)

lemma each_tracking: "each (deliver_member cm aware g hk) fs W = Some W' \<Longrightarrow> tracking W' = tracking W"
  by (induction fs arbitrary: W) (auto simp: bind_eq_Some_conv dest!: deliver_member_tracking)

definition bundle_allowed :: "common \<Rightarrow> env \<Rightarrow> Bundle \<Rightarrow> 'w Worker \<Rightarrow> bool" where
  "bundle_allowed cm ev b W =
     fst (Allow (ev_filt ev) (ucast (bu_GroupIdx b))
       \<lparr>fr_Version = sc_FrameVerV2 (cm_sc cm), fr_TxID = 0, fr_SubtreeID = bu_SubtreeID b, fr_HashKey = 0, fr_SeqNum = 0, fr_Payload = []\<rparr>
       (wk_filt W))"

lemma deliverBundle_tracking:
  assumes "worker_ok cm W"
  shows "map_option wk_tracker (deliverBundle cm ev b raw tracked W) =
    (if tracked \<and> bundle_allowed cm ev b W
     then observation ev (wk_id W) (ucast (bu_GroupIdx b)) (bu_SubtreeID b) (bu_HashKey b) (bu_SeqNum b) W
     else Some (wk_tracker W))"
proof -
  let ?g = "ucast (bu_GroupIdx b) :: u32" and ?aware = "\<lambda>X. es_SendBundle (wk_egr X) \<noteq> None"
  let ?key = "\<lparr>dk_GroupIdx = ?g, dk_SubtreeID = bu_SubtreeID b, dk_SeqNum = bu_SeqNum b\<rparr>"
  let ?probe = "\<lparr>fr_Version = sc_FrameVerV2 (cm_sc cm), fr_TxID = 0, fr_SubtreeID = bu_SubtreeID b, fr_HashKey = 0, fr_SeqNum = 0, fr_Payload = []\<rparr>"
  let ?observe = "\<lambda>X. if tracked then track ev ?g (bu_SubtreeID b) (bu_HashKey b) (bu_SeqNum b) X else Some X"
  let ?rest = "\<lambda>X. send_bundle cm b raw X \<bind> (\<lambda>Y. if \<not> ?aware Y \<or> wk_mcastEgr Y \<noteq> None
      then each (deliver_member cm (?aware Y) ?g (bu_HashKey b)) (oc_Decoalesce (cm_oc cm) b) Y else Some Y)"
  let ?t = "if tracked then observation ev (wk_id W) ?g (bu_SubtreeID b) (bu_HashKey b) (bu_SeqNum b) W else Some (wk_tracker W)"
  obtain allow reason where al: "Allow (ev_filt ev) ?g ?probe (wk_filt W) = (allow, reason)" by fastforce
  obtain out W1 where c: "(if bu_SeqNum b \<noteq> 0 then claim (bundle_id b) W else (Proceed, W)) = (out, W1)" by fastforce
  have 1: "worker_ok cm W1" "tracking W1 = tracking W"
  proof -
    show "worker_ok cm W1" using c assms claim_ok [of cm W "bundle_id b" out W1] by (cases "bu_SeqNum b = 0") simp_all
    show "tracking W1 = tracking W" using c claim_fields [of "bundle_id b" W out W1] by (cases "bu_SeqNum b = 0") simp_all
  qed
  obtain dup W2 where s: "(if bu_SeqNum b \<noteq> 0 then seen ev ?key W1 else (False, W1)) = (dup, W2)" by fastforce
  have 2: "worker_ok cm W2" "tracking W2 = tracking W" using stamped_seen [OF s 1(1)] 1(2) by simp_all
  have obs: "map_option wk_tracker (?observe X) = ?t" if "tracking X = tracking W" for X
    using track_same [OF that] that by (simp add: tracking_def)
  have rest: "map_option wk_tracker (?rest X) = Some (wk_tracker X)" if X: "worker_ok cm X" for X
  proof -
    obtain Y where y: "send_bundle cm b raw X = Some Y" "worker_ok cm Y" using send_bundle_ok [OF X] by (auto simp: returns_ok_def)
    obtain Z where z: "each (deliver_member cm (?aware Y) ?g (bu_HashKey b)) (oc_Decoalesce (cm_oc cm) b) Y = Some Z"
      using deliver_parts_ok [OF y(2), of "?aware Y" ?g "bu_HashKey b" "oc_Decoalesce (cm_oc cm) b"] by (auto simp: returns_ok_def)
    show ?thesis using each_tracking [OF z] send_bundle_tracking [OF y(1)] z y(1) by (auto simp: tracking_def)
  qed
  have go: "map_option wk_tracker (?observe W2 \<bind> ?rest) = ?t"
  proof -
    have "returns_ok cm (?observe W2)" using 2(1) by (auto intro: worker_intros)
    then obtain X where x: "?observe W2 = Some X" "worker_ok cm X" by (auto simp: returns_ok_def)
    then show ?thesis using rest [OF x(2)] obs [OF 2(2)] by (simp only: x option.map bind.bind_lunit)
  qed
  have "deliverBundle cm ev b raw tracked W = (if \<not> allow then Some (count (FrameDropped reason) W)
     else case out of Suppress \<Rightarrow> ?observe W1 | Proceed \<Rightarrow> if dup then ?observe W2 else ?observe W2 \<bind> ?rest)"
    by (cases out) (simp_all only: deliverBundle_def Let_def al prod.case c s claim_outcome.case)
  then have "map_option wk_tracker (deliverBundle cm ev b raw tracked W) = (if \<not> allow then Some (wk_tracker W) else ?t)"
    using obs [OF 1(2)] obs [OF 2(2)] go
    by (cases allow; cases out; cases dup) (simp_all only: claim_outcome.case if_True if_False not_True_eq_False not_False_eq_True option.map count_fields)
  then show ?thesis using al by (simp add: bundle_allowed_def)
qed

lemma deliverBundle_untracked:
  assumes "deliverBundle cm ev b raw False W = Some W'"
  shows "tracking W' = tracking W"
proof -
  let ?g = "ucast (bu_GroupIdx b) :: u32"
  let ?key = "\<lparr>dk_GroupIdx = ?g, dk_SubtreeID = bu_SubtreeID b, dk_SeqNum = bu_SeqNum b\<rparr>"
  let ?probe = "\<lparr>fr_Version = sc_FrameVerV2 (cm_sc cm), fr_TxID = 0, fr_SubtreeID = bu_SubtreeID b, fr_HashKey = 0, fr_SeqNum = 0, fr_Payload = []\<rparr>"
  obtain allow reason where al: "Allow (ev_filt ev) ?g ?probe (wk_filt W) = (allow, reason)" by fastforce
  obtain out W1 where c: "(if bu_SeqNum b \<noteq> 0 then claim (bundle_id b) W else (Proceed, W)) = (out, W1)" by fastforce
  have 1: "tracking W1 = tracking W" using c claim_fields [of "bundle_id b" W out W1] by (cases "bu_SeqNum b = 0") simp_all
  obtain dup W2 where s: "(if bu_SeqNum b \<noteq> 0 then seen ev ?key W1 else (False, W1)) = (dup, W2)" by fastforce
  have 2: "tracking W2 = tracking W" using s 1 seen_fields [of ev ?key W1 dup W2] by (cases "bu_SeqNum b = 0") simp_all
  have "(if \<not> allow then Some (count (FrameDropped reason) W) else case out of Suppress \<Rightarrow> Some W1
      | Proceed \<Rightarrow> if dup then Some W2 else send_bundle cm b raw W2 \<bind> (\<lambda>Y. if \<not> es_SendBundle (wk_egr Y) \<noteq> None \<or> wk_mcastEgr Y \<noteq> None
      then each (deliver_member cm (es_SendBundle (wk_egr Y) \<noteq> None) ?g (bu_HashKey b)) (oc_Decoalesce (cm_oc cm) b) Y else Some Y)) = Some W'"
    unfolding assms [symmetric]
    by (cases out) (simp_all only: deliverBundle_def Let_def al prod.case c s claim_outcome.case if_False bind.bind_lunit)
  then show ?thesis using 1 2
    by (auto simp: bind_eq_Some_conv dest!: send_bundle_tracking each_tracking split: if_splits claim_outcome.splits)
qed

lemma deliver_children_tracking: "deliver_children cm evs i bs W = Some W' \<Longrightarrow> tracking W' = tracking W"
  by (induction bs arbitrary: i W) (auto simp: bind_eq_Some_conv dest!: deliverBundle_untracked)

definition rebucketed :: "Bundle \<Rightarrow> 'w Worker \<Rightarrow> bool" where
  "rebucketed b W \<longleftrightarrow> bu_ShardBits b \<noteq> 0 \<and> unat (bu_ShardBits b) \<noteq> wk_shardBits W"

lemma bundle_tracking:
  assumes ok: "worker_ok cm W" and d: "cm_DecodeBundle cm raw = Some b"
  shows "map_option wk_tracker (processBundle cm evs raw W) =
    (if rebucketed b W \<or> bundle_allowed cm (evs 0) b W
     then observation (evs 0) (wk_id W) (ucast (bu_GroupIdx b)) (bu_SubtreeID b) (bu_HashKey b) (bu_SeqNum b) W
     else Some (wk_tracker W))"
proof (cases "rebucketed b W")
  case True
  let ?W1 = "count (FrameReceived ''brc142'') W"
  obtain w children where r: "wk_rebucket ?W1 (rebucket_sender b) b (wk_world ?W1) = (w, children)" by fastforce
  define W2 where "W2 = count BundleRebucketed (?W1\<lparr>wk_world := w\<rparr>)"
  define W3 where "W3 = (if wk_relay W2 then W2 else (count RebucketUnguarded W2)\<lparr>wk_warnedRebucket := True\<rparr>)"
  have 3: "worker_ok cm W3" "tracking W3 = tracking W" using ok by (simp_all add: W3_def W2_def)
  obtain W4 where 4: "deliver_children cm evs 1 children W3 = Some W4"
    using deliver_children_ok [OF 3(1), of evs 1 children] by (auto simp: returns_ok_def)
  have "tracking W4 = tracking W" using deliver_children_tracking [OF 4] 3(2) by simp
  moreover have "processBundle cm evs raw W = track (evs 0) (ucast (bu_GroupIdx b)) (bu_SubtreeID b) (bu_HashKey b) (bu_SeqNum b) W4"
    using True
    unfolding processBundle_def d option.case Let_def r prod.case W2_def [symmetric] W3_def [symmetric] 4 rebucketed_def by simp
  ultimately show ?thesis using True track_same by simp
next
  case False
  have "processBundle cm evs raw W = deliverBundle cm (evs 0) b (Some raw) True (count (FrameReceived ''brc142'') W)"
    using d False by (auto simp: processBundle_def rebucketed_def Let_def)
  moreover have "observation ev ow g sub hk seq (count m W) = observation ev ow g sub hk seq W" for ev ow g sub hk seq m
    by (rule observation_cong) simp
  ultimately show ?thesis
    using deliverBundle_tracking [of cm "count (FrameReceived ''brc142'') W" "evs 0" b "Some raw" True] ok False
    by (simp add: bundle_allowed_def)
qed

text \<open>
  C6. Suppressing a frame never hides it from gap tracking. For a transaction, an anchor, a bundle and
  a BEEF object, the tracker afterwards is exactly what one observation of the frame's flow and
  sequence number makes of it, whether the frame was claimed by another listener, was a duplicate,
  was sent, or failed to be sent; only a frame the payload check or the filters reject leaves the
  tracker unchanged. A bundle of another shard generation is observed under its own flow in any
  case, and its re-bucketed children are not observed at all.
\<close>

theorem suppression_keeps_tracking:
  assumes "worker_ok cm W" and "fr_Version f = sc_FrameVerV2 (cm_sc cm)" and "cm_DecodeAnchor cm raw_a = Some fa"
    and "cm_DecodeBundle cm raw_b = Some b" and "wk_beefEngine W = Some engine"
  shows "map_option wk_tracker (processTxFrame cm ev raw f W) =
      (if payload_verdict cm f W = None \<and> fst (Allow (ev_filt ev) (wk_engine W (fr_TxID f)) f (wk_filt W))
       then observation ev (wk_id W) (wk_engine W (fr_TxID f)) (fr_SubtreeID f) (fr_HashKey f) (fr_SeqNum f) W
       else Some (wk_tracker W)) \<and>
    map_option wk_tracker (processAnchorFrame cm ev raw_a W) =
      observation ev (wk_id W) anchorGroupIdx 0 (fr_HashKey fa) (fr_SeqNum fa) W \<and>
    map_option wk_tracker (processBundle cm evs raw_b W) =
      (if rebucketed b W \<or> bundle_allowed cm (evs 0) b W
       then observation (evs 0) (wk_id W) (ucast (bu_GroupIdx b)) (bu_SubtreeID b) (bu_HashKey b) (bu_SeqNum b) W
       else Some (wk_tracker W)) \<and>
    map_option wk_tracker (deliverBeef cm ev raw bf W) =
      (if beef_verdict cm bf W = None
       then observation ev ownerUnknown (engine (be_TopicID bf)) 0 (be_HashKey bf) (be_SeqNum bf) W
       else Some (wk_tracker W))"
  by (intro conjI tx_tracking anchor_tracking bundle_tracking beef_tracking assms)

section \<open>The block-control gate\<close>

definition block_valid :: "common \<Rightarrow> BlockFrame \<Rightarrow> 'w Worker \<Rightarrow> bool" where
  "block_valid cm bf W =
     (if bk_MsgType bf = cm_BlockMsgAnnounce cm
      then cm_powHeaderSize cm \<le> length (bk_Payload bf) \<and> cm_CheckHeader cm (take (cm_powHeaderSize cm) (bk_Payload bf)) (wk_powFloor W)
      else bk_MsgType bf \<noteq> cm_BlockMsgCoinbase cm)"

definition only_counted :: "'w Worker \<Rightarrow> 'w Worker \<Rightarrow> bool" where
  "only_counted W W' \<longleftrightarrow> (\<exists>ms. W' = W\<lparr>wk_metrics := wk_metrics W @ ms\<rparr>)"

lemma only_counted_count: "only_counted W W' \<Longrightarrow> only_counted W (count m W')"
  by (auto simp: only_counted_def count_def)

lemma only_counted_refl: "only_counted W W"
  by (auto simp: only_counted_def intro: exI [of _ "[]"])

lemma gate_rejects:
  assumes "wk_requireBlockPoW W" and "\<not> block_valid cm bf W" and "only_counted W V"
  shows "\<exists>V'. blockGateAllows cm bf (bk_Payload bf) V = (False, V') \<and> only_counted W V'"
proof -
  have "wk_requireBlockPoW V" "wk_powFloor V = wk_powFloor W" using assms(1,3) by (auto simp: only_counted_def)
  then show ?thesis using assms(2) only_counted_count [OF assms(3)]
    by (auto simp: blockGateAllows_def block_valid_def not_less split: if_splits)
qed

text \<open>
  C8. With the gate on, a block announcement without valid proof of work and a standalone coinbase go
  nowhere. Neither the frame off the wire, nor the same frame re-injected by the tracker, nor its
  reassembly from fragments changes anything but the drop counters: no sink, no header output and
  no gap tracking sees it. The first two report that the frame was not accepted.
\<close>

theorem block_gate_safe:
  assumes "wk_requireBlockPoW W" and "cm_DecodeBlock cm raw = Some bf" and "\<not> block_valid cm bf W" and "cm_IsBlockFrame cm raw"
  shows "(\<exists>W'. processFrame cm evs raw W = Some (W', False) \<and> only_counted W W') \<and>
    (\<exists>W'. Reinject cm evs raw W = Some (W', False) \<and> only_counted (W\<lparr>wk_curSource := None\<rparr>) W') \<and>
    (\<exists>W'. DeliverReassembledBlock cm ev (bk_Payload bf) bf W = Some W' \<and> only_counted W W')"
proof -
  have off: "\<exists>V'. processFrame cm evs raw V = Some (V', False) \<and> only_counted V V'"
    if "wk_requireBlockPoW V" "\<not> block_valid cm bf V" for V :: "'a Worker"
    using gate_rejects [OF that only_counted_count [OF only_counted_refl], of "FrameReceived ''brc131''"] assms(2,4)
    by (auto simp: processFrame_def processBlockFrame_def)
  have re: "\<exists>W'. DeliverReassembledBlock cm ev (bk_Payload bf) bf W = Some W' \<and> only_counted W W'"
    using gate_rejects [OF assms(1,3) only_counted_count [OF only_counted_count [OF only_counted_refl]],
        of "FrameReceived ''brc131_reassembled''" ReassemblyCompleted] only_counted_count [OF only_counted_refl, of W ReassemblyCompleted]
    by (auto simp: DeliverReassembledBlock_def Let_def split: option.split)
  have "wk_requireBlockPoW (W\<lparr>wk_curSource := None\<rparr>)" "\<not> block_valid cm bf (W\<lparr>wk_curSource := None\<rparr>)"
    using assms(1,3) by (auto simp: block_valid_def split: if_splits)
  from off [OF this] off [OF assms(1,3)] re show ?thesis by (simp add: Reinject_def)
qed

section \<open>Retransmitted copies\<close>

definition tx_key :: "'w Worker \<Rightarrow> Frame \<Rightarrow> Key" where
  "tx_key W f = \<lparr>dk_GroupIdx = wk_engine W (fr_TxID f), dk_SubtreeID = fr_SubtreeID f, dk_SeqNum = fr_SeqNum f\<rparr>"

lemma track_fields:
  "track ev g sub hk seq W = Some W' \<Longrightarrow> wk_world W' = wk_world W \<and> wk_dedupSet W' = wk_dedupSet W \<and> wk_engine W' = wk_engine W \<and>
     wk_txDedup W' = wk_txDedup W"
  by (auto simp: track_def bind_eq_Some_conv split: if_splits)

lemma tx_unclaimed:
  assumes "fr_Version f = sc_FrameVerV2 (cm_sc cm)" and "fr_SeqNum f \<noteq> 0" and "wk_txDedup W = None" and "wk_dedupSet W = Some s"
    and "SeenAndAdd (ev_dedup ev) (tx_key W f) s = (dup, s')"
    and "payload_verdict cm f W = None" and "fst (Allow (ev_filt ev) (wk_engine W (fr_TxID f)) f (wk_filt W))"
  shows "processTxFrame cm ev raw f W =
    (let V = (count (FrameReceived ''brc124'') W)\<lparr>wk_dedupSet := Some s'\<rparr>; g = wk_engine W (fr_TxID f);
         observe = track ev g (fr_SubtreeID f) (fr_HashKey f) (fr_SeqNum f)
     in if dup then observe (count FrameDeduped V)
        else forward (es_Send (wk_egr W) raw f) V \<bind> (\<lambda>X. mcast raw f g X \<bind> observe))"
proof -
  obtain r where al: "Allow (ev_filt ev) (wk_engine W (fr_TxID f)) f (wk_filt W) = (True, r)"
    using assms(7) by (cases "Allow (ev_filt ev) (wk_engine W (fr_TxID f)) f (wk_filt W)") simp
  have "seen ev (tx_key W f) (count (FrameReceived ''brc124'') W) =
      (dup, if dup then count FrameDeduped ((count (FrameReceived ''brc124'') W)\<lparr>wk_dedupSet := Some s'\<rparr>)
            else (count (FrameReceived ''brc124'') W)\<lparr>wk_dedupSet := Some s'\<rparr>)"
    using assms(4,5) by (simp add: seen_def Let_def)
  then show ?thesis
    using assms(1-3,6) al by (simp add: processTxFrame_def Let_def claim_def tx_key_def)
qed

lemma duplicate_reaches_no_sink:
  assumes "fr_Version f = sc_FrameVerV2 (cm_sc cm)" and "fr_SeqNum f \<noteq> 0" and "wk_txDedup W = None" and "wk_dedupSet W = Some s"
    and "fst (SeenAndAdd (ev_dedup ev) (tx_key W f) s)" and "processTxFrame cm ev raw f W = Some W'"
  shows "wk_world W' = wk_world W"
proof (cases "payload_verdict cm f W = None \<and> fst (Allow (ev_filt ev) (wk_engine W (fr_TxID f)) f (wk_filt W))")
  case True
  obtain s' where "SeenAndAdd (ev_dedup ev) (tx_key W f) s = (True, s')"
    using assms(5) by (cases "SeenAndAdd (ev_dedup ev) (tx_key W f) s") simp
  from tx_unclaimed [OF assms(1-4) this] True assms(6) show ?thesis by (auto simp: Let_def dest!: track_fields)
next
  case False
  then show ?thesis using assms(1,3,6)
    by (cases "payload_verdict cm f W"; cases "Allow (ev_filt ev) (wk_engine W (fr_TxID f)) f (wk_filt W)")
       (auto simp: processTxFrame_def Let_def)
qed

lemma first_copy:
  assumes "fr_Version f = sc_FrameVerV2 (cm_sc cm)" and "fr_SeqNum f \<noteq> 0" and "wk_txDedup W = None" and "wk_dedupSet W = Some s"
    and "\<not> fst (SeenAndAdd (ev_dedup ev) (tx_key W f) s)"
    and "payload_verdict cm f W = None" and "fst (Allow (ev_filt ev) (wk_engine W (fr_TxID f)) f (wk_filt W))"
    and "processTxFrame cm ev raw f W = Some W'"
  shows "wk_dedupSet W' = Some (snd (SeenAndAdd (ev_dedup ev) (tx_key W f) s)) \<and>
    (\<exists>w e. es_Send (wk_egr W) raw f (wk_world W) = Some (w, e) \<and>
      (case wk_mcastEgr W of None \<Rightarrow> wk_world W' = w
       | Some ms \<Rightarrow> \<exists>e'. ms raw f (wk_engine W (fr_TxID f)) w = Some (wk_world W', e')))"
proof -
  let ?g = "wk_engine W (fr_TxID f)"
  obtain s' where s': "SeenAndAdd (ev_dedup ev) (tx_key W f) s = (False, s')"
    using assms(5) by (cases "SeenAndAdd (ev_dedup ev) (tx_key W f) s") simp
  let ?V = "(count (FrameReceived ''brc124'') W)\<lparr>wk_dedupSet := Some s'\<rparr>"
  from tx_unclaimed [OF assms(1-4) s' assms(6,7)] assms(8) obtain X Y where
    x: "forward (es_Send (wk_egr W) raw f) ?V = Some X" and y: "mcast raw f ?g X = Some Y"
    and t: "track ev ?g (fr_SubtreeID f) (fr_HashKey f) (fr_SeqNum f) Y = Some W'"
    by (auto simp: Let_def bind_eq_Some_conv)
  from x obtain w e where w: "es_Send (wk_egr W) raw f (wk_world W) = Some (w, e)" "wk_world X = w"
    by (auto simp: forward_def egress_def bind_eq_Some_conv)
  have X: "wk_mcastEgr X = wk_mcastEgr W" "wk_dedupSet X = Some s'"
    using egress_fields [of "es_Send (wk_egr W) raw f" "FrameForwarded (es_Proto (wk_egr ?V))" EgressError ?V X] x
    by (simp_all add: forward_def)
  have "case wk_mcastEgr W of None \<Rightarrow> wk_world Y = w | Some ms \<Rightarrow> \<exists>e'. ms raw f ?g w = Some (wk_world Y, e')"
    using y w(2) X(1) by (auto simp: mcast_def egress_def bind_eq_Some_conv split: option.splits)
  then show ?thesis using track_fields [OF t] mcast_fields [OF y] X(2) w(1) s' by (auto split: option.splits)
qed

lemma first_copy_setup:
  assumes "fr_Version f = sc_FrameVerV2 (cm_sc cm)" and "fr_SeqNum f \<noteq> 0" and "wk_txDedup W = None" and "wk_dedupSet W = Some s"
    and "\<not> fst (SeenAndAdd (ev_dedup ev) (tx_key W f) s)"
    and "payload_verdict cm f W = None" and "fst (Allow (ev_filt ev) (wk_engine W (fr_TxID f)) f (wk_filt W))"
    and "wk_mcastEgr W = None" and "processTxFrame cm ev raw f W = Some W'"
  shows "wk_engine W' = wk_engine W \<and> wk_txDedup W' = None"
proof -
  let ?g = "wk_engine W (fr_TxID f)"
  obtain s' where s': "SeenAndAdd (ev_dedup ev) (tx_key W f) s = (False, s')"
    using assms(5) by (cases "SeenAndAdd (ev_dedup ev) (tx_key W f) s") simp
  let ?V = "(count (FrameReceived ''brc124'') W)\<lparr>wk_dedupSet := Some s'\<rparr>"
  from tx_unclaimed [OF assms(1-4) s' assms(6,7)] assms(9) obtain X Y where
    x: "forward (es_Send (wk_egr W) raw f) ?V = Some X" and y: "mcast raw f ?g X = Some Y"
    and t: "track ev ?g (fr_SubtreeID f) (fr_HashKey f) (fr_SeqNum f) Y = Some W'"
    by (auto simp: Let_def bind_eq_Some_conv)
  have X: "wk_mcastEgr X = None" "wk_engine X = wk_engine W" "wk_txDedup X = None"
    using egress_fields [of "es_Send (wk_egr W) raw f" "FrameForwarded (es_Proto (wk_egr ?V))" EgressError ?V X] x assms(3,8)
    by (simp_all add: forward_def)
  have "Y = X" using y X(1) by (simp add: mcast_def)
  then show ?thesis using track_fields [OF t] X by simp
qed


end
