(* ===== verification/Worker_Examples.thy ===== *)
theory Worker_Examples
  imports Worker_Delivery Reassembly_Examples Egress_Sender
begin

text \<open>
  A small worker on which the properties of the receive pipeline are evaluated, and the run that shows
  two senders sharing a key of the duplicate set.
\<close>

section \<open>A worker\<close>

text \<open>A sink that records what it is given; a codec in which byte 0 is the class and the rest the fields.\<close>

type_synonym sent_log = "byte list list"

definition log_send :: "byte list \<Rightarrow> sent_log send" where
  "log_send raw w = Some (w @ [raw], None)"

definition demo_sink :: "sent_log EgressSink" where
  "demo_sink = \<lparr>es_Send = (\<lambda>raw f. log_send raw), es_SendBlock = (\<lambda>raw f. log_send raw), es_SendSubtreeData = (\<lambda>raw f. log_send raw),
     es_SendBeef = (\<lambda>raw f. log_send raw), es_SendRaw = log_send, es_Proto = ''udp'', es_Close = (\<lambda>w. Some (w, None)),
     es_SendBundle = None, es_SendHeader = None, es_SendHeaderN = None\<rparr>"

definition demo_tx :: "byte \<Rightarrow> byte \<Rightarrow> byte \<Rightarrow> Frame" where
  "demo_tx t h n = \<lparr>fr_Version = 2, fr_TxID = ucast t, fr_SubtreeID = 0, fr_HashKey = ucast h, fr_SeqNum = ucast n, fr_Payload = [t]\<rparr>"

definition demo_decode :: "byte \<Rightarrow> byte list \<Rightarrow> Frame option" where
  "demo_decode c raw = (case raw of [k, t, h, n] \<Rightarrow> if k = c then Some (demo_tx t h n) else None | _ \<Rightarrow> None)"

definition demo_block :: "byte \<Rightarrow> BlockFrame" where
  "demo_block t = \<lparr>bk_MsgType = t, bk_ContentID = 7, bk_HashKey = 42, bk_SeqNum = 3, bk_Payload = replicate 80 0\<rparr>"

definition demo_common :: common where
  "demo_common =
     \<lparr>cm_fc = \<lparr>fc_sc = demo_sc, fc_oc = demo_oc, fc_Hash = (\<lambda>a g sid. ucast a + ucast g)\<rparr>, cm_tc = demo_tee,
      cm_IsBlockFrame = (\<lambda>raw. take 1 raw = [4]), cm_IsSubtreeDataFrame = (\<lambda>raw. take 1 raw = [5]),
      cm_IsAnchorFrame = (\<lambda>raw. take 1 raw = [6]), cm_IsFragment = (\<lambda>raw. take 1 raw = [3]), cm_IsBundle = (\<lambda>raw. take 1 raw = [8]),
      cm_IsBEEFFrame = (\<lambda>raw. take 1 raw = [9]), cm_Decode = demo_decode 2, cm_DecodeAnchor = demo_decode 6,
      cm_DecodeBlock = (\<lambda>raw. if length raw = 2 then Some (demo_block (raw ! 1)) else None), cm_DecodeSubtreeData = (\<lambda>_. None),
      cm_DecodeFragment = (\<lambda>_. None),
      cm_DecodeBundle = (\<lambda>raw. Some \<lparr>bu_ShardBits = 8, bu_GroupIdx = 3, bu_SubtreeID = 0, bu_HashKey = 42, bu_SeqNum = 5, bu_Members = [(1, [1])]\<rparr>),
      cm_DecodeBEEF = (\<lambda>_. None), cm_EncodeBlock = (\<lambda>bf buf. Some buf), cm_EncodeSubtreeData = (\<lambda>sf buf. Some buf),
      cm_EncodeBEEF = (\<lambda>bf buf. Some (buf, length buf)), cm_EncodeBundle = (\<lambda>_. None),
      cm_EncodeBlockHeader = (\<lambda>i hk n h buf. Some (h @ buf)), cm_DecodeBlockHeader = (\<lambda>_. None), cm_FrameVerV6 = 6,
      cm_BlockMsgAnnounce = 1, cm_BlockMsgCoinbase = 2, cm_BlockHeaderSize = 80, cm_BlockHeaderFrameSize = 172,
      cm_GroupBlockBroadcast = 0xFFFE, cm_GroupSubtreeDataAnnounce = 0xFFFB, cm_GroupCoinbaseFlow = 0xFFF8, cm_GroupBlockHeader = 0xFFFA,
      cm_powHeaderSize = 80, cm_CheckHeader = (\<lambda>h floor. h ! 0 = 1), cm_CompactToTarget = (\<lambda>bits. uint bits)\<rparr>"

definition demo_env :: env where
  "demo_env = \<lparr>ev_filt = 0, ev_dedup = 0, ev_slot = 0, ev_done = 0, ev_req = (0, \<lambda>_. 0), ev_obs = (0, \<lambda>_. 0)\<rparr>"

definition demo_worker :: "sent_log Worker" where
  "demo_worker =
     SetBEEF (Some (\<lambda>t. 3)) [] [] False
      (SetEgressDedup (Some (New_Set 4 (2 * second)))
       (New_Worker 1 [] (\<lambda>t. 3) 8 (New_Filter [] [] [] None) demo_sink None (Some (New_Tracker demo_cfg [] True None))
          (New_Tracker demo_cfg [] True None) True (\<lambda>sender b w. (w, [])) []))"

lemmas demo_worker_defs = demo_worker_def SetBEEF_def SetEgressDedup_def New_Worker_def

lemma demo_tracker_cfg: "jitter_ok (tr_cfg (New_Tracker demo_cfg [] True None))"
  using demo_jitter by (simp add: New_Tracker_def Let_def jitter_ok_def)

lemma demo_worker_init: "worker_init cm demo_worker"
  unfolding worker_init_def
proof (intro conjI)
  show "\<exists>cfg eps rc registry. wk_tracker demo_worker = New_Tracker cfg eps rc registry \<and> jitter_ok (tr_cfg (wk_tracker demo_worker)) \<and>
      (case registry of None \<Rightarrow> True | Some r \<Rightarrow> registry_ok r)"
    by (intro exI [of _ demo_cfg] exI [of _ "[]"] exI [of _ True] exI [of _ None]) (simp add: demo_worker_defs demo_tracker_cfg)
  show "sinks_total demo_worker" by (simp add: sinks_total_def demo_worker_defs demo_sink_def log_send_def)
qed (auto simp: demo_worker_defs)

lemma demo_worker_ok: "worker_ok cm demo_worker"
  by (rule worker_ok_init [OF demo_worker_init])

lemma demo_worker_reach: "reach (worker_init demo_common) (worker_step demo_common) demo_worker"
  by (rule reach_init) (rule demo_worker_init)


theorem suppression_keeps_tracking_witness:
  "map_option wk_tracker (processAnchorFrame demo_common demo_env [6, 5, 42, 9] demo_worker) =
     ObserveFrom 0 (\<lambda>_. 0) 1 0xFFF9 0 42 9 None (wk_tracker demo_worker)"
proof -
  have a: "cm_DecodeAnchor demo_common [6, 5, 42, 9] = Some (demo_tx 5 42 9)" by (simp add: demo_common_def demo_decode_def)
  have b: "cm_DecodeBundle demo_common [] = Some \<lparr>bu_ShardBits = 8, bu_GroupIdx = 3, bu_SubtreeID = 0, bu_HashKey = 42, bu_SeqNum = 5, bu_Members = [(1, [1])]\<rparr>"
    by (simp add: demo_common_def)
  have v: "fr_Version (demo_tx 5 42 9) = sc_FrameVerV2 (cm_sc demo_common)" by (simp add: demo_tx_def demo_common_def demo_sc_def)
  have e: "wk_beefEngine demo_worker = Some (\<lambda>t. 3)" by (simp add: demo_worker_defs)
  show ?thesis using suppression_keeps_tracking [OF demo_worker_ok v a b e, of demo_env]
    by (simp add: observation_def demo_env_def demo_tx_def anchorGroupIdx_def) (simp add: demo_worker_defs)
qed

definition demo_gated :: "sent_log Worker" where
  "demo_gated = SetBlockPoW demo_common True 0 demo_worker"

theorem block_gate_safe_witness:
  "(\<exists>W'. processFrame demo_common (\<lambda>_. demo_env) [4, 1] demo_gated = Some (W', False) \<and> wk_world W' = []) \<and>
   (\<exists>W'. Reinject demo_common (\<lambda>_. demo_env) [4, 1] demo_gated = Some (W', False) \<and> wk_tracker W' = wk_tracker demo_gated)"
proof -
  have p: "wk_requireBlockPoW demo_gated" "wk_world demo_gated = []"
    by (simp_all add: demo_gated_def SetBlockPoW_def demo_worker_defs)
  have d: "cm_DecodeBlock demo_common [4, 1] = Some (demo_block 1)" "cm_IsBlockFrame demo_common [4, 1]" by (simp_all add: demo_common_def)
  have v: "\<not> block_valid demo_common (demo_block 1) demo_gated" by (simp add: block_valid_def demo_common_def demo_block_def)
  show ?thesis using block_gate_safe [OF p(1) d(1) v d(2), of "\<lambda>_. demo_env" demo_env] p(2) by (auto simp: only_counted_def)
qed

section \<open>Duplicates\<close>

lemma demo_fields:
  "wk_txDedup demo_worker = None" "wk_dedupSet demo_worker = Some (New_Set 4 (2 * second))" "wk_world demo_worker = []"
  "wk_mcastEgr demo_worker = None" "wk_egr demo_worker = demo_sink" "wk_engine demo_worker = (\<lambda>_. 3)"
  "payload_verdict cm f demo_worker = None" "fst (Allow now g f (wk_filt demo_worker))"
  by (simp_all add: demo_worker_defs payload_verdict_def New_Filter_def compiled_def Allow_def)

lemma demo_v2: "fr_Version (demo_tx t h n) = sc_FrameVerV2 (cm_sc demo_common)"
  by (simp add: demo_tx_def demo_common_def demo_sc_def)

lemma demo_unseen: "\<not> fst (SeenAndAdd (ev_dedup demo_env) k (New_Set 4 (2 * second)))"
  by (simp add: SeenAndAdd_def New_Set_def Let_def)



end
