(* ===== verification/Auto_Config.thy ===== *)
theory Auto_Config
  imports Worker_Examples
begin

text \<open>
  Automatic shard configuration: the applier of \<^verbatim>\<open>manifest/applier.go\<close>, which turns the view the
  manifest evaluator adopts into change notifications, and the hook \<^verbatim>\<open>main.go\<close> gives it to join and
  leave multicast groups on the workers. The manifest registry, its evaluator and the address
  derivation of a group are shard-common and are parameters. The theory shows that the
  notifications add up to the adopted view and what the workers have joined after any run.
\<close>

section \<open>The adopted view\<close>

text \<open>The fields of \<^verbatim>\<open>commanifest.Adopted\<close> the applier reads; \<open>'s\<close> is the successor view.\<close>

record 's Adopted =
  av_ShardBits :: byte
  av_SourceModeSSM :: bool
  av_PilotGroups :: "u16 list"
  av_SourceSet :: "ip list"
  av_Successor :: "'s option"
  av_Domains :: "(byte \<times> byte) list"
  av_PilotsKnown :: int
  av_QuorumMet :: "(string \<times> bool) list"
  av_DivergenceFields :: "string list"

definition no_view :: "'s Adopted" where
  "no_view = \<lparr>av_ShardBits = 0, av_SourceModeSSM = False, av_PilotGroups = [], av_SourceSet = [], av_Successor = None,
     av_Domains = [], av_PilotsKnown = 0, av_QuorumMet = [], av_DivergenceFields = []\<rparr>"

text \<open>Reading a Go map: an absent key gives the zero value.\<close>

definition map_get :: "'v \<Rightarrow> ('k \<times> 'v) list \<Rightarrow> 'k \<Rightarrow> 'v" where
  "map_get z m k = (case map_of m k of None \<Rightarrow> z | Some v \<Rightarrow> v)"

section \<open>The applier\<close>

datatype applier_metric = SetPilotsKnown int | SetQuorumMetBits int | ManifestDivergence string string
  | ManifestAdoption string string | SetReshardState int | SetReshardWindowSeconds int

datatype 's hook_call = OnShardBitsChange byte byte | OnSourceModeChange bool bool
  | OnPilotGroupsChange "u16 list" "u16 list" | OnSourceSetChange "ip list" "ip list"
  | OnSuccessorChange "'s option" "'s option" | OnDomainShardBitsChange byte byte byte

datatype 's applied = Metric applier_metric | Call "'s hook_call"

text \<open>Which hooks are set.\<close>

record Hooks =
  hk_OnShardBitsChange :: bool
  hk_OnSourceModeChange :: bool
  hk_OnPilotGroupsChange :: bool
  hk_OnSourceSetChange :: bool
  hk_OnSuccessorChange :: bool
  hk_OnDomainShardBitsChange :: bool

text \<open>\<open>epoch\<close> reads the transition epoch of a successor as an int64; \<open>now\<close> is the Unix time.\<close>

definition publishMetrics :: "('s \<Rightarrow> int) \<Rightarrow> int \<Rightarrow> 's Adopted \<Rightarrow> applier_metric list" where
  "publishMetrics epoch now v =
     (let met = map_get False (av_QuorumMet v);
          bits = (if met ''shard_bits'' then 1 else 0) OR (if met ''source_mode'' then 2 else 0) OR (if met ''successor'' then 4 else 0);
          remaining = (case av_Successor v of None \<Rightarrow> 0 | Some s \<Rightarrow> wrap64 (epoch s - now));
          state = (if av_Successor v = None then 0 else if remaining > 0 then 1 else 2)
      in [SetPilotsKnown (av_PilotsKnown v), SetQuorumMetBits bits] @
         map (\<lambda>f. ManifestDivergence f ''peer-disagree'') (av_DivergenceFields v) @
         [SetReshardState state, SetReshardWindowSeconds remaining])"

definition reasonForChange :: "bool \<Rightarrow> string" where
  "reasonForChange hadPrev = (if hadPrev then ''quorum-shift'' else ''bootstrap'')"

definition diffUint16 :: "u16 list \<Rightarrow> u16 list \<Rightarrow> u16 list \<times> u16 list" where
  "diffUint16 before after =
     (sort (filter (\<lambda>v. v \<notin> set before) after), sort (filter (\<lambda>v. v \<notin> set after) before))"

definition diffAddrs :: "ip list \<Rightarrow> ip list \<Rightarrow> ip list \<times> ip list" where
  "diffAddrs before after =
     (sort (filter (\<lambda>v. v \<notin> set before) after), sort (filter (\<lambda>v. v \<notin> set after) before))"

definition domain_ids :: "byte list" where
  "domain_ids = map of_nat [0..<0x0F]"

definition domainShardBitsChanges :: "(byte \<times> byte) list \<Rightarrow> (byte \<times> byte) list \<Rightarrow> (byte \<times> byte \<times> byte) list" where
  "domainShardBitsChanges prev next =
     map (\<lambda>d. (d, map_get 0 prev d, map_get 0 next d)) (filter (\<lambda>d. map_get 0 prev d \<noteq> map_get 0 next d) domain_ids)"

definition fireHooks :: "Hooks \<Rightarrow> 's Adopted \<Rightarrow> 's Adopted \<Rightarrow> 's applied list" where
  "fireHooks hk prev next =
     (if hk_OnShardBitsChange hk \<and> av_ShardBits prev \<noteq> av_ShardBits next
      then [Metric (ManifestAdoption ''shard_bits'' (reasonForChange (av_ShardBits prev \<noteq> 0))),
            Call (OnShardBitsChange (av_ShardBits prev) (av_ShardBits next))] else []) @
     (if hk_OnSourceModeChange hk \<and> av_SourceModeSSM prev \<noteq> av_SourceModeSSM next
      then [Metric (ManifestAdoption ''source_mode'' (reasonForChange (av_PilotsKnown prev > 0))),
            Call (OnSourceModeChange (av_SourceModeSSM prev) (av_SourceModeSSM next))] else []) @
     (if hk_OnPilotGroupsChange hk
      then let (added, removed) = diffUint16 (av_PilotGroups prev) (av_PilotGroups next)
           in if 0 < length added \<or> 0 < length removed then [Call (OnPilotGroupsChange added removed)] else []
      else []) @
     (if hk_OnSourceSetChange hk
      then let (added, removed) = diffAddrs (av_SourceSet prev) (av_SourceSet next)
           in if 0 < length added \<or> 0 < length removed then [Call (OnSourceSetChange added removed)] else []
      else []) @
     (if hk_OnSuccessorChange hk \<and> av_Successor prev \<noteq> av_Successor next
      then [Call (OnSuccessorChange (av_Successor prev) (av_Successor next))] else []) @
     (if hk_OnDomainShardBitsChange hk
      then concat (map (\<lambda>(d, p, n). [Metric (ManifestAdoption ''domain_shard_bits'' (reasonForChange (p \<noteq> 0))),
                                     Call (OnDomainShardBitsChange d p n)])
             (domainShardBitsChanges (av_Domains prev) (av_Domains next)))
      else [])"

text \<open>
  One tick: \<open>evaluate\<close> evicts from the registry and evaluates its snapshot; its first argument is
  what reached the registry since the last tick and the time, its second registry and evaluator.
\<close>

definition tick :: "('i \<Rightarrow> 'r \<Rightarrow> 's Adopted \<times> 'r) \<Rightarrow> ('s \<Rightarrow> int) \<Rightarrow> Hooks \<Rightarrow> 'i \<times> int \<Rightarrow> 's Adopted \<times> 'r \<Rightarrow> 's applied list \<times> 's Adopted \<times> 'r" where
  "tick evaluate epoch hk i s =
     (let (prev, r) = s; (next, r1) = evaluate (fst i) r
      in (map Metric (publishMetrics epoch (snd i) next) @ fireHooks hk prev next, next, r1))"

section \<open>Group membership\<close>

record Config =
  cf_ShardInclude :: "u32 list"
  cf_NumGroups :: u32
  cf_MCPrefix :: u16
  cf_MCGroupID :: u16
  cf_SubtreeDataEnabled :: bool
  cf_AutoJoinFromManifest :: bool

text \<open>
  The addresses the workers join, with \<open>addr\<close> for the shard engine and \<open>group_ip\<close> for
  \<^verbatim>\<open>shard.GroupAddr\<close>. All have the listen port.
\<close>

definition buildGroups :: "(u32 \<Rightarrow> byte list) \<Rightarrow> (u16 \<Rightarrow> u16 \<Rightarrow> u32 \<Rightarrow> byte list) \<Rightarrow> Config \<Rightarrow> u32 list \<Rightarrow> byte list list" where
  "buildGroups addr group_ip cfg beefJoinIdx =
     (let indices = (if 0 < length (cf_ShardInclude cfg) then cf_ShardInclude cfg else map of_nat [0..<unat (cf_NumGroups cfg)])
      in map addr indices @ [group_ip (cf_MCPrefix cfg) (cf_MCGroupID cfg) groupBlockBroadcast] @
         (if cf_SubtreeDataEnabled cfg then [group_ip (cf_MCPrefix cfg) (cf_MCGroupID cfg) groupSubtreeDataAnnounce] else []) @
         map addr beefJoinIdx)"

definition inStaticInclude :: "u32 list \<Rightarrow> u16 \<Rightarrow> bool" where
  "inStaticInclude static idx = list_ex (\<lambda>v. v = ucast idx) static"

definition group_of :: "(u32 \<Rightarrow> byte list) \<Rightarrow> u16 \<Rightarrow> ip option" where
  "group_of addr idx = map_option word_of_bytes (To16 (addr (ucast idx)))"

text \<open>Errors are logged and dropped; \<open>None\<close> is a panic. \<open>join\<close> and \<open>leave\<close> answer for one worker.\<close>

fun add_workers :: "(int \<Rightarrow> ip \<Rightarrow> ip list \<Rightarrow> string option) \<Rightarrow> ip \<Rightarrow> 'w Worker list \<Rightarrow> 'w Worker list option" where
  "add_workers join ga [] = Some []"
| "add_workers join ga (w # ws) =
     do { (e, w1) \<leftarrow> AddGroup (join (wk_id w)) ga [] w; ws1 \<leftarrow> add_workers join ga ws; Some (w1 # ws1) }"

definition pilot_add :: "(u32 \<Rightarrow> byte list) \<Rightarrow> (int \<Rightarrow> ip \<Rightarrow> ip list \<Rightarrow> string option) \<Rightarrow> u16 \<Rightarrow> 'w Worker list \<Rightarrow> 'w Worker list option" where
  "pilot_add addr join idx ws = (case group_of addr idx of None \<Rightarrow> Some ws | Some ga \<Rightarrow> add_workers join ga ws)"

definition pilot_remove :: "(u32 \<Rightarrow> byte list) \<Rightarrow> (int \<Rightarrow> ip \<Rightarrow> ip list \<Rightarrow> string option) \<Rightarrow> u32 list \<Rightarrow> u16 \<Rightarrow> 'w Worker list \<Rightarrow> 'w Worker list option" where
  "pilot_remove addr leave static idx ws =
     (case group_of addr idx of None \<Rightarrow> Some ws
      | Some ga \<Rightarrow> Some (if inStaticInclude static idx then ws else map (\<lambda>w. snd (RemoveGroup (leave (wk_id w)) ga [] w)) ws))"

definition pilot_hook :: "Config \<Rightarrow> (u32 \<Rightarrow> byte list) \<Rightarrow> (int \<Rightarrow> ip \<Rightarrow> ip list \<Rightarrow> string option) \<Rightarrow> (int \<Rightarrow> ip \<Rightarrow> ip list \<Rightarrow> string option) \<Rightarrow>
    u16 list \<Rightarrow> u16 list \<Rightarrow> 'w Worker list \<Rightarrow> 'w Worker list option" where
  "pilot_hook cfg addr join leave added removed ws =
     (if \<not> cf_AutoJoinFromManifest cfg then Some ws
      else each (pilot_add addr join) added ws \<bind> each (pilot_remove addr leave (cf_ShardInclude cfg)) removed)"

text \<open>The hooks \<^verbatim>\<open>main.go\<close> sets; only the one for pilot groups acts on the workers.\<close>

definition main_hooks :: Hooks where
  "main_hooks = \<lparr>hk_OnShardBitsChange = True, hk_OnSourceModeChange = False, hk_OnPilotGroupsChange = True,
     hk_OnSourceSetChange = False, hk_OnSuccessorChange = False, hk_OnDomainShardBitsChange = True\<rparr>"

fun on_applied :: "Config \<Rightarrow> (u32 \<Rightarrow> byte list) \<Rightarrow> (int \<Rightarrow> ip \<Rightarrow> ip list \<Rightarrow> string option) \<Rightarrow> (int \<Rightarrow> ip \<Rightarrow> ip list \<Rightarrow> string option) \<Rightarrow>
    's applied \<Rightarrow> 'w Worker list \<Rightarrow> 'w Worker list option" where
  "on_applied cfg addr join leave (Call (OnPilotGroupsChange added removed)) ws = pilot_hook cfg addr join leave added removed ws"
| "on_applied cfg addr join leave _ ws = Some ws"

section \<open>Notifications add up to the adopted view\<close>

text \<open>What a consumer that only hears the notifications knows.\<close>

record 's view =
  vw_bits :: byte
  vw_ssm :: bool
  vw_pilots :: "u16 set"
  vw_sources :: "ip set"
  vw_successor :: "'s option"
  vw_domains :: "byte \<Rightarrow> byte"

definition view_of :: "'s Adopted \<Rightarrow> 's view" where
  "view_of a = \<lparr>vw_bits = av_ShardBits a, vw_ssm = av_SourceModeSSM a, vw_pilots = set (av_PilotGroups a),
     vw_sources = set (av_SourceSet a), vw_successor = av_Successor a,
     vw_domains = (\<lambda>d. if d \<in> set domain_ids then map_get 0 (av_Domains a) d else 0)\<rparr>"

fun replay :: "'s hook_call \<Rightarrow> 's view \<Rightarrow> 's view" where
  "replay (OnShardBitsChange p n) v = v\<lparr>vw_bits := n\<rparr>"
| "replay (OnSourceModeChange p n) v = v\<lparr>vw_ssm := n\<rparr>"
| "replay (OnPilotGroupsChange a r) v = v\<lparr>vw_pilots := vw_pilots v - set r \<union> set a\<rparr>"
| "replay (OnSourceSetChange a r) v = v\<lparr>vw_sources := vw_sources v - set r \<union> set a\<rparr>"
| "replay (OnSuccessorChange p n) v = v\<lparr>vw_successor := n\<rparr>"
| "replay (OnDomainShardBitsChange d p n) v = v\<lparr>vw_domains := (vw_domains v)(d := n)\<rparr>"

text \<open>A notification that tells a consumer with this knowledge something true and new.\<close>

fun news :: "'s view \<Rightarrow> 's hook_call \<Rightarrow> bool" where
  "news v (OnShardBitsChange p n) \<longleftrightarrow> p = vw_bits v \<and> n \<noteq> p"
| "news v (OnSourceModeChange p n) \<longleftrightarrow> p = vw_ssm v \<and> n \<noteq> p"
| "news v (OnPilotGroupsChange a r) \<longleftrightarrow> set a \<union> set r \<noteq> {} \<and> set a \<inter> vw_pilots v = {} \<and> set r \<subseteq> vw_pilots v \<and> sorted a \<and> sorted r"
| "news v (OnSourceSetChange a r) \<longleftrightarrow> set a \<union> set r \<noteq> {} \<and> set a \<inter> vw_sources v = {} \<and> set r \<subseteq> vw_sources v \<and> sorted a \<and> sorted r"
| "news v (OnSuccessorChange p n) \<longleftrightarrow> p = vw_successor v \<and> n \<noteq> p"
| "news v (OnDomainShardBitsChange d p n) \<longleftrightarrow> p = vw_domains v d \<and> n \<noteq> p"

fun calls :: "'s applied list \<Rightarrow> 's hook_call list" where
  "calls [] = []"
| "calls (Metric m # xs) = calls xs"
| "calls (Call c # xs) = c # calls xs"

text \<open>\<open>hears v cs v'\<close>: every call is news, and together they lead from \<open>v\<close> to \<open>v'\<close>.\<close>

fun hears :: "'s view \<Rightarrow> 's hook_call list \<Rightarrow> 's view \<Rightarrow> bool" where
  "hears v [] v' \<longleftrightarrow> v = v'"
| "hears v (c # cs) v' \<longleftrightarrow> news v c \<and> hears (replay c v) cs v'"

text \<open>A view with the fields no hook reports left at what a new process has.\<close>

definition watched :: "Hooks \<Rightarrow> 's view \<Rightarrow> 's view" where
  "watched hk v =
     \<lparr>vw_bits = if hk_OnShardBitsChange hk then vw_bits v else 0,
      vw_ssm = hk_OnSourceModeChange hk \<and> vw_ssm v,
      vw_pilots = if hk_OnPilotGroupsChange hk then vw_pilots v else {},
      vw_sources = if hk_OnSourceSetChange hk then vw_sources v else {},
      vw_successor = if hk_OnSuccessorChange hk then vw_successor v else None,
      vw_domains = if hk_OnDomainShardBitsChange hk then vw_domains v else (\<lambda>_. 0)\<rparr>"

lemma calls_append [simp]: "calls (xs @ ys) = calls xs @ calls ys"
  by (induction xs rule: calls.induct) simp_all

lemma calls_Metric [simp]: "calls (map Metric ms) = []"
  by (induction ms) simp_all

lemma hears_append: "hears v xs mid \<Longrightarrow> hears mid ys v' \<Longrightarrow> hears v (xs @ ys) v'"
  by (induction xs arbitrary: v) auto

lemma hears_replay: "hears v cs v' \<Longrightarrow> fold replay cs v = v'"
  by (induction cs arbitrary: v) auto

lemma watched_none [simp]: "watched hk (view_of no_view) = view_of no_view"
  by (simp add: watched_def view_of_def no_view_def map_get_def fun_eq_iff)

lemma domain_calls:
  assumes "distinct ds" and "\<And>d. d \<in> set ds \<Longrightarrow> vw_domains v d = p d"
  shows "hears v (map (\<lambda>d. OnDomainShardBitsChange d (p d) (n d)) (filter (\<lambda>d. p d \<noteq> n d) ds))
    (v\<lparr>vw_domains := (\<lambda>d. if d \<in> set ds then n d else vw_domains v d)\<rparr>)"
  using assms
proof (induction ds arbitrary: v)
  case (Cons d ds)
  show ?case
  proof (cases "p d = n d")
    case True
    have "vw_domains v d = n d" using Cons.prems(2) [of d] True by simp
    then have "(\<lambda>x. if x \<in> set ds then n x else vw_domains v x) = (\<lambda>x. if x \<in> set (d # ds) then n x else vw_domains v x)"
      by auto
    then show ?thesis using Cons.IH [of v] Cons.prems True by auto
  next
    case False
    let ?v = "v\<lparr>vw_domains := (vw_domains v)(d := n d)\<rparr>"
    have e: "(\<lambda>x. if x \<in> set ds then n x else vw_domains ?v x) = (\<lambda>x. if x \<in> set (d # ds) then n x else vw_domains v x)"
      by auto
    have "hears ?v (map (\<lambda>d. OnDomainShardBitsChange d (p d) (n d)) (filter (\<lambda>d. p d \<noteq> n d) ds))
      (?v\<lparr>vw_domains := (\<lambda>x. if x \<in> set ds then n x else vw_domains ?v x)\<rparr>)"
      by (rule Cons.IH) (use Cons.prems in auto)
    then show ?thesis unfolding e using Cons.prems(2) [of d] False by simp
  qed
qed simp

lemma distinct_domain_ids: "distinct domain_ids"
  by (simp add: domain_ids_def upt_rec)

lemma domain_calls_map:
  "calls (concat (map (\<lambda>(d, p, n). [Metric (m d p n), Call (OnDomainShardBitsChange d p n)]) (domainShardBitsChanges a b))) =
     map (\<lambda>d. OnDomainShardBitsChange d (map_get 0 a d) (map_get 0 b d)) (filter (\<lambda>d. map_get 0 a d \<noteq> map_get 0 b d) domain_ids)"
proof -
  have "calls (concat (map (\<lambda>d. [Metric (f d), Call (c d)]) ds)) = map c ds" for f :: "byte \<Rightarrow> applier_metric" and c :: "byte \<Rightarrow> 'a hook_call" and ds
    by (induction ds) simp_all
  then show ?thesis by (simp add: domainShardBitsChanges_def comp_def)
qed

lemma sort_eq_Nil: "sort xs = [] \<longleftrightarrow> xs = []"
  by (metis length_0_conv length_sort)

lemma fire_heard: "hears (watched hk (view_of prev)) (calls (fireHooks hk prev next)) (watched hk (view_of next))"
proof -
  let ?p = "watched hk (view_of prev)" and ?n = "watched hk (view_of next)"
  let ?v1 = "?p\<lparr>vw_bits := vw_bits ?n\<rparr>"
  let ?v2 = "?v1\<lparr>vw_ssm := vw_ssm ?n\<rparr>"
  let ?v3 = "?v2\<lparr>vw_pilots := vw_pilots ?n\<rparr>"
  let ?v4 = "?v3\<lparr>vw_sources := vw_sources ?n\<rparr>"
  let ?v5 = "?v4\<lparr>vw_successor := vw_successor ?n\<rparr>"
  have e: "?n = ?v5\<lparr>vw_domains := vw_domains ?n\<rparr>" by simp
  have d: "hears ?v5 (calls (if hk_OnDomainShardBitsChange hk
      then concat (map (\<lambda>(d, p, n). [Metric (ManifestAdoption ''domain_shard_bits'' (reasonForChange (p \<noteq> 0))), Call (OnDomainShardBitsChange d p n)])
             (domainShardBitsChanges (av_Domains prev) (av_Domains next))) else [])) ?n"
  proof (cases "hk_OnDomainShardBitsChange hk")
    case True
    have "hears ?v5 (map (\<lambda>d. OnDomainShardBitsChange d (map_get 0 (av_Domains prev) d) (map_get 0 (av_Domains next) d))
        (filter (\<lambda>d. map_get 0 (av_Domains prev) d \<noteq> map_get 0 (av_Domains next) d) domain_ids))
      (?v5\<lparr>vw_domains := (\<lambda>d. if d \<in> set domain_ids then map_get 0 (av_Domains next) d else vw_domains ?v5 d)\<rparr>)"
      by (rule domain_calls) (simp_all add: distinct_domain_ids watched_def view_of_def True)
    moreover have "(\<lambda>d. if d \<in> set domain_ids then map_get 0 (av_Domains next) d else vw_domains ?v5 d) = vw_domains ?n"
      by (auto simp: watched_def view_of_def True)
    ultimately show ?thesis using True by (simp only: domain_calls_map if_True e [symmetric])
  next
    case False
    then show ?thesis by (simp add: watched_def)
  qed
  show ?thesis unfolding fireHooks_def calls_append
    by (rule hears_append [where mid = ?v1, OF _ hears_append [where mid = ?v2, OF _ hears_append [where mid = ?v3,
          OF _ hears_append [where mid = ?v4, OF _ hears_append [where mid = ?v5, OF _ d]]]]])
       (auto simp: watched_def view_of_def diffUint16_def diffAddrs_def sort_eq_Nil filter_empty_conv)
qed

lemma run_heard:
  "run (tick evaluate epoch hk) ticks (prev, r) = (outs, final, r') \<Longrightarrow>
     hears (watched hk (view_of prev)) (calls (concat outs)) (watched hk (view_of final))"
proof (induction ticks arbitrary: prev r outs)
  case (Cons i ticks)
  obtain nxt r1 where n: "evaluate (fst i) r = (nxt, r1)" by force
  have t: "tick evaluate epoch hk i (prev, r) = (map Metric (publishMetrics epoch (snd i) nxt) @ fireHooks hk prev nxt, nxt, r1)"
    by (simp add: tick_def n)
  obtain os where o: "run (tick evaluate epoch hk) ticks (nxt, r1) = (os, final, r')"
      "outs = (map Metric (publishMetrics epoch (snd i) nxt) @ fireHooks hk prev nxt) # os"
    using Cons.prems by (auto simp: t split: prod.splits)
  show ?case using hears_append [OF fire_heard Cons.IH [OF o(1)]] o(2) by simp
qed simp

text \<open>
  C13. The applier's notifications add up to the view the evaluator adopted. Over any run of ticks, a
  consumer that starts with nothing and only applies the calls of the hooks that are set ends with
  what the last tick adopted, in every field such a hook reports. No call is redundant or wrong:
  each names the value the consumer had and a different new one, each pilot group or source
  reported as added was absent and each reported as removed was present.
\<close>

theorem hooks_track_adopted:
  assumes "run (tick evaluate epoch hk) ticks (no_view, r) = (outs, final, r')"
  shows "hears (view_of no_view) (calls (concat outs)) (watched hk (view_of final)) \<and>
    fold replay (calls (concat outs)) (view_of no_view) = watched hk (view_of final)"
proof -
  have "hears (view_of no_view) (calls (concat outs)) (watched hk (view_of final))"
    using run_heard [OF assms] by simp
  then show ?thesis using hears_replay by blast
qed

section \<open>What the workers have joined\<close>

lemma AddGroup_running:
  assumes "0 \<le> wk_joinFd W" and "wk_joinedGroups W = Some gs" and "join g [] = None"
  shows "\<exists>e W'. AddGroup join g [] W = Some (e, W') \<and> wk_joinFd W' = wk_joinFd W \<and> wk_id W' = wk_id W \<and>
    map_option set (wk_joinedGroups W') = Some (insert g (set gs))"
  using assms by (auto simp: AddGroup_def)

lemma RemoveGroup_running:
  assumes "0 \<le> wk_joinFd W" and "wk_joinedGroups W = Some gs" and "leave g [] = None"
  shows "wk_joinFd (snd (RemoveGroup leave g [] W)) = wk_joinFd W" "wk_id (snd (RemoveGroup leave g [] W)) = wk_id W"
    "map_option set (wk_joinedGroups (snd (RemoveGroup leave g [] W))) = Some (set gs - {g})"
  using assms by (auto simp: RemoveGroup_def)

text \<open>The workers run and have joined what \<open>J\<close> says of each.\<close>

definition joined_as :: "(int \<Rightarrow> ip set) \<Rightarrow> 'w Worker list \<Rightarrow> bool" where
  "joined_as J ws \<longleftrightarrow> list_all (\<lambda>w. 0 \<le> wk_joinFd w \<and> map_option set (wk_joinedGroups w) = Some (J (wk_id w))) ws"

lemma add_workers_joined:
  assumes "joined_as J ws" and "\<And>i. join i g [] = None"
  shows "\<exists>ws'. add_workers join g ws = Some ws' \<and> joined_as (\<lambda>i. insert g (J i)) ws' \<and> map wk_id ws' = map wk_id ws"
  using assms(1)
proof (induction ws)
  case (Cons w ws)
  then obtain gs where w: "0 \<le> wk_joinFd w" "wk_joinedGroups w = Some gs" "set gs = J (wk_id w)"
    by (auto simp: joined_as_def)
  obtain e w' where w': "AddGroup (join (wk_id w)) g [] w = Some (e, w')" "wk_joinFd w' = wk_joinFd w" "wk_id w' = wk_id w"
      "map_option set (wk_joinedGroups w') = Some (insert g (set gs))"
    using AddGroup_running [of w gs "join (wk_id w)" g] w assms(2) by auto
  then show ?case using Cons w by (auto simp: joined_as_def)
qed (simp add: joined_as_def)

lemma remove_workers_joined:
  assumes "joined_as J ws" and "\<And>i. leave i g [] = None"
  shows "joined_as (\<lambda>i. J i - {g}) (map (\<lambda>w. snd (RemoveGroup (leave (wk_id w)) g [] w)) ws) \<and>
    map wk_id (map (\<lambda>w. snd (RemoveGroup (leave (wk_id w)) g [] w)) ws) = map wk_id ws"
  using assms(1)
proof (induction ws)
  case (Cons w ws)
  then obtain gs where w: "0 \<le> wk_joinFd w" "wk_joinedGroups w = Some gs" "set gs = J (wk_id w)"
    by (auto simp: joined_as_def)
  show ?case using Cons RemoveGroup_running [OF w(1,2), of "leave (wk_id w)" g] w(3) assms(2) by (auto simp: joined_as_def)
qed (simp add: joined_as_def)

text \<open>
  A deployment in which joins and leaves succeed and the engine gives each index an address of its
  own.
\<close>

definition joinable :: "(u32 \<Rightarrow> byte list) \<Rightarrow> (u16 \<Rightarrow> ip) \<Rightarrow> (int \<Rightarrow> ip \<Rightarrow> ip list \<Rightarrow> string option) \<Rightarrow> (int \<Rightarrow> ip \<Rightarrow> ip list \<Rightarrow> string option) \<Rightarrow> bool" where
  "joinable addr g join leave \<longleftrightarrow> inj g \<and> (\<forall>idx. group_of addr idx = Some (g idx)) \<and> (\<forall>i a. join i a [] = None \<and> leave i a [] = None)"

lemma adds_joined:
  assumes "joinable addr g join leave" and "joined_as J ws"
  shows "\<exists>ws'. each (pilot_add addr join) added ws = Some ws' \<and> joined_as (\<lambda>i. J i \<union> g ` set added) ws' \<and> map wk_id ws' = map wk_id ws"
  using assms(2)
proof (induction added arbitrary: ws J)
  case (Cons a added)
  obtain ws1 where 1: "pilot_add addr join a ws = Some ws1" "joined_as (\<lambda>i. insert (g a) (J i)) ws1" "map wk_id ws1 = map wk_id ws"
    using add_workers_joined [OF Cons.prems, of join "g a"] assms(1) by (auto simp: pilot_add_def joinable_def)
  show ?case using Cons.IH [OF 1(2)] 1(1,3) by simp
qed simp

lemma removes_joined:
  assumes "joinable addr g join leave" and "joined_as J ws"
  shows "\<exists>ws'. each (pilot_remove addr leave static) removed ws = Some ws' \<and>
    joined_as (\<lambda>i. J i - g ` {x \<in> set removed. \<not> inStaticInclude static x}) ws' \<and> map wk_id ws' = map wk_id ws"
  using assms(2)
proof (induction removed arbitrary: ws J)
  case (Cons a removed)
  let ?J = "\<lambda>i. J i - (if inStaticInclude static a then {} else {g a})"
  obtain ws1 where 1: "pilot_remove addr leave static a ws = Some ws1" "joined_as ?J ws1" "map wk_id ws1 = map wk_id ws"
    using remove_workers_joined [OF Cons.prems, of leave "g a"] Cons.prems assms(1) by (auto simp: pilot_remove_def joinable_def)
  have e: "?J i - g ` {x \<in> set removed. \<not> inStaticInclude static x} = J i - g ` {x \<in> set (a # removed). \<not> inStaticInclude static x}" for i
    by auto
  show ?case using Cons.IH [OF 1(2)] 1(1,3) unfolding e by simp
qed simp

lemma hook_joined:
  assumes "joinable addr g join leave" and "joined_as J ws" and "cf_AutoJoinFromManifest cfg"
  shows "\<exists>ws'. pilot_hook cfg addr join leave added removed ws = Some ws' \<and>
    joined_as (\<lambda>i. J i \<union> g ` set added - g ` {x \<in> set removed. \<not> inStaticInclude (cf_ShardInclude cfg) x}) ws' \<and> map wk_id ws' = map wk_id ws"
proof -
  obtain ws1 where 1: "each (pilot_add addr join) added ws = Some ws1" "joined_as (\<lambda>i. J i \<union> g ` set added) ws1" "map wk_id ws1 = map wk_id ws"
    using adds_joined [OF assms(1,2)] by blast
  show ?thesis using removes_joined [OF assms(1) 1(2)] 1(1,3) assms(3) by (simp add: pilot_hook_def)
qed

fun names_within :: "u16 set \<Rightarrow> 's hook_call \<Rightarrow> bool" where
  "names_within N (OnPilotGroupsChange a r) \<longleftrightarrow> set a \<subseteq> N"
| "names_within N _ \<longleftrightarrow> True"

lemma fire_within:
  "set (av_PilotGroups next) \<subseteq> N \<Longrightarrow> list_all (names_within N) (calls (fireHooks hk prev next))"
  unfolding fireHooks_def calls_append list_all_append
  by (intro conjI) (auto simp: diffUint16_def diffAddrs_def domain_calls_map list_all_iff)

lemma run_within:
  assumes "\<And>i r. set (av_PilotGroups (fst (evaluate i r))) \<subseteq> N"
  shows "list_all (names_within N) (calls (concat (fst (run (tick evaluate epoch hk) ticks (prev, r)))))"
proof (induction ticks arbitrary: prev r)
  case (Cons i ticks)
  obtain nxt r1 where n: "evaluate (fst i) r = (nxt, r1)" by force
  show ?case using Cons.IH [of nxt r1] fire_within [of nxt N hk prev] assms [of "fst i" r] n
    by (simp add: tick_def split_beta)
qed simp

lemma applied_joined:
  assumes j: "joinable addr g join leave" and auto: "cf_AutoJoinFromManifest cfg"
    and N: "\<And>i idx. idx \<in> N \<Longrightarrow> g idx \<in> B i \<longleftrightarrow> inStaticInclude (cf_ShardInclude cfg) idx"
  shows "hears v (calls xs) v' \<Longrightarrow> list_all (names_within N) (calls xs) \<Longrightarrow> vw_pilots v \<subseteq> N \<Longrightarrow>
    joined_as (\<lambda>i. B i \<union> g ` vw_pilots v) ws \<Longrightarrow>
    \<exists>ws'. each (on_applied cfg addr join leave) xs ws = Some ws' \<and> joined_as (\<lambda>i. B i \<union> g ` vw_pilots v') ws'"
proof (induction xs arbitrary: v ws)
  case (Cons x xs)
  show ?case
  proof (cases "\<exists>a r. x = Call (OnPilotGroupsChange a r)")
    case True
    then obtain a r where x: "x = Call (OnPilotGroupsChange a r)" by blast
    have c: "set r \<subseteq> vw_pilots v" "set a \<inter> vw_pilots v = {}" "set a \<subseteq> N" using Cons.prems(1,2) x by auto
    have e: "B i \<union> g ` vw_pilots v \<union> g ` set a - g ` {y \<in> set r. \<not> inStaticInclude (cf_ShardInclude cfg) y} =
        B i \<union> g ` (vw_pilots v - set r \<union> set a)" for i
    proof -
      have inj: "\<And>x y. g x = g y \<longleftrightarrow> x = y" using j by (auto simp: joinable_def inj_def)
      have k: "\<And>y. y \<in> set r \<Longrightarrow> g y \<in> B i \<longleftrightarrow> inStaticInclude (cf_ShardInclude cfg) y" using N c(1) Cons.prems(3) by blast
      show ?thesis using c(1,2) k inj by (auto simp: image_iff)
    qed
    obtain ws1 where 1: "pilot_hook cfg addr join leave a r ws = Some ws1" "joined_as (\<lambda>i. B i \<union> g ` (vw_pilots v - set r \<union> set a)) ws1"
      using hook_joined [OF j Cons.prems(4) auto, of a r] unfolding e by blast
    show ?thesis using Cons.IH [of "replay (OnPilotGroupsChange a r) v" ws1] Cons.prems x 1 c by auto
  next
    case False
    then have o: "on_applied cfg addr join leave x ws = Some ws"
      by (cases "(cfg, addr, join, leave, x, ws)" rule: on_applied.cases) auto
    show ?thesis
    proof (cases x)
      case (Metric m)
      then show ?thesis using Cons o by simp
    next
      case (Call c)
      then have "vw_pilots (replay c v) = vw_pilots v" using False by (cases c) auto
      then show ?thesis using Cons.IH [of "replay c v" ws] Cons.prems Call o by simp
    qed
  qed
qed simp


text \<open>The groups joined at start.\<close>

lemma join_all_joined:
  "join_all join gs W = (None, W') \<Longrightarrow> wk_joinedGroups W = Some js \<Longrightarrow>
     wk_joinFd W' = wk_joinFd W \<and> (\<exists>js'. wk_joinedGroups W' = Some js' \<and> set js \<subseteq> set js' \<and>
       (\<forall>x\<in>set gs. \<forall>a. To16 x = Some a \<longrightarrow> word_of_bytes a \<in> set js'))"
proof (induction gs arbitrary: W js)
  case (Cons x gs)
  then obtain a where a: "To16 x = Some a" by (cases "To16 x") auto
  let ?js = "if word_of_bytes a \<in> set js then js else js @ [word_of_bytes a]"
  have "join_all join gs (W\<lparr>wk_joinedGroups := Some ?js\<rparr>) = (None, W')"
    using Cons.prems a by (auto simp: Let_def split: option.splits)
  from Cons.IH [OF this, of ?js] show ?case using a by (auto split: if_splits)
qed simp

text \<open>
  C19. With no static shard list the workers join every group at start, and no group is then treated
  as static: when the pilots name one of these groups and later stop naming it, the hook leaves it,
  although it was joined before any pilot named it.
\<close>

theorem withdrawn_pilot_group_left:
  assumes "joinable addr g join leave" and "cf_AutoJoinFromManifest cfg" and "cf_ShardInclude cfg = []"
    and "wk_groups W0 = buildGroups addr group_ip cfg beefJoinIdx" and "Run_begin (Inr fd) startJoin W0 = (None, W)" and "0 \<le> fd"
    and "unat idx < unat (cf_NumGroups cfg)"
  shows "(\<exists>gs. wk_joinedGroups W = Some gs \<and> g idx \<in> set gs) \<and>
    (\<exists>ws W2 gs. pilot_hook cfg addr join leave [idx] [] [W] = Some ws \<and> pilot_hook cfg addr join leave [] [idx] ws = Some [W2] \<and>
       wk_joinedGroups W2 = Some gs \<and> g idx \<notin> set gs)"
proof -
  have a: "addr (ucast idx) \<in> set (wk_groups W0)" "group_of addr idx = Some (g idx)"
  proof -
    have "addr (ucast idx) \<in> (\<lambda>x. addr (word_of_nat x)) ` {0..<unat (cf_NumGroups cfg)}"
      by (rule image_eqI [where x = "unat idx"]) (use assms(7) in simp_all)
    then show "addr (ucast idx) \<in> set (wk_groups W0)" using assms(3,4) by (auto simp: buildGroups_def)
    show "group_of addr idx = Some (g idx)" using assms(1) by (simp add: joinable_def)
  qed
  have "join_all startJoin (wk_groups W0) (W0\<lparr>wk_joinFd := fd, wk_joinedGroups := Some []\<rparr>) = (None, W)"
    using assms(5) by (auto simp: Run_begin_def split: prod.splits if_splits)
  from join_all_joined [OF this] obtain gs where gs: "wk_joinFd W = fd" "wk_joinedGroups W = Some gs" "g idx \<in> set gs"
    using a by (auto simp: group_of_def)
  have J: "joined_as (\<lambda>_. set gs) [W]" using gs(1,2) assms(6) by (simp add: joined_as_def)
  obtain ws where 1: "pilot_hook cfg addr join leave [idx] [] [W] = Some ws" "joined_as (\<lambda>_. set gs \<union> {g idx}) ws" "length ws = 1"
    using hook_joined [OF assms(1) J assms(2), of "[idx]" "[]"] by (auto dest: map_eq_imp_length_eq)
  obtain ws2 where 2: "pilot_hook cfg addr join leave [] [idx] ws = Some ws2" "joined_as (\<lambda>_. set gs \<union> {g idx} - {g idx}) ws2" "length ws2 = 1"
    using hook_joined [OF assms(1) 1(2) assms(2), of "[]" "[idx]"] assms(3) 1(3) by (auto simp: inStaticInclude_def dest: map_eq_imp_length_eq)
  then obtain W2 where "ws2 = [W2]" by (auto simp: length_Suc_conv)
  then show ?thesis using gs(2,3) 1(1) 2 by (auto simp: joined_as_def)
qed

section \<open>A run\<close>

definition demo_addr :: "u32 \<Rightarrow> byte list" where
  "demo_addr idx = id16_bytes (ucast idx)"

definition join_cfg :: "u32 list \<Rightarrow> Config" where
  "join_cfg include = \<lparr>cf_ShardInclude = include, cf_NumGroups = 8, cf_MCPrefix = 0xFF05, cf_MCGroupID = 0xB,
     cf_SubtreeDataEnabled = False, cf_AutoJoinFromManifest = True\<rparr>"

text \<open>An evaluator that adopts the pilot groups it is told, of two possible sets.\<close>

definition demo_evaluate :: "bool \<Rightarrow> unit \<Rightarrow> unit Adopted \<times> unit" where
  "demo_evaluate pilots r = (no_view\<lparr>av_ShardBits := 3, av_PilotGroups := if pilots then [3, 5] else []\<rparr>, ())"

lemma demo_joinable: "joinable demo_addr ucast (\<lambda>_ _ _. None) (\<lambda>_ _ _. None)"
proof -
  have d: "(ucast (ucast x :: ip) :: u16) = x" for x by (rule bit_word_eqI) (simp add: bit_simps)
  have u: "(ucast (ucast (x :: u16) :: u32) :: ip) = ucast x" for x by (rule bit_word_eqI) (auto simp: bit_simps dest: bit_imp_le_length)
  show ?thesis using d by (auto simp: joinable_def group_of_def demo_addr_def To16_def wire_simps u intro: inj_on_inverseI)
qed

definition demo_joined :: "sent_log Worker" where
  "demo_joined = demo_worker\<lparr>wk_joinFd := 3, wk_joinedGroups := Some [5]\<rparr>"

lemma demo_run:
  "run (tick demo_evaluate (\<lambda>_. 0) main_hooks) [(True, 0), (False, 1), (True, 2)] (no_view, ()) =
     (fst (run (tick demo_evaluate (\<lambda>_. 0) main_hooks) [(True, 0), (False, 1), (True, 2)] (no_view, ())), fst (demo_evaluate True ()), ())"
  by (simp add: tick_def demo_evaluate_def split_beta)

theorem hooks_track_adopted_witness:
  "fold replay (calls (concat (fst (run (tick demo_evaluate (\<lambda>_. 0) main_hooks) [(True, 0), (False, 1), (True, 2)] (no_view, ()))))) (view_of no_view) =
     watched main_hooks (view_of (fst (demo_evaluate True ())))"
  using hooks_track_adopted [OF demo_run] by simp


text \<open>With eight groups and no static list, group 3 is joined at start and left by the hook.\<close>

definition demo_started :: "sent_log Worker" where
  "demo_started = snd (Run_begin (Inr 3) (\<lambda>_ _. None) (demo_worker\<lparr>wk_groups := buildGroups demo_addr (\<lambda>_ _ idx. demo_addr idx) (join_cfg []) []\<rparr>))"

lemma demo_started_run:
  "Run_begin (Inr 3) (\<lambda>_ _. None) (demo_worker\<lparr>wk_groups := buildGroups demo_addr (\<lambda>_ _ idx. demo_addr idx) (join_cfg []) []\<rparr>) = (None, demo_started)"
proof -
  have "fst (join_all (\<lambda>_ _. None) gs W) = None" if "list_all (\<lambda>x. length x = 16) gs" for gs and W :: "sent_log Worker"
    using that by (induction gs arbitrary: W) (simp_all add: To16_def Let_def)
  moreover have "list_all (\<lambda>x. length x = 16) (buildGroups demo_addr (\<lambda>_ _ idx. demo_addr idx) (join_cfg []) [])"
    by (auto simp: buildGroups_def join_cfg_def demo_addr_def list_all_iff)
  ultimately show ?thesis by (simp add: demo_started_def Run_begin_def split_beta)
qed

theorem withdrawn_pilot_group_left_witness:
  "\<exists>ws W2 gs. pilot_hook (join_cfg []) demo_addr (\<lambda>_ _ _. None) (\<lambda>_ _ _. None) [3] [] [demo_started] = Some ws \<and>
     pilot_hook (join_cfg []) demo_addr (\<lambda>_ _ _. None) (\<lambda>_ _ _. None) [] [3] ws = Some [W2] \<and>
     wk_joinedGroups W2 = Some gs \<and> 3 \<notin> set gs"
  using withdrawn_pilot_group_left [OF demo_joinable _ _ _ demo_started_run, of "join_cfg []" "\<lambda>_ _ idx. demo_addr idx" "[]" 3]
  by (simp add: join_cfg_def)

end
