(* ===== verification/Control_Groups.thy ===== *)
theory Control_Groups
  imports Auto_Config
begin

text \<open>
  Which multicast groups the control plane listens on and with which source rosters: the prefix
  derivation of \<^verbatim>\<open>config/controlgroup.go\<close>, the group and roster construction of \<^verbatim>\<open>main.go\<close> and the
  sockets of \<^verbatim>\<open>discovery/beacon.go\<close>. The scope parser, the source-specific prefix and the group
  address of shard-common and the bootstrap resolver are parameters.
\<close>

section \<open>Prefixes of the control groups\<close>

definition Scopes :: "(string \<times> u16) list" where
  "Scopes = [(''link'', 0xFF02), (''site'', 0xFF05), (''org'', 0xFF08), (''global'', 0xFF0E)]"

definition ControlGroupASMOnly :: string where "ControlGroupASMOnly = ''asm-only''"
definition ControlGroupBoth :: string where "ControlGroupBoth = ''both''"
definition ControlGroupDerived :: string where "ControlGroupDerived = ''derived''"

text \<open>
  \<^verbatim>\<open>strings.EqualFold(mode, "ssm")\<close> on the bytes of the string: under simple folding the letter s also
  stands for U+017F, whose encoding has two bytes.
\<close>

fun fold_s :: "string \<Rightarrow> string option" where
  "fold_s (CHR 0xC5 # CHR 0xBF # cs) = Some cs"
| "fold_s (c # cs) = (if c = CHR ''s'' \<or> c = CHR ''S'' then Some cs else None)"
| "fold_s [] = None"

definition is_ssm :: "string \<Rightarrow> bool" where
  "is_ssm mode = (case fold_s mode \<bind> fold_s of None \<Rightarrow> False | Some r \<Rightarrow> r = ''m'' \<or> r = ''M'')"

definition ControlGroupPrefixes :: "(string \<Rightarrow> string + 'sc) \<Rightarrow> ('sc \<Rightarrow> string + u16) \<Rightarrow> string \<Rightarrow> string \<Rightarrow> string \<Rightarrow> string + u16 list" where
  "ControlGroupPrefixes parse_scope ssm_prefix setting sourceMode scopeName =
     (case map_of Scopes scopeName of
        None \<Rightarrow> Inl ''unknown scope''
      | Some asm \<Rightarrow>
          if setting = ControlGroupASMOnly then Inr [asm]
          else if setting \<noteq> ControlGroupBoth \<and> setting \<noteq> ControlGroupDerived then Inl ''invalid -control-group-compat''
          else let finish = (\<lambda>derived. Inr (if setting = ControlGroupDerived \<or> derived = asm then [derived] else [asm, derived]))
               in if is_ssm sourceMode
                  then case parse_scope scopeName of
                         Inl e \<Rightarrow> if setting = ControlGroupDerived then Inl ''no SSM control group at this scope'' else finish asm
                       | Inr sc \<Rightarrow> (case ssm_prefix sc of Inl e \<Rightarrow> Inl e | Inr p \<Rightarrow> finish p)
                  else finish asm)"

text \<open>
  C17. The receiver default spans the change of prefixes. Where the scope is known and every scope
  shard-common parses has a source-specific prefix, \<^verbatim>\<open>both\<close> never fails and yields the legacy prefix
  first, without repetition; it contains every prefix a sender with any of the three settings uses
  under the same source mode and scope, so no sender is missed. Without source-specific multicast
  the three settings agree. A receiver left on \<^verbatim>\<open>asm-only\<close> hears a \<^verbatim>\<open>derived\<close> sender only if the two
  prefixes coincide.
\<close>

theorem control_groups_span_rollout:
  assumes "map_of Scopes scope = Some asm"
    and "\<And>sc. parse_scope scope = Inr sc \<Longrightarrow> \<exists>p. ssm_prefix sc = Inr p"
  shows "\<exists>both. ControlGroupPrefixes parse_scope ssm_prefix ControlGroupBoth mode scope = Inr both \<and>
    hd both = asm \<and> distinct both \<and> length both \<in> {1, 2} \<and>
    (\<forall>setting sent. ControlGroupPrefixes parse_scope ssm_prefix setting mode scope = Inr sent \<longrightarrow> sent \<noteq> [] \<and> set sent \<subseteq> set both) \<and>
    (\<not> is_ssm mode \<longrightarrow> both = [asm] \<and> ControlGroupPrefixes parse_scope ssm_prefix ControlGroupDerived mode scope = Inr [asm]) \<and>
    (\<forall>sent. ControlGroupPrefixes parse_scope ssm_prefix ControlGroupDerived mode scope = Inr sent \<longrightarrow>
       set sent \<inter> {asm} \<noteq> {} \<longrightarrow> sent = [asm])"
proof -
  define derived where "derived = (if is_ssm mode then case parse_scope scope of Inl e \<Rightarrow> asm | Inr sc \<Rightarrow> (case ssm_prefix sc of Inl e \<Rightarrow> asm | Inr p \<Rightarrow> p) else asm)"
  have b: "ControlGroupPrefixes parse_scope ssm_prefix ControlGroupBoth mode scope = Inr (if derived = asm then [asm] else [asm, derived])"
    using assms by (fastforce simp: ControlGroupPrefixes_def derived_def ControlGroupASMOnly_def ControlGroupBoth_def ControlGroupDerived_def
        Let_def split: sum.splits)
  have s: "set sent \<subseteq> {asm, derived} \<and> sent \<noteq> []" if "ControlGroupPrefixes parse_scope ssm_prefix setting mode scope = Inr sent" for setting sent
    using that assms by (auto simp: ControlGroupPrefixes_def derived_def Let_def split: sum.splits if_splits)
  have d: "sent = [derived]" if "ControlGroupPrefixes parse_scope ssm_prefix ControlGroupDerived mode scope = Inr sent" for sent
    using that assms by (auto simp: ControlGroupPrefixes_def derived_def ControlGroupASMOnly_def ControlGroupBoth_def ControlGroupDerived_def
        Let_def split: sum.splits if_splits)
  have n: "derived = asm \<and> ControlGroupPrefixes parse_scope ssm_prefix ControlGroupDerived mode scope = Inr [asm]" if "\<not> is_ssm mode"
    using that assms by (simp add: ControlGroupPrefixes_def derived_def ControlGroupASMOnly_def ControlGroupBoth_def ControlGroupDerived_def)
  show ?thesis
    by (rule exI [where x = "if derived = asm then [asm] else [asm, derived]"]) (use b s d n in auto)
qed

text \<open>The parser and prefixes shard-common documents: site and global only.\<close>

definition demo_parse :: "string \<Rightarrow> string + u16" where
  "demo_parse s = (if s = ''site'' then Inr 5 else if s = ''global'' then Inr 14 else Inl ''scope'')"

definition demo_ssm :: "u16 \<Rightarrow> string + u16" where
  "demo_ssm sc = Inr (0xFF30 + sc)"

theorem control_groups_span_rollout_witness:
  "ControlGroupPrefixes demo_parse demo_ssm ControlGroupBoth ''SSM'' ''site'' = Inr [0xFF05, 0xFF35] \<and>
   ControlGroupPrefixes demo_parse demo_ssm ControlGroupDerived ''SSM'' ''site'' = Inr [0xFF35] \<and>
   (\<exists>both. ControlGroupPrefixes demo_parse demo_ssm ControlGroupBoth ''SSM'' ''org'' = Inr both \<and> hd both = 0xFF08)"
proof (intro conjI)
  show "ControlGroupPrefixes demo_parse demo_ssm ControlGroupBoth ''SSM'' ''site'' = Inr [0xFF05, 0xFF35]"
    "ControlGroupPrefixes demo_parse demo_ssm ControlGroupDerived ''SSM'' ''site'' = Inr [0xFF35]"
    by (simp_all add: ControlGroupPrefixes_def Scopes_def ControlGroupASMOnly_def ControlGroupBoth_def ControlGroupDerived_def
        is_ssm_def demo_parse_def demo_ssm_def)
  show "\<exists>both. ControlGroupPrefixes demo_parse demo_ssm ControlGroupBoth ''SSM'' ''org'' = Inr both \<and> hd both = 0xFF08"
    using control_groups_span_rollout [of "''org''" "0xFF08" demo_parse demo_ssm "''SSM''"]
    by (auto simp: Scopes_def demo_parse_def demo_ssm_def)
qed

section \<open>Beacon sockets\<close>

record UDPAddr =
  ua_IP :: "byte list"
  ua_Port :: int

record BeaconConfig =
  bc_BeaconPort :: int
  bc_AutoConfigEnabled :: bool
  bc_AutoConfigBeaconPort :: int

definition beaconGroups :: "BeaconConfig \<Rightarrow> byte list list \<Rightarrow> UDPAddr list" where
  "beaconGroups cfg beaconIPs =
     (let ports = [bc_BeaconPort cfg] @ (if bc_AutoConfigEnabled cfg \<and> bc_AutoConfigBeaconPort cfg \<noteq> bc_BeaconPort cfg then [bc_AutoConfigBeaconPort cfg] else [])
      in concat (map (\<lambda>port. map (\<lambda>ip. \<lparr>ua_IP = ip, ua_Port = port\<rparr>) beaconIPs) ports))"

text \<open>The loop over the groups: bucket index per port, and the buckets; indexing out of range is a panic.\<close>

fun bucket_loop :: "UDPAddr list \<Rightarrow> (int \<times> nat) list \<Rightarrow> UDPAddr list list \<Rightarrow> UDPAddr list list option" where
  "bucket_loop [] idx buckets = Some buckets"
| "bucket_loop (grp # grps) idx buckets =
     (let (i, idx, buckets) = (case map_of idx (ua_Port grp) of
            Some i \<Rightarrow> (i, idx, buckets)
          | None \<Rightarrow> (length buckets, map_put (ua_Port grp) (length buckets) idx, buckets @ [[]]))
      in if i < length buckets then bucket_loop grps idx (buckets[i := buckets ! i @ [grp]]) else None)"

definition bucketByPort :: "UDPAddr list \<Rightarrow> UDPAddr list list option" where
  "bucketByPort groups = bucket_loop groups [] []"

record BeaconListener =
  bl_Groups :: "UDPAddr list"
  bl_Sources :: "ip list"
  bl_SourcesByPort :: "(int \<times> ip list) list"

definition sourcesFor :: "BeaconListener \<Rightarrow> UDPAddr \<Rightarrow> ip list" where
  "sourcesFor bl grp = (case map_of (bl_SourcesByPort bl) (ua_Port grp) of Some srcs \<Rightarrow> srcs | None \<Rightarrow> bl_Sources bl)"

text \<open>What the system calls answer when a socket is opened.\<close>

record open_env =
  oe_multicast :: "string option"
  oe_packet :: "string option"
  oe_udp :: bool
  oe_syscall :: "string option"
  oe_control :: "string option"
  oe_join :: "ip \<Rightarrow> ip list \<Rightarrow> string option"

text \<open>A socket is the memberships it holds: address and source roster, which is empty for any source.\<close>

fun join_bucket :: "open_env \<Rightarrow> ip list \<Rightarrow> UDPAddr list \<Rightarrow> string + (ip \<times> ip list) list" where
  "join_bucket oe srcs [] = Inr []"
| "join_bucket oe srcs (grp # grps) =
     (case To16 (ua_IP grp) of
        None \<Rightarrow> Inl ''beacon listen: bad group address''
      | Some a \<Rightarrow>
          (case oe_control oe of Some e \<Rightarrow> Inl e
           | None \<Rightarrow>
               (case oe_join oe (word_of_bytes a) srcs of Some e \<Rightarrow> Inl e
                | None \<Rightarrow>
                    (case join_bucket oe srcs grps of Inl e \<Rightarrow> Inl e | Inr ms \<Rightarrow> Inr ((word_of_bytes a, srcs) # ms)))))"

definition openGroupConn :: "open_env \<Rightarrow> BeaconListener \<Rightarrow> UDPAddr list \<Rightarrow> string + (ip \<times> ip list) list" where
  "openGroupConn oe bl grps =
     (case grps of [] \<Rightarrow> Inl ''beacon listen: empty group bucket''
      | g # _ \<Rightarrow>
          let srcs = sourcesFor bl g
          in if length srcs = 0 \<and> length grps = 1
             then (case oe_multicast oe of Some e \<Rightarrow> Inl e
                   | None \<Rightarrow> (case To16 (ua_IP g) of None \<Rightarrow> Inl ''beacon listen: bad group address'' | Some a \<Rightarrow> Inr [(word_of_bytes a, [])]))
             else case oe_packet oe of Some e \<Rightarrow> Inl e
                  | None \<Rightarrow>
                      if \<not> oe_udp oe then Inl ''beacon listen: unexpected conn type''
                      else case oe_syscall oe of Some e \<Rightarrow> Inl e | None \<Rightarrow> join_bucket oe srcs grps)"

text \<open>The values of a list in the order of their first occurrence.\<close>

fun firsts :: "'a list \<Rightarrow> 'a list" where
  "firsts [] = []"
| "firsts (x # xs) = x # filter (\<lambda>y. y \<noteq> x) (firsts xs)"

lemma set_firsts [simp]: "set (firsts xs) = set xs"
  by (induction xs) auto

lemma distinct_firsts [simp]: "distinct (firsts xs)"
  by (induction xs) auto

lemma firsts_snoc: "firsts (xs @ [x]) = firsts xs @ (if x \<in> set xs then [] else [x])"
  by (induction xs) auto

text \<open>\<open>ps\<close> are the ports seen so far, in the order of their buckets.\<close>

definition bucketed :: "UDPAddr list \<Rightarrow> int list \<Rightarrow> UDPAddr list list" where
  "bucketed gs ps = map (\<lambda>p. filter (\<lambda>x. ua_Port x = p) gs) ps"

lemma bucketed_seen:
  assumes "distinct ps" and "i < length ps" and "ps ! i = ua_Port grp"
  shows "(bucketed done_grps ps)[i := bucketed done_grps ps ! i @ [grp]] = bucketed (done_grps @ [grp]) ps"
proof (rule nth_equalityI)
  fix j assume "j < length ((bucketed done_grps ps)[i := bucketed done_grps ps ! i @ [grp]])"
  then have j: "j < length ps" by (simp add: bucketed_def)
  show "(bucketed done_grps ps)[i := bucketed done_grps ps ! i @ [grp]] ! j = bucketed (done_grps @ [grp]) ps ! j"
    using j assms nth_eq_iff_index_eq [OF assms(1) assms(2) j] by (cases "j = i") (auto simp: bucketed_def)
qed (simp add: bucketed_def)

lemma bucketed_new:
  assumes "ua_Port grp \<notin> set ps" and "ua_Port grp \<notin> ua_Port ` set done_grps"
  shows "bucketed done_grps ps @ [[grp]] = bucketed (done_grps @ [grp]) (ps @ [ua_Port grp])"
proof -
  have "filter (\<lambda>x. ua_Port x = ua_Port grp) done_grps = []" using assms(2) unfolding filter_empty_conv by (metis imageI)
  then show ?thesis using assms(1) by (auto simp: bucketed_def)
qed

lemma bucket_loop_correct:
  assumes "\<And>p i. map_of idx p = Some i \<longleftrightarrow> i < length (firsts (map ua_Port done_grps)) \<and> firsts (map ua_Port done_grps) ! i = p"
  shows "bucket_loop grps idx (bucketed done_grps (firsts (map ua_Port done_grps))) =
    Some (bucketed (done_grps @ grps) (firsts (map ua_Port (done_grps @ grps))))"
  using assms
proof (induction grps arbitrary: idx done_grps)
  case (Cons grp grps)
  let ?ps = "firsts (map ua_Port done_grps)"
  have l: "length (bucketed done_grps ps) = length ps" for ps by (simp add: bucketed_def)
  show ?case
  proof (cases "map_of idx (ua_Port grp)")
    case (Some i)
    then have i: "i < length ?ps" "?ps ! i = ua_Port grp" using Cons.prems by auto
    then have "ua_Port grp \<in> set (map ua_Port done_grps)" using nth_mem [OF i(1)] by simp
    then have f: "firsts (map ua_Port (done_grps @ [grp])) = ?ps" by (auto simp: firsts_snoc)
    have "bucket_loop grps idx (bucketed (done_grps @ [grp]) ?ps) = Some (bucketed (done_grps @ grp # grps) (firsts (map ua_Port (done_grps @ grp # grps))))"
      using Cons.IH [of idx "done_grps @ [grp]"] Cons.prems unfolding f by simp
    then show ?thesis using Some i(1) bucketed_seen [OF distinct_firsts i] by (simp add: l)
  next
    case None
    then have n: "ua_Port grp \<notin> set ?ps" using Cons.prems by (metis in_set_conv_nth option.distinct(1))
    then have n2: "ua_Port grp \<notin> ua_Port ` set done_grps" by simp
    then have f: "firsts (map ua_Port (done_grps @ [grp])) = ?ps @ [ua_Port grp]" by (auto simp: firsts_snoc)
    have "map_of (map_put (ua_Port grp) (length ?ps) idx) p = Some i \<longleftrightarrow>
        i < length (firsts (map ua_Port (done_grps @ [grp]))) \<and> firsts (map ua_Port (done_grps @ [grp])) ! i = p" for p i
      using Cons.prems [of p i] n None unfolding f by (auto simp: nth_append less_Suc_eq)
    from Cons.IH [OF this] have "bucket_loop grps (map_put (ua_Port grp) (length ?ps) idx) (bucketed (done_grps @ [grp]) (?ps @ [ua_Port grp])) =
        Some (bucketed (done_grps @ grp # grps) (firsts (map ua_Port (done_grps @ grp # grps))))"
      unfolding f by simp
    then show ?thesis using None bucketed_new [OF n n2] by (simp add: l list_update_append nth_append)
  qed
qed simp

lemma bucketByPort_correct: "bucketByPort groups = Some (bucketed groups (firsts (map ua_Port groups)))"
  using bucket_loop_correct [of "[]" "[]" groups] by (simp add: bucketByPort_def bucketed_def)

lemma join_bucket_all:
  "join_bucket oe srcs grps = Inr ms \<Longrightarrow> map fst ms = map (\<lambda>x. word_of_bytes (the (To16 (ua_IP x)))) grps \<and> list_all (\<lambda>m. snd m = srcs) ms"
  by (induction grps arbitrary: ms) (auto split: option.splits sum.splits)

lemma mset_bucketed:
  assumes "distinct ps" and "ua_Port ` set gs \<subseteq> set ps"
  shows "mset (concat (bucketed gs ps)) = mset gs"
  using assms(2)
proof (induction gs)
  case (Cons x gs)
  have "mset (concat (bucketed (x # gs) qs)) = (if ua_Port x \<in> set qs then {#x#} else {#}) + mset (concat (bucketed gs qs))" if "distinct qs" for qs
    using that by (induction qs) (auto simp: bucketed_def)
  then show ?case using Cons assms(1) by simp
qed (simp add: bucketed_def)

lemma bucket_heads:
  "[] \<notin> set (bucketed gs (firsts (map ua_Port gs)))" "distinct (map (\<lambda>b. ua_Port (hd b)) (bucketed gs (firsts (map ua_Port gs))))"
proof -
  let ?ps = "firsts (map ua_Port gs)"
  have ne: "filter (\<lambda>x. ua_Port x = p) gs \<noteq> []" if "p \<in> set ?ps" for p using that by (force simp: filter_empty_conv)
  have hd: "ua_Port (hd (filter (\<lambda>x. ua_Port x = p) gs)) = p" if "p \<in> set ?ps" for p
    using hd_in_set [OF ne [OF that]] by simp
  show "[] \<notin> set (bucketed gs ?ps)"
  proof
    assume "[] \<in> set (bucketed gs ?ps)"
    then obtain p where "p \<in> set ?ps" "filter (\<lambda>x. ua_Port x = p) gs = []" unfolding bucketed_def set_map by force
    then show False using ne by blast
  qed
  have "map (\<lambda>b. ua_Port (hd b)) (bucketed gs ?ps) = map (\<lambda>p. p) ?ps"
    unfolding bucketed_def map_map comp_def by (rule map_cong) (simp_all only: hd)
  then show "distinct (map (\<lambda>b. ua_Port (hd b)) (bucketed gs ?ps))" by simp
qed

lemma opened_memberships:
  assumes "b \<in> set (bucketed gs ps)" and "openGroupConn oe bl b = Inr ms"
  shows "map fst ms = map (\<lambda>x. word_of_bytes (the (To16 (ua_IP x)))) b" "x \<in> set b \<Longrightarrow> m \<in> set ms \<Longrightarrow> snd m = sourcesFor bl x"
proof -
  obtain p where "b = filter (\<lambda>x. ua_Port x = p) gs" using assms(1) unfolding bucketed_def set_map by blast
  then have p: "\<And>x. x \<in> set b \<Longrightarrow> ua_Port x = p" by simp
  obtain g b' where b: "b = g # b'" using assms(2) by (cases b) (auto simp: openGroupConn_def)
  have s: "sourcesFor bl x = sourcesFor bl g" if "x \<in> set b" for x using p [OF that] p [of g] b by (simp add: sourcesFor_def)
  have "map fst ms = map (\<lambda>x. word_of_bytes (the (To16 (ua_IP x)))) b \<and> list_all (\<lambda>m. snd m = sourcesFor bl g) ms"
  proof (cases "sourcesFor bl g = [] \<and> b' = []")
    case True
    then show ?thesis using assms(2) b by (auto simp: openGroupConn_def split: option.splits)
  next
    case False
    then have "join_bucket oe (sourcesFor bl g) b = Inr ms" using assms(2) b by (auto simp: openGroupConn_def Let_def split: option.splits if_splits)
    then show ?thesis by (rule join_bucket_all)
  qed
  then show "map fst ms = map (\<lambda>x. word_of_bytes (the (To16 (ua_IP x)))) b" "x \<in> set b \<Longrightarrow> m \<in> set ms \<Longrightarrow> snd m = sourcesFor bl x"
    using s by (auto simp: list_all_iff)
qed

text \<open>
  C18. The beacon listener opens one socket per port and loses no group. Bucketing never panics and
  gives, in the order the ports first appear, the groups of each port in their configured order; no
  bucket is empty, no two share a port and each configured group is in exactly one. A socket that
  opens holds a membership for every address of its bucket, each with the source roster of that
  port.
\<close>

theorem one_socket_per_port:
  "\<exists>bs. bucketByPort (bl_Groups bl) = Some bs \<and>
     bs = map (\<lambda>p. filter (\<lambda>x. ua_Port x = p) (bl_Groups bl)) (firsts (map ua_Port (bl_Groups bl))) \<and>
     [] \<notin> set bs \<and> distinct (map (\<lambda>b. ua_Port (hd b)) bs) \<and> mset (concat bs) = mset (bl_Groups bl) \<and>
     (\<forall>b oe ms. b \<in> set bs \<longrightarrow> openGroupConn oe bl b = Inr ms \<longrightarrow>
        map fst ms = map (\<lambda>x. word_of_bytes (the (To16 (ua_IP x)))) b \<and> (\<forall>x m. x \<in> set b \<longrightarrow> m \<in> set ms \<longrightarrow> snd m = sourcesFor bl x))"
proof -
  let ?gs = "bl_Groups bl" and ?ps = "firsts (map ua_Port (bl_Groups bl))"
  show ?thesis
  proof (intro exI [of _ "bucketed ?gs ?ps"] conjI allI impI)
    show "bucketByPort ?gs = Some (bucketed ?gs ?ps)" by (rule bucketByPort_correct)
    show "bucketed ?gs ?ps = map (\<lambda>p. filter (\<lambda>x. ua_Port x = p) ?gs) ?ps" by (rule bucketed_def)
    show "[] \<notin> set (bucketed ?gs ?ps)" "distinct (map (\<lambda>b. ua_Port (hd b)) (bucketed ?gs ?ps))" by (rule bucket_heads)+
    show "mset (concat (bucketed ?gs ?ps)) = mset ?gs" by (rule mset_bucketed) simp_all
  next
    fix b oe ms assume "b \<in> set (bucketed ?gs ?ps)" "openGroupConn oe bl b = Inr ms"
    from opened_memberships(1) [OF this] show "map fst ms = map (\<lambda>x. word_of_bytes (the (To16 (ua_IP x)))) b" .
  next
    fix b oe ms x m assume "b \<in> set (bucketed ?gs ?ps)" "openGroupConn oe bl b = Inr ms" and m: "x \<in> set b" "m \<in> set ms"
    from opened_memberships(2) [OF this] show "snd m = sourcesFor bl x" .
  qed
qed

section \<open>Source rosters\<close>

record SSMConfig =
  ss_BootstrapBeacon :: "string list"
  ss_BootstrapManifest :: "string list"
  ss_BootstrapSubtreeAnn :: "string list"
  ss_PublishersStatic :: "string list"
  ss_MCPrefix :: u16
  ss_MCGroupID :: u16
  ss_NumGroups :: u32

definition groupBeacon :: u32 where "groupBeacon = 0xFFFD"
definition groupSubtreeGroupAnnounce :: u32 where "groupSubtreeGroupAnnounce = 0xFFFC"

text \<open>\<open>None\<close> is the invalid address, when no local source is configured.\<close>

definition excludeOwnSource :: "ip list \<Rightarrow> ip option \<Rightarrow> ip list" where
  "excludeOwnSource srcs own = (case own of None \<Rightarrow> srcs | Some a \<Rightarrow> filter (\<lambda>s. s \<noteq> a) srcs)"

definition resolve_roster :: "(string list \<Rightarrow> string + ip list) \<Rightarrow> ip option \<Rightarrow> string list \<Rightarrow> string + ip list" where
  "resolve_roster resolver own entries =
     (if length entries = 0 then Inr []
      else case resolver entries of Inl e \<Rightarrow> Inl e | Inr current \<Rightarrow> Inr (excludeOwnSource current own))"

definition put_roster :: "ip list \<Rightarrow> byte list \<Rightarrow> (ip \<times> ip list) list \<Rightarrow> (ip \<times> ip list) list" where
  "put_roster srcs a gs =
     (if length srcs = 0 then gs else case To16 a of None \<Rightarrow> gs | Some x \<Rightarrow> map_put (word_of_bytes x) srcs gs)"

text \<open>\<open>local\<close> is what parsing the local source gave, \<open>resolver\<close> what the resolver of an entry list has after its start.\<close>

definition buildSSMSources :: "(u16 \<Rightarrow> u16 \<Rightarrow> u32 \<Rightarrow> byte list) \<Rightarrow> (string list \<Rightarrow> string + ip list) \<Rightarrow> string + ip option \<Rightarrow> SSMConfig \<Rightarrow> u32 list \<Rightarrow>
    string + (ip \<times> ip list) list \<times> ip list \<times> ip list \<times> ip list" where
  "buildSSMSources group_ip resolver local cfg beefJoinIdx =
     (case local of Inl e \<Rightarrow> Inl (''local-source: '' @ e)
      | Inr own \<Rightarrow>
     (case resolve_roster resolver own (ss_BootstrapBeacon cfg) of Inl e \<Rightarrow> Inl (''ssm-bootstrap-beacon: '' @ e)
      | Inr beaconSrcs \<Rightarrow>
     (case resolve_roster resolver own (ss_BootstrapManifest cfg) of Inl e \<Rightarrow> Inl (''ssm-bootstrap-manifest: '' @ e)
      | Inr manifestSrcs \<Rightarrow>
     (case resolve_roster resolver own (ss_BootstrapSubtreeAnn cfg) of Inl e \<Rightarrow> Inl (''ssm-bootstrap-subtree-announce: '' @ e)
      | Inr subAnnSrcs \<Rightarrow>
     (case resolve_roster resolver own (ss_PublishersStatic cfg) of Inl e \<Rightarrow> Inl (''ssm-publishers-static: '' @ e)
      | Inr staticSrcs \<Rightarrow>
          let ip = group_ip (ss_MCPrefix cfg) (ss_MCGroupID cfg);
              gs = put_roster manifestSrcs (ip groupBlockBroadcast) (put_roster subAnnSrcs (ip groupSubtreeGroupAnnounce)
                     (put_roster subAnnSrcs (ip groupSubtreeDataAnnounce) (put_roster beaconSrcs (ip groupBeacon) [])));
              gs = (if 0 < length staticSrcs
                    then fold (\<lambda>idx. put_roster staticSrcs (ip idx)) (map of_nat [0..<unat (ss_NumGroups cfg)] @ beefJoinIdx) gs else gs)
          in Inr (gs, beaconSrcs, manifestSrcs, subAnnSrcs))))))"

lemma resolve_excludes: "resolve_roster resolver (Some a) entries = Inr srcs \<Longrightarrow> a \<notin> set srcs"
  by (auto simp: resolve_roster_def excludeOwnSource_def split: if_splits sum.splits)

definition without :: "ip \<Rightarrow> (ip \<times> ip list) list \<Rightarrow> bool" where
  "without a gs \<longleftrightarrow> list_all (\<lambda>(g, srcs). a \<notin> set srcs \<and> srcs \<noteq> []) gs"

lemma without_put: "without a gs \<Longrightarrow> a \<notin> set srcs \<Longrightarrow> without a (put_roster srcs x gs)"
  using set_put_subset by (fastforce simp: without_def put_roster_def list_all_iff split: option.splits)

lemma without_fold: "without a gs \<Longrightarrow> a \<notin> set srcs \<Longrightarrow> without a (fold (\<lambda>idx. put_roster srcs (f idx)) idxs gs)"
  by (induction idxs arbitrary: gs) (simp_all add: without_put)

lemma sources_without_own:
  assumes "buildSSMSources group_ip resolver (Inr (Some a)) cfg beefJoinIdx = Inr (gs, beacon, manifest, announce)"
  shows "without a gs" "a \<notin> set beacon" "a \<notin> set manifest" "a \<notin> set announce"
  using assms
  by (auto simp: buildSSMSources_def Let_def without_fold without_put without_def [of a "[]"] dest!: resolve_excludes split: sum.splits if_splits)


section \<open>A start-up\<close>

definition demo_beacon :: BeaconListener where
  "demo_beacon = \<lparr>bl_Groups = beaconGroups \<lparr>bc_BeaconPort = 9300, bc_AutoConfigEnabled = True, bc_AutoConfigBeaconPort = 9001\<rparr> [id16_bytes 5, id16_bytes 7],
     bl_Sources = [1], bl_SourcesByPort = [(9001, [2])]\<rparr>"

definition demo_open :: open_env where
  "demo_open = \<lparr>oe_multicast = None, oe_packet = None, oe_udp = True, oe_syscall = None, oe_control = None, oe_join = \<lambda>_ _. None\<rparr>"

theorem one_socket_per_port_witness:
  "\<exists>b1 b2 ms. bucketByPort (bl_Groups demo_beacon) = Some [b1, b2] \<and> map ua_IP b1 = [id16_bytes 5, id16_bytes 7] \<and>
     openGroupConn demo_open demo_beacon b2 = Inr ms \<and> ms = [(5, [2]), (7, [2])]"
proof -
  obtain bs where bs: "bucketByPort (bl_Groups demo_beacon) = Some bs"
      "bs = map (\<lambda>p. filter (\<lambda>x. ua_Port x = p) (bl_Groups demo_beacon)) (firsts (map ua_Port (bl_Groups demo_beacon)))"
    using one_socket_per_port [of demo_beacon] by blast
  show ?thesis using bs
    by (simp add: demo_beacon_def beaconGroups_def openGroupConn_def demo_open_def sourcesFor_def To16_def wire_simps Let_def)
qed

definition demo_roster :: SSMConfig where
  "demo_roster = \<lparr>ss_BootstrapBeacon = [], ss_BootstrapManifest = [], ss_BootstrapSubtreeAnn = [], ss_PublishersStatic = [''self''],
     ss_MCPrefix = 0xFF35, ss_MCGroupID = 0xB, ss_NumGroups = 4\<rparr>"


end
