(* ===== verification/Main_Setup.thy ===== *)
theory Main_Setup
  imports Control_Groups
begin

text \<open>
  Parts of the start-up in \<^verbatim>\<open>main.go\<close> that compute: the identity address of the emitter and the wiring
  of the BEEF plane. Hashing a topic name, the group index of a topic and the markers of the object
  formats are shard-common and are parameters.
\<close>

section \<open>The primary address\<close>

definition IsLinkLocalUnicast :: "byte list \<Rightarrow> bool" where
  "IsLinkLocalUnicast a =
     (case To4 a of Some b \<Rightarrow> b ! 0 = 169 \<and> b ! 1 = 254
      | None \<Rightarrow> length a = 16 \<and> a ! 0 = 0xFE \<and> a ! 1 AND 0xC0 = 0x80)"

text \<open>The addresses of the interface; \<open>None\<close> is an address of another type than a network.\<close>

fun primary_loop :: "byte list option list \<Rightarrow> byte list option \<Rightarrow> byte list option" where
  "primary_loop [] fallback = fallback"
| "primary_loop (a # as) fallback =
     (case a of None \<Rightarrow> primary_loop as fallback
      | Some raw \<Rightarrow>
          (case To16 raw of None \<Rightarrow> primary_loop as fallback
           | Some ip \<Rightarrow>
               if To4 ip \<noteq> None then primary_loop as fallback
               else if \<not> IsLinkLocalUnicast ip then Some ip
               else primary_loop as (if fallback = None then Some ip else fallback)))"

definition primaryIPv6 :: "byte list option list option \<Rightarrow> id16 option" where
  "primaryIPv6 addrs = (case addrs of None \<Rightarrow> None | Some as \<Rightarrow> map_option word_of_bytes (primary_loop as None))"

text \<open>The IPv6 addresses of an interface in order.\<close>

definition ipv6_of :: "byte list option list \<Rightarrow> byte list list" where
  "ipv6_of as = filter (\<lambda>ip. length ip = 16 \<and> To4 ip = None) (List.map_filter id as)"

lemma ipv6_of_Cons:
  "ipv6_of (a # as) = (case a of None \<Rightarrow> [] | Some ip \<Rightarrow> if length ip = 16 \<and> To4 ip = None then [ip] else []) @ ipv6_of as"
  by (simp add: ipv6_of_def List.map_filter_simps split: option.split)

lemma primary_loop_find:
  "primary_loop as fb = (case find (\<lambda>ip. \<not> IsLinkLocalUnicast ip) (ipv6_of as) of Some ip \<Rightarrow> Some ip
     | None \<Rightarrow> if fb \<noteq> None then fb else if ipv6_of as = [] then None else Some (hd (ipv6_of as)))"
proof (induction as arbitrary: fb)
  case (Cons a as)
  show ?case
  proof (cases "\<exists>ip. a = Some ip \<and> length ip = 16 \<and> To4 ip = None")
    case True
    then obtain ip where "a = Some ip" "length ip = 16" "To4 ip = None" by blast
    then show ?thesis using Cons by (auto simp: ipv6_of_Cons To16_def split: option.split)
  next
    case False
    have "To4 (replicate 10 0 @ [0xFF, 0xFF] @ b) \<noteq> None" if "length b = 4" for b using To4_mapped [OF that] by simp
    then have "primary_loop (a # as) fb = primary_loop as fb" using False by (auto simp: To16_def split: option.split)
    moreover have "ipv6_of (a # as) = ipv6_of as" using False by (auto simp: ipv6_of_Cons split: option.split)
    ultimately show ?thesis using Cons.IH [of fb] by (simp only:)
  qed
qed (simp add: ipv6_of_def List.map_filter_simps)

lemma primaryIPv6_correct:
  "primaryIPv6 (Some as) = map_option word_of_bytes
     (case find (\<lambda>ip. \<not> IsLinkLocalUnicast ip) (ipv6_of as) of Some ip \<Rightarrow> Some ip
      | None \<Rightarrow> if ipv6_of as = [] then None else Some (hd (ipv6_of as)))"
  by (simp add: primaryIPv6_def primary_loop_find)

section \<open>The BEEF plane\<close>

definition hex_digit :: "char \<Rightarrow> nat option" where
  "hex_digit c =
     (let n = of_char c :: nat
      in if 48 \<le> n \<and> n \<le> 57 then Some (n - 48)
         else if 97 \<le> n \<and> n \<le> 102 then Some (n - 87)
         else if 65 \<le> n \<and> n \<le> 70 then Some (n - 55) else None)"

text \<open>\<^verbatim>\<open>hex.DecodeString\<close>; \<open>None\<close> is an error.\<close>

fun hex_decode :: "string \<Rightarrow> byte list option" where
  "hex_decode [] = Some []"
| "hex_decode [c] = None"
| "hex_decode (a # b # cs) =
     do { x \<leftarrow> hex_digit a; y \<leftarrow> hex_digit b; bs \<leftarrow> hex_decode cs; Some (of_nat (16 * x + y) # bs) }"

record BEEFConfig =
  bf_Topics :: "string list"
  bf_Groups :: "u32 list"
  bf_Versions :: "string list"

definition topic_of :: "(string \<Rightarrow> id32) \<Rightarrow> string \<Rightarrow> id32" where
  "topic_of topic_id t = (case hex_decode t of Some b \<Rightarrow> if length b = 32 then word_of_bytes b else topic_id t | None \<Rightarrow> topic_id t)"

definition version_of :: "u32 \<times> u32 \<times> u32 \<Rightarrow> string \<Rightarrow> u32 option" where
  "version_of markers tok =
     (if tok = ''beef'' then Some (fst markers) else if tok = ''beefv2'' then Some (fst (snd markers))
      else if tok = ''atomic'' then Some (snd (snd markers)) else None)"

text \<open>
  Elected topics and accepted versions as sets, \<open>None\<close> for the nil map; \<open>plane\<close> is the outcome of
  building the plane engine, with its group index and base.
\<close>

definition setupBEEF :: "string + (id32 \<Rightarrow> u32) \<times> u16 \<Rightarrow> (string \<Rightarrow> id32) \<Rightarrow> u32 \<times> u32 \<times> u32 \<Rightarrow> BEEFConfig \<Rightarrow>
    string + id32 list option \<times> u32 list option \<times> u32 list" where
  "setupBEEF plane topic_id markers cfg =
     (case plane of Inl e \<Rightarrow> Inl (''beef plane: '' @ e)
      | Inr (groupIndex, base) \<Rightarrow>
          let tids = map (topic_of topic_id) (bf_Topics cfg);
              topics = (if 0 < length (bf_Topics cfg) then Some (fold List.insert tids []) else None);
              joinSet = fold List.insert (map groupIndex tids @ map (\<lambda>g. ucast base + g) (bf_Groups cfg)) [];
              versions = (if 0 < length (bf_Versions cfg)
                          then Some (fold List.insert (List.map_filter (version_of markers) (bf_Versions cfg)) []) else None)
          in Inr (topics, versions, sort joinSet))"

lemma fold_insert: "set (fold List.insert xs ys) = set xs \<union> set ys" "distinct ys \<Longrightarrow> distinct (fold List.insert xs ys)"
  by (induction xs arbitrary: ys) auto

text \<open>The plane joins exactly the groups of the elected topics and the explicit ones, each once and in order.\<close>

lemma setupBEEF_joins:
  assumes "setupBEEF (Inr (groupIndex, base)) topic_id markers cfg = Inr (topics, versions, joins)"
  shows "sorted joins" "distinct joins"
    "set joins = groupIndex ` topic_of topic_id ` set (bf_Topics cfg) \<union> (\<lambda>g. ucast base + g) ` set (bf_Groups cfg)"
    "topics = None \<longleftrightarrow> bf_Topics cfg = []" "topics = Some ts \<Longrightarrow> set ts = topic_of topic_id ` set (bf_Topics cfg)"
  using assms by (auto simp: setupBEEF_def Let_def fold_insert split: if_splits)

section \<open>Prefixes by configuration\<close>

record ControlConfig =
  cc_ControlGroupCompat :: string
  cc_SourceMode :: string
  cc_BeaconScope :: string

definition BeaconGroupPrefixes :: "(string \<Rightarrow> string + 'sc) \<Rightarrow> ('sc \<Rightarrow> string + u16) \<Rightarrow> ControlConfig \<Rightarrow> string + u16 list" where
  "BeaconGroupPrefixes parse_scope ssm_prefix c =
     ControlGroupPrefixes parse_scope ssm_prefix (cc_ControlGroupCompat c) (cc_SourceMode c) (cc_BeaconScope c)"

definition AnnounceGroupPrefixes :: "(string \<Rightarrow> string + 'sc) \<Rightarrow> ('sc \<Rightarrow> string + u16) \<Rightarrow> ControlConfig \<Rightarrow> string \<Rightarrow> string + u16 list" where
  "AnnounceGroupPrefixes parse_scope ssm_prefix c scopeName =
     ControlGroupPrefixes parse_scope ssm_prefix (cc_ControlGroupCompat c) (cc_SourceMode c) scopeName"

end
