(* ===== verification/Worker_Serve.thy ===== *)
theory Worker_Serve
  imports Worker_Examples Fanout_Routing
begin

text \<open>
  The receive loops of a worker: \<^verbatim>\<open>serve\<close> in \<^verbatim>\<open>listener/listener.go\<close>, which handles each datagram inline, and
  the pipelined loops of \<^verbatim>\<open>listener/recvbatch_linux.go\<close> and \<^verbatim>\<open>listener/recvbatch_other.go\<close>, in which one
  goroutine reads batches into a bounded queue and another drains it. What the socket returns is a
  list of outcomes; a datagram comes with the environments its handling reads. The two goroutines
  are steps that interleave. The theory shows that the pipeline does what the inline loop does.
\<close>

section \<open>What the socket returns\<close>

datatype errno = EAGAIN | EWOULDBLOCK | EBADF | EINVAL | EINTR | OtherErrno

record datagram =
  dg_raw :: "byte list"
  dg_from :: "(id16 \<times> u16) option"
  dg_envs :: "nat \<Rightarrow> env"

text \<open>A failed read comes with whether the context was cancelled by then.\<close>

datatype 'd received = Got 'd | Failed errno bool

definition stops :: "errno \<Rightarrow> bool \<Rightarrow> bool" where
  "stops e cancelled =
     (if e = EAGAIN \<or> e = EWOULDBLOCK then cancelled
      else if e = EBADF \<or> e = EINVAL then True
      else if e = EINTR then False
      else cancelled)"

text \<open>
  The address the kernel wrote for a datagram of a batch; the port is in network byte order.
\<close>

definition sockaddr :: "bool \<Rightarrow> id16 \<Rightarrow> u16 \<Rightarrow> (id16 \<times> u16) option" where
  "sockaddr inet6 addr port = (if \<not> inet6 then None else Some (addr, (drop_bit 8 port) OR push_bit 8 (port AND 0xFF)))"

text \<open>A port whose bytes the kernel swapped is read as it was sent.\<close>

lemma sockaddr_port: "sockaddr True addr (drop_bit 8 port OR push_bit 8 (port AND 0xFF)) = Some (addr, port)"
proof -
  have m: "(0xFF :: u16) = mask 8" by (simp add: mask_eq_exp_minus_1)
  show ?thesis unfolding sockaddr_def m
    by (auto intro!: bit_word_eqI simp: bit_simps dest: bit_imp_le_length)
qed

section \<open>The inline loop\<close>

definition handle_one :: "common \<Rightarrow> bool \<Rightarrow> datagram \<Rightarrow> 'w Worker \<Rightarrow> 'w Worker option" where
  "handle_one cm tee d W =
     (if 0 < length (dg_raw d) then handleDatagram cm (dg_envs d) (dg_raw d) (dg_from d) tee W else Some W)"

text \<open>A loop that feeds the retry tee closes it on its way out; the tee then drains by its own steps.\<close>

definition serve_end :: "bool \<Rightarrow> 'w Worker \<Rightarrow> 'w Worker" where
  "serve_end tee W = (if tee then W\<lparr>wk_retryTee := map_option close_begin (wk_retryTee W)\<rparr> else W)"

text \<open>Returned are the worker and whether the loop ended; a list that runs out means it still waits.\<close>

fun serve :: "common \<Rightarrow> bool \<Rightarrow> datagram received list \<Rightarrow> 'w Worker \<Rightarrow> ('w Worker \<times> bool) option" where
  "serve cm tee [] W = Some (W, False)"
| "serve cm tee (Failed e c # rs) W = (if stops e c then Some (serve_end tee W, True) else serve cm tee rs W)"
| "serve cm tee (Got d # rs) W = do { W' \<leftarrow> handle_one cm tee d W; serve cm tee rs W' }"

section \<open>The pipelined loop\<close>

definition recvBatchSize :: nat where "recvBatchSize = 32"

definition queue_cap :: "'w Worker \<Rightarrow> nat" where
  "queue_cap W = nat ((wk_recvQueue W + int recvBatchSize - 1) sdiv int recvBatchSize)"

definition handle_batch :: "common \<Rightarrow> bool \<Rightarrow> datagram list \<Rightarrow> 'w Worker \<Rightarrow> 'w Worker option" where
  "handle_batch cm tee ds W = each (handle_one cm tee) ds W"

text \<open>
  \<open>pl_in\<close> is what the socket will still return, \<open>pl_taken\<close> a batch read but not yet accepted by the
  queue, \<open>pl_closed\<close> that the reading loop returned and closed the queue, \<open>pl_done\<close> that the processing
  goroutine ended too, on which \<open>serve\<close> closes the tee. A worker that panicked is \<open>None\<close>.
\<close>

record 'w pipeline =
  pl_in :: "datagram list received list"
  pl_taken :: "datagram list option"
  pl_queue :: "datagram list list"
  pl_closed :: bool
  pl_done :: bool
  pl_worker :: "'w Worker option"

inductive pipeline_step :: "common \<Rightarrow> bool \<Rightarrow> nat \<Rightarrow> 'w pipeline \<Rightarrow> 'w pipeline \<Rightarrow> bool" for cm tee cap where
  recv_batch: "\<not> pl_closed p \<Longrightarrow> pl_taken p = None \<Longrightarrow> pl_in p = Got ds # rs \<Longrightarrow> ds \<noteq> [] \<Longrightarrow>
    pipeline_step cm tee cap p (p\<lparr>pl_in := rs, pl_taken := Some ds\<rparr>)"
| recv_empty: "\<not> pl_closed p \<Longrightarrow> pl_taken p = None \<Longrightarrow> pl_in p = Got [] # rs \<Longrightarrow>
    pipeline_step cm tee cap p (p\<lparr>pl_in := rs\<rparr>)"
| recv_again: "\<not> pl_closed p \<Longrightarrow> pl_taken p = None \<Longrightarrow> pl_in p = Failed e c # rs \<Longrightarrow> \<not> stops e c \<Longrightarrow>
    pipeline_step cm tee cap p (p\<lparr>pl_in := rs\<rparr>)"
| recv_stop: "\<not> pl_closed p \<Longrightarrow> pl_taken p = None \<Longrightarrow> pl_in p = Failed e c # rs \<Longrightarrow> stops e c \<Longrightarrow>
    pipeline_step cm tee cap p (p\<lparr>pl_in := rs, pl_closed := True\<rparr>)"
| hand_off: "pl_taken p = Some ds \<Longrightarrow> length (pl_queue p) < cap \<Longrightarrow>
    pipeline_step cm tee cap p (p\<lparr>pl_taken := None, pl_queue := pl_queue p @ [ds]\<rparr>)"
| process: "pl_queue p = ds # q \<Longrightarrow>
    pipeline_step cm tee cap p (p\<lparr>pl_queue := q, pl_worker := pl_worker p \<bind> handle_batch cm tee ds\<rparr>)"
| finish: "pl_closed p \<Longrightarrow> pl_queue p = [] \<Longrightarrow> \<not> pl_done p \<Longrightarrow>
    pipeline_step cm tee cap p (p\<lparr>pl_done := True, pl_worker := map_option (serve_end tee) (pl_worker p)\<rparr>)"

definition pipeline_init :: "'w Worker \<Rightarrow> datagram list received list \<Rightarrow> 'w pipeline \<Rightarrow> bool" where
  "pipeline_init W rs p \<longleftrightarrow>
     p = \<lparr>pl_in = rs, pl_taken = None, pl_queue = [], pl_closed = False, pl_done = False, pl_worker = Some W\<rparr>"

section \<open>The pipeline is the inline loop\<close>

text \<open>The outcomes of single reads that batched reads stand for.\<close>

fun flatten :: "datagram list received list \<Rightarrow> datagram received list" where
  "flatten [] = []"
| "flatten (Got ds # rs) = map Got ds @ flatten rs"
| "flatten (Failed e c # rs) = Failed e c # flatten rs"

text \<open>What is left to do of a pipeline, as an inline loop on the worker it has now.\<close>

definition remaining :: "common \<Rightarrow> bool \<Rightarrow> 'w pipeline \<Rightarrow> ('w Worker \<times> bool) option" where
  "remaining cm tee p =
     do { W \<leftarrow> pl_worker p;
          W1 \<leftarrow> each (handle_one cm tee) (concat (pl_queue p) @ (case pl_taken p of None \<Rightarrow> [] | Some ds \<Rightarrow> ds)) W;
          if pl_done p then Some (W1, True)
          else if pl_closed p then Some (serve_end tee W1, True)
          else serve cm tee (flatten (pl_in p)) W1 }"

definition pipeline_inv :: "common \<Rightarrow> bool \<Rightarrow> nat \<Rightarrow> ('w Worker \<times> bool) option \<Rightarrow> 'w pipeline \<Rightarrow> bool" where
  "pipeline_inv cm tee cap result p \<longleftrightarrow> remaining cm tee p = result \<and> (pl_closed p \<longrightarrow> pl_taken p = None) \<and>
     length (pl_queue p) \<le> cap \<and> (pl_done p \<longrightarrow> pl_closed p \<and> pl_queue p = [])"

lemma serve_got: "serve cm tee (map Got ds @ rs) W = each (handle_one cm tee) ds W \<bind> serve cm tee rs"
proof (induction ds arbitrary: W)
  case (Cons d ds)
  then show ?case by (cases "handle_one cm tee d W") simp_all
qed simp

lemma pipeline_step_inv:
  assumes "pipeline_inv cm tee cap result p" and "pipeline_step cm tee cap p p'"
  shows "pipeline_inv cm tee cap result p'"
  using assms(2,1)
proof cases
  case (recv_batch ds rs)
  then show ?thesis using assms(1)
    by (cases "pl_worker p") (auto simp: pipeline_inv_def remaining_def serve_got each_append cong: if_cong)
next
  case (process ds q)
  then show ?thesis using assms(1)
    by (cases "pl_worker p"; cases "each (handle_one cm tee) ds (the (pl_worker p))")
       (auto simp: pipeline_inv_def remaining_def handle_batch_def each_append cong: if_cong)
next
  case finish
  then show ?thesis using assms(1) by (cases "pl_worker p") (auto simp: pipeline_inv_def remaining_def)
qed (auto simp: pipeline_inv_def remaining_def cong: if_cong)

interpretation pipeline: step_invariant "pipeline_init W rs" "pipeline_step cm tee cap" "pipeline_inv cm tee cap (serve cm tee (flatten rs) W)"
proof
  fix p assume "pipeline_init W rs p"
  then show "pipeline_inv cm tee cap (serve cm tee (flatten rs) W) p" by (simp add: pipeline_init_def pipeline_inv_def remaining_def)
qed (rule pipeline_step_inv)

lemma queue_cap_pos: "0 < wk_recvQueue W \<Longrightarrow> 0 < queue_cap W"
  by (simp add: queue_cap_def recvBatchSize_def signed_divide_int_def)

lemma pipeline_progress:
  assumes "0 < cap" and "\<not> pl_done p" and "pl_in p \<noteq> [] \<or> pl_taken p \<noteq> None \<or> pl_queue p \<noteq> [] \<or> pl_closed p"
  shows "\<exists>p'. pipeline_step cm tee cap p p'"
proof (cases "pl_queue p")
  case (Cons ds q)
  then show ?thesis by (blast intro: process)
next
  case Nil
  show ?thesis
  proof (cases "pl_taken p")
    case (Some ds)
    show ?thesis using hand_off [OF Some, of cap cm tee] Nil assms(1) by auto
  next
    case None
    show ?thesis
    proof (cases "pl_closed p")
      case True
      then show ?thesis using Nil assms(2) by (blast intro: finish)
    next
      case False
      then obtain r rs where i: "pl_in p = r # rs" using assms(3) None Nil by (cases "pl_in p") auto
      show ?thesis
      proof (cases r)
        case (Got ds)
        then show ?thesis using i False None by (cases "ds = []") (blast intro: recv_batch recv_empty)+
      next
        case (Failed e c)
        then show ?thesis using i False None by (cases "stops e c") (blast intro: recv_again recv_stop)+
      qed
    qed
  qed
qed

text \<open>
  C12. Pipelining the receive path changes nothing but the timing. Take any interleaving of the reading
  and the processing goroutine over what the socket returns. When both have ended, the worker is
  the one the inline loop leaves on the same datagrams read one by one, and the inline loop ended
  too; a panic in the one is a panic in the other. At every moment the queue is within its bound,
  and as long as something is left to read, hand over, process or close, some step is possible.
\<close>

theorem pipeline_equals_inline:
  assumes "reach (pipeline_init W rs) (pipeline_step cm tee (queue_cap W)) p" and "0 < wk_recvQueue W"
  shows "(pl_done p \<longrightarrow> serve cm tee (flatten rs) W = map_option (\<lambda>X. (X, True)) (pl_worker p)) \<and>
    length (pl_queue p) \<le> queue_cap W \<and>
    (\<not> pl_done p \<and> (pl_in p \<noteq> [] \<or> pl_taken p \<noteq> None \<or> pl_queue p \<noteq> [] \<or> pl_closed p) \<longrightarrow>
      (\<exists>p'. pipeline_step cm tee (queue_cap W) p p'))"
proof -
  have i: "pipeline_inv cm tee (queue_cap W) (serve cm tee (flatten rs) W) p" by (rule pipeline.reach_inv [OF assms(1)])
  have "serve cm tee (flatten rs) W = map_option (\<lambda>X. (X, True)) (pl_worker p)" if "pl_done p"
    using i that by (cases "pl_worker p") (auto simp: pipeline_inv_def remaining_def)
  then show ?thesis using i pipeline_progress [OF queue_cap_pos [OF assms(2)]] by (auto simp: pipeline_inv_def)
qed

section \<open>A run\<close>

definition demo_datagram :: datagram where
  "demo_datagram = \<lparr>dg_raw = [2, 5, 42, 9], dg_from = Some (1, 9001), dg_envs = \<lambda>_. demo_env\<rparr>"

definition demo_piped :: "sent_log Worker" where
  "demo_piped = SetRecvQueueDepth 40 demo_worker"

lemma demo_piped_run:
  "reach (pipeline_init demo_piped [Got [demo_datagram], Failed EBADF False]) (pipeline_step demo_common True (queue_cap demo_piped))
     \<lparr>pl_in = [], pl_taken = None, pl_queue = [], pl_closed = True, pl_done = True,
      pl_worker = map_option (serve_end True) (Some demo_piped \<bind> handle_batch demo_common True [demo_datagram])\<rparr>"
proof -
  let ?R = "reach (pipeline_init demo_piped [Got [demo_datagram], Failed EBADF False]) (pipeline_step demo_common True (queue_cap demo_piped))"
  let ?p = "\<lambda>rs t q c d w. \<lparr>pl_in = rs, pl_taken = t, pl_queue = q, pl_closed = c, pl_done = d, pl_worker = w\<rparr>"
  have c: "0 < queue_cap demo_piped" by (rule queue_cap_pos) (simp add: demo_piped_def SetRecvQueueDepth_def)
  have "?R (?p [Got [demo_datagram], Failed EBADF False] None [] False False (Some demo_piped))"
    by (rule reach_init) (simp add: pipeline_init_def)
  from reach_step [OF this recv_batch] have "?R (?p [Failed EBADF False] (Some [demo_datagram]) [] False False (Some demo_piped))" by simp
  from reach_step [OF this hand_off] c have "?R (?p [Failed EBADF False] None [[demo_datagram]] False False (Some demo_piped))" by simp
  from reach_step [OF this recv_stop [where e = EBADF and c = False]] have "?R (?p [] None [[demo_datagram]] True False (Some demo_piped))" by (simp add: stops_def)
  from reach_step [OF this process] have "?R (?p [] None [] True False (Some demo_piped \<bind> handle_batch demo_common True [demo_datagram]))" by simp
  from reach_step [OF this finish] show ?thesis by simp
qed

theorem pipeline_equals_inline_witness:
  "serve demo_common True [Got demo_datagram, Failed EBADF False] demo_piped =
     map_option (\<lambda>X. (serve_end True X, True)) (handle_batch demo_common True [demo_datagram] demo_piped)"
  using pipeline_equals_inline [OF demo_piped_run] by (simp add: demo_piped_def SetRecvQueueDepth_def option.map_comp comp_def)

end
