(* ===== verification/Discovery_Listen.thy ===== *)
theory Discovery_Listen
  imports Control_Groups Worker_Serve
begin

text \<open>
  The receive loops of discovery: the beacon listener of \<^verbatim>\<open>discovery/beacon.go\<close>, which feeds the
  endpoint and manifest registries, and the subtree-group announcement listener of
  \<^verbatim>\<open>discovery/subtree_group_announce.go\<close>, which feeds the registry the frame filter asks. The
  manifest registry and the decoders of manifests and announcements are shard-common and are
  parameters. The theory shows what the network can make of the two registries.
\<close>

datatype discovery_metric = BeaconAdvertReceived | ManifestReceived | SetBeaconRegistryEndpoints nat
  | SubtreeGroupAnnounceReceived | SubtreeGroupAnnounceRejected string | SubtreeGroupEvicted nat nat

section \<open>The beacon listener\<close>

text \<open>\<open>'m\<close> is the manifest registry; \<open>None\<close> when automatic configuration is off.\<close>

record 'm Beacon =
  be_Registry :: Registry
  be_ManifestRegistry :: "'m option"
  be_Rec :: bool
  be_metrics :: "discovery_metric list"

text \<open>Decoder of a manifest and its insertion into the registry.\<close>

record ('man, 'm) manifest_code =
  mf_decode :: "byte list \<Rightarrow> string + 'man"
  mf_upsert :: "gtime \<Rightarrow> ip \<Rightarrow> 'man \<Rightarrow> 'm \<Rightarrow> 'm"

definition MsgTypeShardManifest :: byte where "MsgTypeShardManifest = 0x40"

definition be_count :: "discovery_metric \<Rightarrow> 'm Beacon \<Rightarrow> 'm Beacon" where
  "be_count x B = (if be_Rec B then B\<lparr>be_metrics := be_metrics B @ [x]\<rparr> else B)"

definition handleADVERT :: "gtime \<Rightarrow> byte list \<Rightarrow> 'm Beacon \<Rightarrow> 'm Beacon" where
  "handleADVERT now buf B =
     (case DecodeADVERT buf of Inl e \<Rightarrow> B
      | Inr advert \<Rightarrow>
          if ad_Flags advert AND FlagDraining \<noteq> 0 then B
          else be_count BeaconAdvertReceived (B\<lparr>be_Registry := Upsert now advert (be_Registry B)\<rparr>))"

definition handleManifest :: "('man, 'm) manifest_code \<Rightarrow> gtime \<Rightarrow> byte list \<Rightarrow> byte list \<Rightarrow> 'm Beacon \<Rightarrow> 'm Beacon" where
  "handleManifest mf now buf src B =
     (case be_ManifestRegistry B of None \<Rightarrow> B
      | Some reg \<Rightarrow>
          (case mf_decode mf buf of Inl e \<Rightarrow> B
           | Inr m \<Rightarrow>
               (case To16 src of None \<Rightarrow> B
                | Some a \<Rightarrow> be_count ManifestReceived (B\<lparr>be_ManifestRegistry := Some (mf_upsert mf now (word_of_bytes a) m reg)\<rparr>))))"

text \<open>One datagram, of which the read keeps what fits the buffer.\<close>

definition beacon_datagram :: "('man, 'm) manifest_code \<Rightarrow> gtime \<Rightarrow> byte list \<Rightarrow> byte list \<Rightarrow> 'm Beacon \<Rightarrow> 'm Beacon" where
  "beacon_datagram mf now raw src B =
     (let buf = take 2048 raw
      in if length buf < 7 then B
         else if buf ! 6 = MsgTypeADVERT then handleADVERT now buf B
         else if buf ! 6 = MsgTypeShardManifest then handleManifest mf now buf src B
         else B)"

text \<open>
  The loop of one socket. Each round first looks whether the context is done, then reads; a failed
  read looks again.
\<close>

datatype beacon_read = ReadTimeout | ReadError bool | ReadFrom gtime "byte list" "byte list"

fun listenGroup :: "('man, 'm) manifest_code \<Rightarrow> (bool \<times> beacon_read) list \<Rightarrow> 'm Beacon \<Rightarrow> 'm Beacon \<times> bool" where
  "listenGroup mf [] B = (B, False)"
| "listenGroup mf ((cancelled, r) # rs) B =
     (if cancelled then (B, True)
      else case r of
        ReadTimeout \<Rightarrow> listenGroup mf rs B
      | ReadError c \<Rightarrow> if c then (B, True) else listenGroup mf rs B
      | ReadFrom now raw src \<Rightarrow> listenGroup mf rs (beacon_datagram mf now raw src B))"

definition evictLoop_tick :: "gtime \<Rightarrow> 'm Beacon \<Rightarrow> 'm Beacon" where
  "evictLoop_tick now B =
     (let r = Evict now (be_Registry B) in be_count (SetBeaconRegistryEndpoints (Len r)) (B\<lparr>be_Registry := r\<rparr>))"

text \<open>The sockets and the eviction goroutine interleave.\<close>

datatype beacon_event = Arrived gtime "byte list" "byte list" | EvictTick gtime

fun beacon_step :: "('man, 'm) manifest_code \<Rightarrow> beacon_event \<Rightarrow> 'm Beacon \<Rightarrow> 'm Beacon" where
  "beacon_step mf (Arrived now raw src) B = beacon_datagram mf now raw src B"
| "beacon_step mf (EvictTick now) B = evictLoop_tick now B"

fun arrivals :: "(bool \<times> beacon_read) list \<Rightarrow> beacon_event list" where
  "arrivals [] = []"
| "arrivals ((cancelled, r) # rs) =
     (if cancelled then []
      else case r of ReadTimeout \<Rightarrow> arrivals rs | ReadError c \<Rightarrow> if c then [] else arrivals rs
           | ReadFrom now raw src \<Rightarrow> Arrived now raw src # arrivals rs)"

lemma listenGroup_events: "fst (listenGroup mf reads B) = fold (beacon_step mf) (arrivals reads) B"
  by (induction mf reads B rule: listenGroup.induct) (simp_all split: beacon_read.split)

section \<open>What the beacon registry knows\<close>

text \<open>The ADVERT a datagram brings into the registry, if any.\<close>

definition advert_of :: "byte list \<Rightarrow> ADVERT option" where
  "advert_of raw =
     (let buf = take 2048 raw
      in if length buf < 7 \<or> buf ! 6 \<noteq> MsgTypeADVERT then None
         else case DecodeADVERT buf of Inl e \<Rightarrow> None | Inr a \<Rightarrow> if ad_Flags a AND FlagDraining \<noteq> 0 then None else Some a)"

definition advert_ttl :: "ADVERT \<Rightarrow> dur" where
  "advert_ttl a = wrap64 (wrap64 (uint (ad_BeaconInterval a) * 3) * second)"

definition advert_entry :: "gtime \<Rightarrow> ADVERT \<Rightarrow> EndpointEntry" where
  "advert_entry now a =
     \<lparr>ep_Addr = ''['' @ ip_string (ad_NACKAddr a) @ '']:'' @ decimal (uint (ad_NACKPort a)), ep_Tier = ad_Tier a,
      ep_Preference = ad_Preference a, ep_Flags = ad_Flags a, ep_Expires = now + advert_ttl a,
      ep_InstanceID = ad_InstanceID a, ep_SupportsUnicast = (ad_Flags a AND FlagUnicastRetransmit \<noteq> 0)\<rparr>"

text \<open>What is known of an instance, by the datagrams and ticks so far.\<close>

fun known :: "u32 \<Rightarrow> beacon_event \<Rightarrow> EndpointEntry option \<Rightarrow> EndpointEntry option" where
  "known i (Arrived now raw src) e =
     (case advert_of raw of None \<Rightarrow> e | Some a \<Rightarrow> if ad_InstanceID a = i then Some (advert_entry now a) else e)"
| "known i (EvictTick now) e = (case e of None \<Rightarrow> None | Some x \<Rightarrow> if now > ep_Expires x then None else Some x)"

lemma be_count_sel [simp]:
  "be_Registry (be_count x B) = be_Registry B" "be_ManifestRegistry (be_count x B) = be_ManifestRegistry B"
  by (simp_all add: be_count_def)

lemma datagram_registry:
  "be_Registry (beacon_datagram mf now raw src B) =
     (case advert_of raw of None \<Rightarrow> be_Registry B | Some a \<Rightarrow> Upsert now a (be_Registry B))"
  by (simp add: beacon_datagram_def advert_of_def handleADVERT_def handleManifest_def Let_def split: sum.split option.split)

lemma Upsert_lookup:
  assumes "registry_ok r"
  shows "map_of (rg_entries (Upsert now a r)) i = (if i = ad_InstanceID a then Some (advert_entry now a) else map_of (rg_entries r) i)"
proof -
  have "ep_InstanceID e = ad_InstanceID a" if "map_of (rg_entries r) (ad_InstanceID a) = Some e" for e
    using assms map_of_SomeD [OF that] by (auto simp: registry_ok_def list_all_iff)
  then show ?thesis
    by (cases "map_of (rg_entries r) (ad_InstanceID a)") (auto simp: Upsert_def Let_def advert_entry_def advert_ttl_def)
qed

lemma Evict_lookup:
  assumes "registry_ok r"
  shows "map_of (rg_entries (Evict now r)) i =
    (case map_of (rg_entries r) i of None \<Rightarrow> None | Some x \<Rightarrow> if now > ep_Expires x then None else Some x)"
  using assms map_of_filter [of "rg_entries r"] by (auto simp: Evict_sel registry_ok_def split: option.split)

lemma known_run:
  assumes "registry_ok (be_Registry B)"
  shows "registry_ok (be_Registry (fold (beacon_step mf) evs B)) \<and>
    map_of (rg_entries (be_Registry (fold (beacon_step mf) evs B))) i = fold (known i) evs (map_of (rg_entries (be_Registry B)) i)"
  using assms
proof (induction evs arbitrary: B)
  case (Cons ev evs)
  have "registry_ok (be_Registry (beacon_step mf ev B)) \<and>
      map_of (rg_entries (be_Registry (beacon_step mf ev B))) i = known i ev (map_of (rg_entries (be_Registry B)) i)"
  proof (cases ev)
    case (Arrived now raw src)
    then show ?thesis using Cons.prems
      by (auto simp: datagram_registry Upsert_lookup intro: wf_intros split: option.split)
  next
    case (EvictTick now)
    then show ?thesis using Cons.prems by (auto simp: evictLoop_tick_def Let_def Evict_lookup intro: wf_intros)
  qed
  then show ?case using Cons.IH [of "beacon_step mf ev B"] by simp
qed simp

lemma advert_ttl_exact: "advert_ttl a = 3 * uint (ad_BeaconInterval a) * second"
proof -
  let ?u = "uint (ad_BeaconInterval a)"
  have u: "0 \<le> ?u" "?u < 65536" using uint_lt2p [of "ad_BeaconInterval a"] by simp_all
  have 1: "wrap64 (?u * 3) = ?u * 3" by (rule wrap64_id) (use u in \<open>simp_all add: min_dur_def max_dur_def, linarith\<close>)
  have 2: "wrap64 (?u * 3 * second) = ?u * 3 * second" by (rule wrap64_id) (use u in \<open>simp_all add: min_dur_def max_dur_def second_def, linarith\<close>)
  show ?thesis unfolding advert_ttl_def 1 2 by simp
qed

text \<open>Nothing more is heard of an instance, and no eviction runs after \<open>limit\<close>.\<close>

fun quiet_until :: "u32 \<Rightarrow> gtime \<Rightarrow> beacon_event \<Rightarrow> bool" where
  "quiet_until i limit (Arrived now raw src) \<longleftrightarrow> (case advert_of raw of None \<Rightarrow> True | Some a \<Rightarrow> ad_InstanceID a \<noteq> i)"
| "quiet_until i limit (EvictTick now) \<longleftrightarrow> now \<le> limit"

lemma known_quiet: "list_all (quiet_until i (ep_Expires e)) evs \<Longrightarrow> fold (known i) evs (Some e) = Some e"
proof (induction evs)
  case (Cons ev evs)
  then show ?case by (cases ev) (auto split: option.splits)
qed simp

lemma advert_of_encoded:
  assumes "EncodeADVERT a buf = Some raw" and "length buf \<le> 2048" and "ad_NACKAddr a \<noteq> 0" and "ad_Flags a AND FlagDraining = 0"
  shows "advert_of raw = Some a"
proof -
  have l: "56 \<le> length buf" using assms(1) by (auto simp: EncodeADVERT_def ADVERTSize_def split: if_splits)
  then have d: "length raw = length buf" "DecodeADVERT raw = Inr a"
    using Advert.advert_roundtrip [of buf a] assms(1,3) by auto
  have "raw ! 6 = MsgTypeADVERT" using d(2) by (auto simp: DecodeADVERT_def Let_def split: if_splits)
  then show ?thesis using d l assms(2,4) by (simp add: advert_of_def)
qed


section \<open>The announcement listener\<close>

record SubtreeGroupAnnounceListener =
  sl_DefaultTTL :: dur
  sl_SenderInclude :: "IPNet list"
  sl_SenderExclude :: "IPNet list"
  sl_Rec :: bool

record SubtreeGroupAnnounce =
  an_GroupID :: id16
  an_SubtreeID :: id32
  an_TTL :: int

text \<open>Size and decoder of an announcement.\<close>

record announce_code =
  ac_size :: nat
  ac_decode :: "byte list \<Rightarrow> string + SubtreeGroupAnnounce"

record Announced =
  an_Registry :: GroupRegistry
  an_metrics :: "discovery_metric list"

definition an_count :: "SubtreeGroupAnnounceListener \<Rightarrow> discovery_metric \<Rightarrow> Announced \<Rightarrow> Announced" where
  "an_count sl x S = (if sl_Rec sl then S\<lparr>an_metrics := an_metrics S @ [x]\<rparr> else S)"

text \<open>
  Opening the socket of one group; the arguments before the group are what the system calls answer.
  The result is the descriptor with its membership.
\<close>

definition openAnnounceSocket :: "string + int \<Rightarrow> string option \<Rightarrow> string option \<Rightarrow> (ip \<Rightarrow> ip list \<Rightarrow> string option) \<Rightarrow> UDPAddr \<Rightarrow> ip list \<Rightarrow> string + int \<times> ip \<times> ip list" where
  "openAnnounceSocket socket reuse bind_err join grp sources =
     (case socket of Inl e \<Rightarrow> Inl (''socket: '' @ e)
      | Inr fd \<Rightarrow>
          (case reuse of Some e \<Rightarrow> Inl (''SO_REUSEPORT: '' @ e)
           | None \<Rightarrow>
               (case bind_err of Some e \<Rightarrow> Inl (''bind: '' @ e)
                | None \<Rightarrow>
                    (case To16 (ua_IP grp) of None \<Rightarrow> Inl ''bad group address''
                     | Some a \<Rightarrow>
                         (case join (word_of_bytes a) sources of Some e \<Rightarrow> Inl (''join group: '' @ e)
                          | None \<Rightarrow> Inr (fd, word_of_bytes a, sources))))))"

definition sockaddrToUDP :: "(id16 \<times> u16) option \<Rightarrow> byte list" where
  "sockaddrToUDP sa = (case sa of Some (a, _) \<Rightarrow> id16_bytes a | None \<Rightarrow> [])"

definition senderAllowed :: "SubtreeGroupAnnounceListener \<Rightarrow> byte list \<Rightarrow> bool" where
  "senderAllowed sl src = Allow_Sender (Some \<lparr>acl_Include = sl_SenderInclude sl, acl_Exclude = sl_SenderExclude sl\<rparr>) src"

definition announce_ttl :: "SubtreeGroupAnnounceListener \<Rightarrow> SubtreeGroupAnnounce \<Rightarrow> dur" where
  "announce_ttl sl ann = (if an_TTL ann > 0 then wrap64 (an_TTL ann * second) else sl_DefaultTTL sl)"

definition announce_datagram :: "announce_code \<Rightarrow> SubtreeGroupAnnounceListener \<Rightarrow> gtime \<Rightarrow> byte list \<Rightarrow> (id16 \<times> u16) option \<Rightarrow> Announced \<Rightarrow> Announced option" where
  "announce_datagram ac sl now raw sa S =
     (let buf = take (ac_size ac + 64) raw
      in if length buf < ac_size ac then Some (an_count sl (SubtreeGroupAnnounceRejected ''too_short'') S)
         else if \<not> senderAllowed sl (sockaddrToUDP sa) then Some (an_count sl (SubtreeGroupAnnounceRejected ''sender_filter'') S)
         else case ac_decode ac buf of
           Inl e \<Rightarrow> Some (an_count sl (SubtreeGroupAnnounceRejected ''decode_error'') S)
         | Inr ann \<Rightarrow>
             do { r \<leftarrow> Add now (an_GroupID ann) (an_SubtreeID ann) (announce_ttl sl ann) (an_Registry S);
                  Some (an_count sl SubtreeGroupAnnounceReceived (S\<lparr>an_Registry := r\<rparr>)) })"

fun listenGroup_Announce :: "announce_code \<Rightarrow> SubtreeGroupAnnounceListener \<Rightarrow> (gtime \<times> byte list \<times> (id16 \<times> u16) option) received list \<Rightarrow> Announced \<Rightarrow> (Announced \<times> bool) option" where
  "listenGroup_Announce ac sl [] S = Some (S, False)"
| "listenGroup_Announce ac sl (Failed e c # rs) S = (if stops e c then Some (S, True) else listenGroup_Announce ac sl rs S)"
| "listenGroup_Announce ac sl (Got (now, raw, sa) # rs) S = announce_datagram ac sl now raw sa S \<bind> listenGroup_Announce ac sl rs"

definition evictLoop_Announce :: "SubtreeGroupAnnounceListener \<Rightarrow> gtime \<Rightarrow> Announced \<Rightarrow> Announced" where
  "evictLoop_Announce sl now S =
     (let (evicted, r) = Evict_Groups now (an_Registry S)
      in an_count sl (SubtreeGroupEvicted evicted (Len_Groups r)) (S\<lparr>an_Registry := r\<rparr>))"

datatype announce_event = Announcement gtime "byte list" "(id16 \<times> u16) option" | GroupsTick gtime

fun announce_step :: "announce_code \<Rightarrow> SubtreeGroupAnnounceListener \<Rightarrow> announce_event \<Rightarrow> Announced \<Rightarrow> Announced option" where
  "announce_step ac sl (Announcement now raw sa) S = announce_datagram ac sl now raw sa S"
| "announce_step ac sl (GroupsTick now) S = Some (evictLoop_Announce sl now S)"

fun announcements :: "(gtime \<times> byte list \<times> (id16 \<times> u16) option) received list \<Rightarrow> announce_event list" where
  "announcements [] = []"
| "announcements (Failed e c # rs) = (if stops e c then [] else announcements rs)"
| "announcements (Got (now, raw, sa) # rs) = Announcement now raw sa # announcements rs"

lemma listenGroup_Announce_events:
  "map_option fst (listenGroup_Announce ac sl reads S) = each (announce_step ac sl) (announcements reads) S"
proof (induction ac sl reads S rule: listenGroup_Announce.induct)
  case (3 ac sl now raw sa rs S)
  then show ?case by (cases "announce_datagram ac sl now raw sa S") simp_all
qed simp_all

section \<open>From the network to the frame filter\<close>

text \<open>The announcement a datagram carries, if its sender may announce.\<close>

definition announce_of :: "announce_code \<Rightarrow> SubtreeGroupAnnounceListener \<Rightarrow> byte list \<Rightarrow> (id16 \<times> u16) option \<Rightarrow> SubtreeGroupAnnounce option" where
  "announce_of ac sl raw sa =
     (let buf = take (ac_size ac + 64) raw
      in if length buf < ac_size ac \<or> \<not> senderAllowed sl (sockaddrToUDP sa) then None
         else case ac_decode ac buf of Inl e \<Rightarrow> None | Inr ann \<Rightarrow> Some ann)"

fun group_ops :: "announce_code \<Rightarrow> SubtreeGroupAnnounceListener \<Rightarrow> announce_event \<Rightarrow> group_op list" where
  "group_ops ac sl (Announcement now raw sa) =
     (case announce_of ac sl raw sa of None \<Rightarrow> [] | Some ann \<Rightarrow> [OpAdd now (an_GroupID ann) (an_SubtreeID ann) (announce_ttl sl ann)])"
| "group_ops ac sl (GroupsTick now) = [OpEvict now]"

text \<open>Until when the last announcement of a pair holds; \<open>d\<close> is the default of the registry.\<close>

fun announced_until :: "announce_code \<Rightarrow> SubtreeGroupAnnounceListener \<Rightarrow> dur \<Rightarrow> id16 \<Rightarrow> id32 \<Rightarrow> announce_event \<Rightarrow> gtime option \<Rightarrow> gtime option" where
  "announced_until ac sl d g s (Announcement now raw sa) e =
     (case announce_of ac sl raw sa of None \<Rightarrow> e
      | Some ann \<Rightarrow> if an_GroupID ann = g \<and> an_SubtreeID ann = s
                    then Some (now + (if announce_ttl sl ann \<le> 0 then d else announce_ttl sl ann)) else e)"
| "announced_until ac sl d g s (GroupsTick now) e = e"

fun ticks_by :: "gtime \<Rightarrow> announce_event \<Rightarrow> bool" where
  "ticks_by now (GroupsTick t) \<longleftrightarrow> t \<le> now"
| "ticks_by now _ \<longleftrightarrow> True"

lemma an_count_sel [simp]: "an_Registry (an_count sl x S) = an_Registry S"
  by (simp add: an_count_def)

lemma group_run_append: "group_run (xs @ ys) r = group_run xs r \<bind> group_run ys"
proof (induction xs arbitrary: r)
  case (Cons x xs)
  then show ?case by (cases "group_step x r") simp_all
qed simp

lemma step_ops: "map_option an_Registry (announce_step ac sl ev S) = group_run (group_ops ac sl ev) (an_Registry S)"
proof (cases ev)
  case (Announcement now raw sa)
  obtain buf where buf: "take (ac_size ac + 64) raw = buf" by blast
  show ?thesis unfolding Announcement announce_step.simps group_ops.simps announce_datagram_def announce_of_def buf Let_def
    by (cases "ac_decode ac buf") (simp_all add: map_option_bind comp_def)
next
  case (GroupsTick now)
  then show ?thesis by (simp add: evictLoop_Announce_def split_beta)
qed

lemma run_ops: "map_option an_Registry (each (announce_step ac sl) evs S) = group_run (concat (map (group_ops ac sl) evs)) (an_Registry S)"
proof (induction evs arbitrary: S)
  case (Cons ev evs)
  then show ?case by (cases "announce_step ac sl ev S") (simp_all add: group_run_append flip: step_ops)
qed simp

lemma told_ops: "fold (told d g s) (concat (map (group_ops ac sl) evs)) e = fold (announced_until ac sl d g s) evs e"
proof (induction evs arbitrary: e)
  case (Cons ev evs)
  then show ?case by (cases ev) (auto split: option.split)
qed simp

text \<open>
  C15. What the network announces is what the filter passes. After any interleaving of announcement
  datagrams and evictions nothing panics, and a frame is passed exactly when its group is wanted,
  its subtree is not excluded, and its subtree is statically included or the last announcement of it
  for a subscribed group, from a sender the access list allows, is within its lifetime: the one it
  carries, or else the default. Malformed datagrams, other groups and evictions change nothing.
\<close>

theorem announced_subtree_passes:
  assumes "list_all (ticks_by now) evs"
  shows "\<exists>S. each (announce_step ac sl) evs \<lparr>an_Registry = New_Groups gs d, an_metrics = []\<rparr> = Some S \<and>
    Allow now groupIdx fr (New_Filter si inc exc (Some (an_Registry S))) =
      (if si \<noteq> [] \<and> groupIdx \<notin> set si then (False, ''shard_filter'')
       else if fr_SubtreeID fr \<in> set exc then (False, ''subtree_exclude'')
       else if fr_SubtreeID fr \<in> set inc \<or>
               list_ex (\<lambda>g. case fold (announced_until ac sl d g (fr_SubtreeID fr)) evs None of None \<Rightarrow> False | Some e \<Rightarrow> now < e) gs
       then (True, []) else (False, ''subtree_include_miss''))"
proof -
  have "list_all (evicts_by now) (group_ops ac sl ev)" if "ticks_by now ev" for ev
    using that by (cases ev) (auto split: option.split)
  then have "list_all (evicts_by now) (concat (map (group_ops ac sl) evs))" using assms by (auto simp: list_all_iff)
  from contains_history [OF this, of gs d "fr_SubtreeID fr"] obtain r where
    r: "group_run (concat (map (group_ops ac sl) evs)) (New_Groups gs d) = Some r"
      "Contains now (fr_SubtreeID fr) r = list_ex (\<lambda>g. case fold (announced_until ac sl d g (fr_SubtreeID fr)) evs None of None \<Rightarrow> False | Some e \<Rightarrow> now < e) gs"
    unfolding told_ops by blast
  obtain S where "each (announce_step ac sl) evs \<lparr>an_Registry = New_Groups gs d, an_metrics = []\<rparr> = Some S" "an_Registry S = r"
    using run_ops [of ac sl evs "\<lparr>an_Registry = New_Groups gs d, an_metrics = []\<rparr>"] r(1) by auto
  then show ?thesis using r(2) by (auto simp: Allow_def New_Filter_def)
qed

section \<open>Runs\<close>

definition no_manifests :: "(unit, unit) manifest_code" where
  "no_manifests = \<lparr>mf_decode = \<lambda>_. Inl ''manifest'', mf_upsert = \<lambda>_ _ _ m. m\<rparr>"

definition demo_listener :: "unit Beacon" where
  "demo_listener = \<lparr>be_Registry = NewRegistry, be_ManifestRegistry = None, be_Rec = True, be_metrics = []\<rparr>"


definition demo_announce :: announce_code where
  "demo_announce = \<lparr>ac_size = 4, ac_decode = \<lambda>b. if hd b = 1 then Inr \<lparr>an_GroupID = 1, an_SubtreeID = 7, an_TTL = 60\<rparr> else Inl ''version''\<rparr>"

definition demo_announcer :: SubtreeGroupAnnounceListener where
  "demo_announcer = \<lparr>sl_DefaultTTL = 900 * second, sl_SenderInclude = [], sl_SenderExclude = [], sl_Rec = True\<rparr>"

theorem announced_subtree_passes_witness:
  "\<exists>S. each (announce_step demo_announce demo_announcer) [Announcement 0 [1, 2, 3, 4] (Some (9, 0)), Announcement 1 [0, 2, 3, 4] None, GroupsTick 5]
       \<lparr>an_Registry = New_Groups [1] (900 * second), an_metrics = []\<rparr> = Some S \<and>
     Allow 10 3 \<lparr>fr_Version = 2, fr_TxID = 0, fr_SubtreeID = 7, fr_HashKey = 0, fr_SeqNum = 1, fr_Payload = []\<rparr>
       (New_Filter [] [] [] (Some (an_Registry S))) = (True, [])"
  using announced_subtree_passes [of 10 "[Announcement 0 [1, 2, 3, 4] (Some (9, 0)), Announcement 1 [0, 2, 3, 4] None, GroupsTick 5]"
      demo_announce demo_announcer "[1]" "900 * second" 3 "\<lparr>fr_Version = 2, fr_TxID = 0, fr_SubtreeID = 7, fr_HashKey = 0, fr_SeqNum = 1, fr_Payload = []\<rparr>" "[]" "[]" "[]"]
  by (simp add: announce_of_def demo_announce_def demo_announcer_def senderAllowed_def Allow_Sender_def announce_ttl_def second_def min_dur_def max_dur_def)

end
